(* ===== verification/Prelude.thy ===== *)
theory Prelude
  imports Main "HOL-Library.Char_ord" "HOL-Library.List_Lexorder"
begin

text \<open>
  Shared vocabulary of the development: outcomes of calls that can abort, arithmetic at the
  width of \<^verbatim>\<open>size_t\<close>, and the part of the C and C++ standard library on strings and ranges
  that the sources use (\<^verbatim>\<open>std::find\<close>, \<^verbatim>\<open>std::search\<close>, \<^verbatim>\<open>std::string::find\<close>, \<^verbatim>\<open>isspace\<close>,
  \<^verbatim>\<open>std::to_string\<close>, \<^verbatim>\<open>std::map\<close> with its ordered iteration), with the generic lemmas about
  them.  Bytes are HOL characters and a byte string is a list of them.
\<close>

named_theorems result_iff \<open>inversion of a call that returned normally\<close>
named_theorems size_simps \<open>size arithmetic that does not wrap\<close>
named_theorems range_simps \<open>chunks of byte ranges\<close>

type_synonym bytes = "char list"

section \<open>Outcomes\<close>

text \<open>
  The project is built in debug mode (README), so a failing \<^verbatim>\<open>assert\<close> ends the process.
  \<open>Length_Error\<close> is \<^verbatim>\<open>std::vector\<close> growing past \<^verbatim>\<open>max_size()\<close>; \<open>Out_Of_Bounds\<close> is an access
  outside the memory of an object or to a freed one, whose behaviour C++ does not define; \<open>Bad_Alloc\<close> is
  \<^verbatim>\<open>new\<close> finding no memory; \<open>Fatal_Log\<close> is \<^verbatim>\<open>LOG_FATAL\<close> and \<^verbatim>\<open>LOG_SYSFATAL\<close>, which abort.
\<close>

datatype fault = Assertion_Failed | Length_Error | Out_Of_Bounds | Bad_Alloc | Fatal_Log

type_synonym 'a result = "fault + 'a"

definition rbind :: "'a result \<Rightarrow> ('a \<Rightarrow> 'b result) \<Rightarrow> 'b result" where
  "rbind m f = (case m of Inl e \<Rightarrow> Inl e | Inr x \<Rightarrow> f x)"

definition passert :: "bool \<Rightarrow> unit result" where
  "passert b = (if b then Inr () else Inl Assertion_Failed)"

lemma rbind_simps [simp]:
  "rbind (Inl e) f = Inl e"
  "rbind (Inr x) f = f x"
  by (simp_all add: rbind_def)

lemma passert_True [simp]: "passert True = Inr ()"
  by (simp add: passert_def)

lemma passert_False [simp]: "passert False = Inl Assertion_Failed"
  by (simp add: passert_def)

lemma rbind_Inr_iff [result_iff]: "rbind m f = Inr y \<longleftrightarrow> (\<exists>x. m = Inr x \<and> f x = Inr y)"
  by (cases m) simp_all

lemma passert_Inr_iff [result_iff]: "passert b = Inr u \<longleftrightarrow> b"
  by (cases b) simp_all

lemma rbind_cong [fundef_cong]:
  "m = m' \<Longrightarrow> (\<And>x. m' = Inr x \<Longrightarrow> f x = f' x) \<Longrightarrow> rbind m f = rbind m' f'"
  by (cases m') simp_all

section \<open>Arithmetic at the width of \<^verbatim>\<open>size_t\<close>\<close>

text \<open>
  Sizes and indices are natural numbers below \<^verbatim>\<open>2^64\<close>; addition and subtraction wrap, as
  \<^verbatim>\<open>size_t\<close> does.  \<open>vec_max\<close> is \<^verbatim>\<open>std::vector<char>::max_size()\<close> (\<^verbatim>\<open>PTRDIFF_MAX\<close>).
\<close>

definition size_mod :: nat where
  "size_mod = 2 ^ 64"

definition vec_max :: nat where
  "vec_max = 2 ^ 63 - 1"

definition sz_add :: "nat \<Rightarrow> nat \<Rightarrow> nat" where
  "sz_add a b = (a + b) mod size_mod"

definition sz_sub :: "nat \<Rightarrow> nat \<Rightarrow> nat" where
  "sz_sub a b = (if b \<le> a then a - b else size_mod + a - b)"

lemma vec_max_lt_size_mod: "vec_max < size_mod"
  by (simp add: vec_max_def size_mod_def)

lemma double_vec_max_lt_size_mod: "2 * vec_max < size_mod"
  by (simp add: vec_max_def size_mod_def)

lemma sz_add_exact [size_simps]: "a + b < size_mod \<Longrightarrow> sz_add a b = a + b"
  by (simp add: sz_add_def)

lemma sz_sub_exact [size_simps]: "b \<le> a \<Longrightarrow> sz_sub a b = a - b"
  by (simp add: sz_sub_def)

lemma sz_sub_self [simp]: "sz_sub a a = 0"
  by (simp add: sz_sub_def)

lemma sz_add_lt: "sz_add a b < size_mod"
  by (simp add: sz_add_def size_mod_def)

section \<open>Ranges and memory\<close>

text \<open>
  \<open>chunk i n xs\<close> are the \<open>n\<close> elements from index \<open>i\<close> on; \<open>write_at\<close> is \<^verbatim>\<open>std::copy\<close> or
  \<^verbatim>\<open>memcpy\<close> into a block of memory, which has to have room for all of it.
\<close>

definition chunk :: "nat \<Rightarrow> nat \<Rightarrow> 'a list \<Rightarrow> 'a list" where
  "chunk i n xs = take n (drop i xs)"

definition write_at :: "nat \<Rightarrow> 'a list \<Rightarrow> 'a list \<Rightarrow> 'a list result" where
  "write_at i d xs =
     (if i + length d \<le> length xs
      then Inr (take i xs @ d @ drop (i + length d) xs)
      else Inl Out_Of_Bounds)"

lemma length_chunk [range_simps]: "length (chunk i n xs) = min n (length xs - i)"
  by (simp add: chunk_def min.commute)

lemma chunk_0 [simp]: "chunk i 0 xs = []"
  by (simp add: chunk_def)

lemma drop_chunk [range_simps]: "drop k (chunk i n xs) = chunk (i + k) (n - k) xs"
  by (simp add: chunk_def drop_take add.commute)

lemma take_chunk [range_simps]: "take k (chunk i n xs) = chunk i (min k n) xs"
  by (simp add: chunk_def)

lemma write_at_Inr [result_iff]:
  "write_at i d xs = Inr ys \<longleftrightarrow>
     i + length d \<le> length xs \<and> ys = take i xs @ d @ drop (i + length d) xs"
  by (auto simp: write_at_def)

lemma chunk_before_write [range_simps]:
  "i + n \<le> k \<Longrightarrow> k \<le> length xs \<Longrightarrow> chunk i n (take k xs @ ys) = chunk i n xs"
  by (simp add: chunk_def take_drop min_absorb1 ac_simps)

lemma chunk_append_write [range_simps]:
  assumes "i \<le> k" and "k \<le> length xs"
  shows "chunk i (k - i + length d) (take k xs @ d @ ys) = chunk i (k - i) xs @ d"
proof -
  have "drop i (take k xs @ d @ ys) = chunk i (k - i) xs @ d @ ys"
    using assms by (simp add: chunk_def drop_take)
  moreover have "length (chunk i (k - i) xs) = k - i"
    using assms by (simp add: length_chunk)
  ultimately show ?thesis
    by (simp add: chunk_def)
qed

lemma chunk_written [range_simps]:
  "k \<le> length xs \<Longrightarrow> chunk k (length d) (take k xs @ d @ ys) = d"
  by (simp add: chunk_def)

lemma chunk_prepend_write [range_simps]:
  "k \<le> length xs \<Longrightarrow>
     chunk k (length d + n) (take k xs @ d @ drop m xs) = d @ chunk m n xs"
  by (simp add: chunk_def)

section \<open>Searching\<close>

text \<open>
  The library's searches return an iterator; here it is an index into the range, the
  length of the range standing for its end.
\<close>

fun starts_with :: "'a list \<Rightarrow> 'a list \<Rightarrow> bool" where
  "starts_with [] xs = True"
| "starts_with (p # ps) [] = False"
| "starts_with (p # ps) (x # xs) = (p = x \<and> starts_with ps xs)"

definition std_find :: "'a \<Rightarrow> 'a list \<Rightarrow> nat" where
  "std_find c xs = length (takeWhile (\<lambda>x. x \<noteq> c) xs)"

fun std_search :: "'a list \<Rightarrow> 'a list \<Rightarrow> nat" where
  "std_search pat [] = 0"
| "std_search pat (x # xs) =
     (if starts_with pat (x # xs) then 0 else Suc (std_search pat xs))"

text \<open>\<^verbatim>\<open>std::string::find\<close>: \<open>None\<close> is \<^verbatim>\<open>npos\<close>.\<close>

fun str_find :: "'a list \<Rightarrow> 'a list \<Rightarrow> nat option" where
  "str_find pat [] = (if pat = [] then Some 0 else None)"
| "str_find pat (x # xs) =
     (if starts_with pat (x # xs) then Some 0 else map_option Suc (str_find pat xs))"

definition str_find_from :: "'a list \<Rightarrow> 'a list \<Rightarrow> nat \<Rightarrow> nat option" where
  "str_find_from pat xs pos =
     (if pos \<le> length xs then map_option (\<lambda>k. pos + k) (str_find pat (drop pos xs)) else None)"

lemma starts_with_iff: "starts_with ps xs \<longleftrightarrow> (\<exists>ys. xs = ps @ ys)"
  by (induction ps xs rule: starts_with.induct) auto

lemma starts_with_append [simp]: "starts_with ps (ps @ ys)"
  by (auto simp: starts_with_iff)

lemma starts_with_length: "starts_with ps xs \<Longrightarrow> length ps \<le> length xs"
  by (auto simp: starts_with_iff)

lemma starts_with_mono: "starts_with ps xs \<Longrightarrow> starts_with ps (xs @ ys)"
  by (auto simp: starts_with_iff)

lemma std_find_le: "std_find c xs \<le> length xs"
  by (simp add: std_find_def length_takeWhile_le)

lemma std_find_end_iff: "std_find c xs = length xs \<longleftrightarrow> c \<notin> set xs"
proof
  assume "std_find c xs = length xs"
  then have "takeWhile (\<lambda>x. x \<noteq> c) xs = xs"
    by (metis std_find_def append_eq_conv_conj take_all_iff takeWhile_dropWhile_id order_refl)
  then show "c \<notin> set xs"
    by (metis (mono_tags, lifting) set_takeWhileD)
next
  assume "c \<notin> set xs"
  then show "std_find c xs = length xs"
    by (induction xs) (auto simp: std_find_def)
qed

lemma std_find_lt_iff: "std_find c xs < length xs \<longleftrightarrow> c \<in> set xs"
  using std_find_le [of c xs] std_find_end_iff [of c xs] by linarith

lemma std_find_split:
  "c \<notin> set xs \<Longrightarrow> std_find c (xs @ c # ys) = length xs"
  by (induction xs) (auto simp: std_find_def)

lemma std_find_nth: "std_find c xs < length xs \<Longrightarrow> xs ! std_find c xs = c"
  using nth_length_takeWhile [of "\<lambda>x. x \<noteq> c" xs] by (simp add: std_find_def)

lemma std_search_le: "std_search pat xs \<le> length xs"
  by (induction xs) auto

lemma std_search_hit:
  "std_search pat xs < length xs \<Longrightarrow> starts_with pat (drop (std_search pat xs) xs)"
  by (induction xs) auto

lemma std_search_before: "i < std_search pat xs \<Longrightarrow> \<not> starts_with pat (drop i xs)"
proof (induction xs arbitrary: i)
  case (Cons x xs)
  then show ?case by (cases i) (auto split: if_splits)
qed simp

lemma std_search_hit_le:
  assumes "std_search pat xs < length xs"
  shows "std_search pat xs + length pat \<le> length xs"
  using starts_with_length [OF std_search_hit [OF assms]] assms by simp

lemma std_search_unique:
  assumes "k < length xs" and "starts_with pat (drop k xs)"
    and "\<And>i. i < k \<Longrightarrow> \<not> starts_with pat (drop i xs)"
  shows "std_search pat xs = k"
  using assms
proof (induction xs arbitrary: k)
  case (Cons x xs)
  show ?case
  proof (cases k)
    case 0
    with Cons.prems show ?thesis by simp
  next
    case (Suc m)
    have "\<not> starts_with pat (drop i xs)" if "i < m" for i
      using Cons.prems(3) [of "Suc i"] that Suc by simp
    moreover have "\<not> starts_with pat (x # xs)"
      using Cons.prems(3) [of 0] Suc by simp
    ultimately show ?thesis
      using Cons.IH [of m] Cons.prems Suc by simp
  qed
qed simp

lemma str_find_Some:
  "str_find pat xs = Some k \<Longrightarrow>
     k + length pat \<le> length xs \<and> starts_with pat (drop k xs)"
proof (induction xs arbitrary: k)
  case (Cons x xs)
  show ?case
  proof (cases "starts_with pat (x # xs)")
    case True
    with Cons.prems show ?thesis by (auto dest: starts_with_length)
  next
    case False
    with Cons.prems obtain j where "str_find pat xs = Some j" and "k = Suc j"
      by auto
    with Cons.IH show ?thesis by simp
  qed
qed (auto split: if_splits)

lemma str_find_None: "str_find pat xs = None \<Longrightarrow> \<not> starts_with pat (drop i xs)"
proof (induction xs arbitrary: i)
  case Nil
  then show ?case by (cases pat) (auto split: if_splits)
next
  case (Cons x xs)
  then show ?case by (cases i) (auto split: if_splits)
qed

lemma str_find_char:
  "str_find [c] xs = (if c \<in> set xs then Some (std_find c xs) else None)"
  by (induction xs) (auto simp: std_find_def)

lemma str_find_char_split: "c \<notin> set xs \<Longrightarrow> str_find [c] (xs @ c # ys) = Some (length xs)"
  by (simp add: str_find_char std_find_split)

section \<open>Characters and C strings\<close>

definition NUL :: char where
  "NUL = CHR 0x00"

text \<open>The bytes a C function sees of a \<^verbatim>\<open>std::string\<close>: those before the first zero byte.\<close>

definition c_str :: "bytes \<Rightarrow> bytes" where
  "c_str s = takeWhile (\<lambda>c. c \<noteq> NUL) s"

text \<open>\<^verbatim>\<open>isspace\<close>, \<^verbatim>\<open>isdigit\<close>, \<^verbatim>\<open>tolower\<close> of the C locale.\<close>

definition isspace :: "char \<Rightarrow> bool" where
  "isspace c \<longleftrightarrow> c \<in> {CHR 0x20, CHR 0x09, CHR 0x0A, CHR 0x0B, CHR 0x0C, CHR 0x0D}"

definition code :: "char \<Rightarrow> nat" where
  "code c = of_char c"

definition isdigit :: "char \<Rightarrow> bool" where
  "isdigit c \<longleftrightarrow> 48 \<le> code c \<and> code c \<le> 57"

definition digit_val :: "char \<Rightarrow> nat" where
  "digit_val c = code c - 48"

definition tolower :: "char \<Rightarrow> char" where
  "tolower c = (if 65 \<le> code c \<and> code c \<le> 90 then char_of (code c + 32) else c)"

definition strcasecmp_eq :: "bytes \<Rightarrow> bytes \<Rightarrow> bool" where
  "strcasecmp_eq s t \<longleftrightarrow> map tolower (c_str s) = map tolower (c_str t)"

text \<open>\<^verbatim>\<open>std::to_string\<close>.\<close>

fun nat_to_string :: "nat \<Rightarrow> bytes" where
  "nat_to_string n =
     (if n < 10 then [char_of (48 + n)]
      else nat_to_string (n div 10) @ [char_of (48 + n mod 10)])"

declare nat_to_string.simps [simp del]

definition int_to_string :: "int \<Rightarrow> bytes" where
  "int_to_string i = (if i < 0 then CHR ''-'' # nat_to_string (nat (- i)) else nat_to_string (nat i))"

text \<open>The value of a run of decimal digits.\<close>

definition dec_val :: "bytes \<Rightarrow> nat" where
  "dec_val ds = foldl (\<lambda>a c. a * 10 + digit_val c) 0 ds"

lemma code_char_of [simp]: "n < 256 \<Longrightarrow> code (char_of n) = n"
  by (simp add: code_def)

lemma char_of_code [simp]: "char_of (code c) = c"
  by (simp add: code_def)

lemma char_of_digits [simp]:
  "char_of (48 :: nat) = CHR ''0''" "char_of (49 :: nat) = CHR ''1''" "char_of (50 :: nat) = CHR ''2''"
  "char_of (51 :: nat) = CHR ''3''" "char_of (52 :: nat) = CHR ''4''" "char_of (53 :: nat) = CHR ''5''"
  "char_of (54 :: nat) = CHR ''6''" "char_of (55 :: nat) = CHR ''7''" "char_of (56 :: nat) = CHR ''8''"
  "char_of (57 :: nat) = CHR ''9''"
  by (simp_all add: char_of_def bit_0)

lemma code_lt: "code c < 256"
  by (simp add: code_def)

lemma isspace_not_digit: "isspace c \<Longrightarrow> \<not> isdigit c"
  by (auto simp: isspace_def isdigit_def code_def)

lemma digit_char: "d < 10 \<Longrightarrow> isdigit (char_of (48 + d)) \<and> digit_val (char_of (48 + d)) = d"
  by (simp add: isdigit_def digit_val_def)

lemma dec_val_snoc: "dec_val (ds @ [c]) = dec_val ds * 10 + digit_val c"
  by (simp add: dec_val_def)

lemma nat_to_string_digits: "list_all isdigit (nat_to_string n) \<and> nat_to_string n \<noteq> []"
proof (induction n rule: nat_to_string.induct)
  case (1 n)
  then show ?case
    using digit_char [of n] digit_char [of "n mod 10"]
    by (subst (1 2) nat_to_string.simps) auto
qed

lemma dec_val_nat_to_string: "dec_val (nat_to_string n) = n"
proof (induction n rule: nat_to_string.induct)
  case (1 n)
  show ?case
  proof (cases "n < 10")
    case True
    then show ?thesis
      using digit_char [of n] by (subst nat_to_string.simps) (simp add: dec_val_def)
  next
    case False
    then show ?thesis
      using 1 digit_char [of "n mod 10"] by (subst nat_to_string.simps) (simp add: dec_val_snoc)
  qed
qed

lemma nat_to_string_inj: "nat_to_string m = nat_to_string n \<Longrightarrow> m = n"
  by (metis dec_val_nat_to_string)

lemma length_nat_to_string: "0 < k \<Longrightarrow> n < 10 ^ k \<Longrightarrow> length (nat_to_string n) \<le> k"
proof (induction n arbitrary: k rule: nat_to_string.induct)
  case (1 n)
  show ?case
  proof (cases "n < 10")
    case True
    then show ?thesis using 1(2) by (subst nat_to_string.simps) simp
  next
    case False
    then obtain k' where k: "k = Suc k'" "0 < k'" using 1(3) by (cases k; cases "k - 1") auto
    then have "n div 10 < 10 ^ k'" using 1(3) by (simp add: div_less_iff_less_mult mult.commute)
    then show ?thesis using 1(1) [OF False k(2)] False k(1) by (subst nat_to_string.simps) simp
  qed
qed

section \<open>Time\<close>

section \<open>Numbers in memory\<close>

text \<open>
  \<^verbatim>\<open>atoi\<close> as the C library has it: \<^verbatim>\<open>strtol\<close>, which saturates at 64 bits, cut to 32 bits.  It reads
  on from its argument through the memory, blanks and line ends included, and has to meet a byte that
  ends the number before the memory does.
\<close>

definition to_int32 :: "int \<Rightarrow> int" where
  "to_int32 v = (v + 2 ^ 31) mod 2 ^ 32 - 2 ^ 31"

definition strtol_clamp :: "int \<Rightarrow> int" where
  "strtol_clamp v = max (- (2 ^ 63)) (min (2 ^ 63 - 1) v)"

definition atoi :: "bytes \<Rightarrow> int result" where
  "atoi mem =
     (let s = dropWhile isspace mem;
          neg = starts_with ''-'' s;
          s1 = (if neg \<or> starts_with ''+'' s then tl s else s);
          ds = takeWhile isdigit s1
      in if length ds = length s1 then Inl Out_Of_Bounds
         else let v = int (dec_val ds)
              in Inr (to_int32 (strtol_clamp (if neg then - v else v))))"

text \<open>\<^verbatim>\<open>static_cast<size_t>\<close> of an \<^verbatim>\<open>int\<close>.\<close>

definition size_of_int :: "int \<Rightarrow> nat" where
  "size_of_int i = nat (i mod 2 ^ 64)"

lemma size_of_int_small: "n < 2 ^ 31 \<Longrightarrow> size_of_int (int n) = n"
  by (simp add: size_of_int_def)

lemma atoi_number:
  assumes ws: "list_all isspace ws" and ds: "ds \<noteq> []" "list_all isdigit ds" "dec_val ds < 2 ^ 31" and c: "\<not> isdigit c"
  shows "atoi (ws @ ds @ c # mem) = Inr (int (dec_val ds))"
proof -
  have d: "isdigit (hd ds)"
    using ds(1,2) by (cases ds) auto
  have "\<not> isspace (hd ds)" "hd ds \<noteq> CHR ''-''" "hd ds \<noteq> CHR ''+''"
    using d isspace_not_digit by (auto simp: isdigit_def code_def)
  then have skip: "dropWhile isspace (ds @ c # mem) = ds @ c # mem"
    "\<not> starts_with ''-'' (ds @ c # mem)" "\<not> starts_with ''+'' (ds @ c # mem)"
    using ds(1) by (cases ds; simp)+
  moreover have "dropWhile isspace (ws @ ds @ c # mem) = dropWhile isspace (ds @ c # mem)"
    using ws by (simp add: dropWhile_append list_all_iff)
  moreover have "takeWhile isdigit (ds @ c # mem) = ds"
    using ds(2) c by (simp add: list_all_iff takeWhile_append)
  moreover have "to_int32 (strtol_clamp (int (dec_val ds))) = int (dec_val ds)"
    using ds(3) by (simp add: to_int32_def strtol_clamp_def)
  ultimately show ?thesis by (simp add: atoi_def Let_def)
qed

text \<open>\<^verbatim>\<open>TimeStamp\<close> by its one field, microseconds since the epoch (\<^verbatim>\<open>int64_t\<close>).\<close>

type_synonym TimeStamp = int

end
