(* ===== verification/Byte_Buffer.thy ===== *)
theory Byte_Buffer
  imports Prelude
begin

text \<open>
  The contract of a byte buffer, shared by \<^verbatim>\<open>Buffer\<close> (one contiguous vector) and
  \<^verbatim>\<open>LinkedBuffer\<close> (a list of blocks): it is a first-in first-out queue of bytes.  The locale
  \<open>fifo_buffer\<close> fixes the operations a client calls and the laws it relies on; its lemmas lift
  the laws to whole sequences of operations.  Both buffer theories interpret it.
\<close>

datatype buf_op = Put bytes | Get nat

fun run_ops ::
  "('b \<Rightarrow> bytes \<Rightarrow> 'b result) \<Rightarrow> ('b \<Rightarrow> nat \<Rightarrow> (bytes \<times> 'b) result) \<Rightarrow>
   buf_op list \<Rightarrow> 'b \<Rightarrow> (bytes \<times> 'b) result" where
  "run_ops put get [] b = Inr ([], b)"
| "run_ops put get (Put d # ops) b = rbind (put b d) (run_ops put get ops)"
| "run_ops put get (Get n # ops) b =
     rbind (get b n) (\<lambda>(out, b1).
     rbind (run_ops put get ops b1) (\<lambda>(outs, b2). Inr (out @ outs, b2)))"

text \<open>
  The abstract queue: \<open>queue_run ops q\<close> is the bytes read and the bytes left, or \<open>None\<close> when some
  read asks for more than is there.
\<close>

fun queue_run :: "buf_op list \<Rightarrow> bytes \<Rightarrow> (bytes \<times> bytes) option" where
  "queue_run [] q = Some ([], q)"
| "queue_run (Put d # ops) q = queue_run ops (q @ d)"
| "queue_run (Get n # ops) q =
     (if n \<le> length q
      then map_option (\<lambda>(outs, q'). (take n q @ outs, q')) (queue_run ops (drop n q))
      else None)"

fun total_put :: "buf_op list \<Rightarrow> bytes" where
  "total_put [] = []"
| "total_put (Put d # ops) = d @ total_put ops"
| "total_put (Get n # ops) = total_put ops"

lemma queue_run_fifo: "queue_run ops q = Some (out, rest) \<Longrightarrow> out @ rest = q @ total_put ops"
proof (induction ops q arbitrary: out rest rule: queue_run.induct)
  case (3 n ops q)
  then obtain outs where "queue_run ops (drop n q) = Some (outs, rest)" and "n \<le> length q"
    and "out = take n q @ outs"
    by (auto split: if_splits)
  with "3.IH" [of outs rest] show ?case
    by (metis append.assoc append_take_drop_id total_put.simps(3))
qed auto

locale fifo_buffer =
  fixes contents :: "'b \<Rightarrow> bytes"
    and invar :: "'b \<Rightarrow> bool"
    and used :: "'b \<Rightarrow> nat"
    and limit :: nat
    and put :: "'b \<Rightarrow> bytes \<Rightarrow> 'b result"
    and discard :: "'b \<Rightarrow> nat \<Rightarrow> 'b result"
    and get :: "'b \<Rightarrow> nat \<Rightarrow> (bytes \<times> 'b) result"
  assumes put_ok:
    "invar b \<Longrightarrow> used b + length d \<le> limit \<Longrightarrow>
       \<exists>b'. put b d = Inr b' \<and> invar b' \<and> contents b' = contents b @ d \<and>
            used b' \<le> used b + length d"
  and discard_ok:
    "invar b \<Longrightarrow> n \<le> length (contents b) \<Longrightarrow>
       \<exists>b'. discard b n = Inr b' \<and> invar b' \<and> contents b' = drop n (contents b) \<and>
            used b' \<le> used b"
  and discard_too_much:
    "invar b \<Longrightarrow> length (contents b) < n \<Longrightarrow> discard b n = Inl Assertion_Failed"
  and get_ok:
    "invar b \<Longrightarrow> n \<le> length (contents b) \<Longrightarrow>
       \<exists>b'. get b n = Inr (take n (contents b), b') \<and> invar b' \<and>
            contents b' = drop n (contents b) \<and> used b' \<le> used b"
  and get_too_much:
    "invar b \<Longrightarrow> length (contents b) < n \<Longrightarrow> get b n = Inl Assertion_Failed"
begin

lemma discard_iff:
  "invar b \<Longrightarrow> (\<exists>b'. discard b n = Inr b') \<longleftrightarrow> n \<le> length (contents b)"
  using discard_ok [of b n] discard_too_much [of b n] by (cases "n \<le> length (contents b)") auto

lemma run_refines_queue:
  assumes "invar b" and "used b + length (total_put ops) \<le> limit"
    and "queue_run ops (contents b) = Some (out, rest)"
  shows "\<exists>b'. run_ops put get ops b = Inr (out, b') \<and> invar b' \<and> contents b' = rest"
  using assms
proof (induction ops arbitrary: b out)
  case Nil
  then show ?case by simp
next
  case (Cons op ops)
  show ?case
  proof (cases op)
    case (Put d)
    then obtain b' where b': "put b d = Inr b'" "invar b'" "contents b' = contents b @ d"
      "used b' \<le> used b + length d"
      using put_ok [of b d] Cons.prems by auto
    then have "used b' + length (total_put ops) \<le> limit"
      using Cons.prems(2) Put by simp
    then show ?thesis
      using Cons.IH [of b' out] b' Cons.prems(3) Put by simp
  next
    case (Get n)
    then obtain outs where n: "n \<le> length (contents b)"
      and q: "queue_run ops (drop n (contents b)) = Some (outs, rest)"
      and out: "out = take n (contents b) @ outs"
      using Cons.prems(3) by (auto split: if_splits)
    obtain b' where b': "get b n = Inr (take n (contents b), b')" "invar b'"
      "contents b' = drop n (contents b)" "used b' \<le> used b"
      using get_ok [OF Cons.prems(1) n] by auto
    have "used b' + length (total_put ops) \<le> limit"
      using b'(4) Cons.prems(2) Get by simp
    then show ?thesis
      using Cons.IH [of b' outs] b' q out Get by auto
  qed
qed

lemma run_overdrawn:
  assumes "invar b" and "used b + length (total_put ops) \<le> limit"
    and "queue_run ops (contents b) = None"
  shows "run_ops put get ops b = Inl Assertion_Failed"
  using assms
proof (induction ops arbitrary: b)
  case Nil
  then show ?case by simp
next
  case (Cons op ops)
  show ?case
  proof (cases op)
    case (Put d)
    then obtain b' where b': "put b d = Inr b'" "invar b'" "contents b' = contents b @ d"
      "used b' \<le> used b + length d"
      using put_ok [of b d] Cons.prems by auto
    then show ?thesis
      using Cons.IH [of b'] Cons.prems Put by simp
  next
    case (Get n)
    show ?thesis
    proof (cases "n \<le> length (contents b)")
      case True
      then obtain b' where b': "get b n = Inr (take n (contents b), b')" "invar b'"
        "contents b' = drop n (contents b)" "used b' \<le> used b"
        using get_ok [OF Cons.prems(1)] by auto
      then show ?thesis
        using Cons.IH [of b'] Cons.prems Get True by simp
    next
      case False
      then show ?thesis
        using get_too_much [OF Cons.prems(1)] Get by simp
    qed
  qed
qed

end

end
