(* ===== verification/Net_Buffer.thy ===== *)
theory Net_Buffer
  imports Byte_Buffer
begin

text \<open>
  \<^verbatim>\<open>Buffer\<close> (\<^verbatim>\<open>inc/network/Buffer.hpp\<close>, \<^verbatim>\<open>src/network/Buffer.cpp\<close>): a vector of bytes with a
  read and a write index.  A pointer into the vector is the index it points at.  Every
  \<^verbatim>\<open>assert\<close> of the source is a \<open>passert\<close> here, in its place.  The last part interprets
  \<open>fifo_buffer\<close>: under the representation invariant \<open>buf_ok\<close> the buffer is a byte queue.
\<close>

section \<open>Definitions\<close>

record Buffer =
  buffer :: bytes
  readIndex :: nat
  writeIndex :: nat

definition kCheapPrepend :: nat where
  "kCheapPrepend = 8"

definition kInitialSize :: nat where
  "kInitialSize = 1024"

definition BUFFER_LEN :: nat where
  "BUFFER_LEN = 65536"

definition kCRLF :: bytes where
  "kCRLF = [CHR 0x0D, CHR 0x0A]"

definition readableBytes :: "Buffer \<Rightarrow> nat" where
  "readableBytes b = sz_sub (writeIndex b) (readIndex b)"

definition writableBytes :: "Buffer \<Rightarrow> nat" where
  "writableBytes b = sz_sub (length (buffer b)) (writeIndex b)"

definition prependableBytes :: "Buffer \<Rightarrow> nat" where
  "prependableBytes b = readIndex b"

definition peek :: "Buffer \<Rightarrow> nat" where
  "peek b = readIndex b"

definition beginWrite :: "Buffer \<Rightarrow> nat" where
  "beginWrite b = writeIndex b"

text \<open>The constructor sizes the vector by \<open>kInitialSize\<close>, whatever \<open>initialSize\<close> is.\<close>

definition mkBuffer :: "nat \<Rightarrow> Buffer result" where
  "mkBuffer initialSize =
     (let b = \<lparr>buffer = replicate (kCheapPrepend + kInitialSize) (CHR 0x00),
               readIndex = kCheapPrepend, writeIndex = kCheapPrepend\<rparr>
      in rbind (passert (readableBytes b = 0)) (\<lambda>_.
         rbind (passert (writableBytes b = initialSize)) (\<lambda>_.
         rbind (passert (prependableBytes b = kCheapPrepend)) (\<lambda>_. Inr b))))"

definition emptyBuffer :: Buffer where
  "emptyBuffer = \<lparr>buffer = replicate (kCheapPrepend + kInitialSize) (CHR 0x00),
                  readIndex = kCheapPrepend, writeIndex = kCheapPrepend\<rparr>"

text \<open>The bytes from one position of the vector up to the write index.\<close>

definition bytes_from :: "Buffer \<Rightarrow> nat \<Rightarrow> bytes" where
  "bytes_from b start = chunk start (writeIndex b - start) (buffer b)"

definition contents :: "Buffer \<Rightarrow> bytes" where
  "contents b = bytes_from b (readIndex b)"

definition findCRLF :: "Buffer \<Rightarrow> nat option" where
  "findCRLF b =
     (let crlf = peek b + std_search kCRLF (bytes_from b (peek b))
      in if crlf = beginWrite b then None else Some crlf)"

definition findCRLF_from :: "Buffer \<Rightarrow> nat \<Rightarrow> nat option result" where
  "findCRLF_from b start =
     rbind (passert (peek b \<le> start)) (\<lambda>_.
     rbind (passert (start \<le> beginWrite b)) (\<lambda>_.
     let crlf = start + std_search kCRLF (bytes_from b start)
     in Inr (if crlf = beginWrite b then None else Some crlf)))"

definition memchr :: "char \<Rightarrow> bytes \<Rightarrow> nat option" where
  "memchr c xs = (let k = std_find c xs in if k = length xs then None else Some k)"

definition findEOL :: "Buffer \<Rightarrow> nat option" where
  "findEOL b = map_option (\<lambda>k. peek b + k) (memchr (CHR 0x0A) (bytes_from b (peek b)))"

definition findEOL_from :: "Buffer \<Rightarrow> nat \<Rightarrow> nat option result" where
  "findEOL_from b start =
     rbind (passert (peek b \<le> start)) (\<lambda>_.
     rbind (passert (start \<le> beginWrite b)) (\<lambda>_.
     Inr (map_option (\<lambda>k. start + k) (memchr (CHR 0x0A) (bytes_from b start)))))"

definition retrieveAll :: "Buffer \<Rightarrow> Buffer" where
  "retrieveAll b = b\<lparr>readIndex := kCheapPrepend, writeIndex := kCheapPrepend\<rparr>"

definition retrieve :: "Buffer \<Rightarrow> nat \<Rightarrow> Buffer result" where
  "retrieve b len =
     rbind (passert (len \<le> readableBytes b)) (\<lambda>_.
     if len < readableBytes b
     then Inr (b\<lparr>readIndex := sz_add (readIndex b) len\<rparr>)
     else Inr (retrieveAll b))"

definition retrieveUntil :: "Buffer \<Rightarrow> nat \<Rightarrow> Buffer result" where
  "retrieveUntil b endp =
     rbind (passert (peek b \<le> endp)) (\<lambda>_.
     rbind (passert (endp \<le> beginWrite b)) (\<lambda>_.
     retrieve b (sz_sub endp (peek b))))"

definition retrieveAsString :: "Buffer \<Rightarrow> nat \<Rightarrow> (bytes \<times> Buffer) result" where
  "retrieveAsString b len =
     rbind (passert (len \<le> readableBytes b)) (\<lambda>_.
     let result = chunk (peek b) len (buffer b)
     in rbind (retrieve b len) (\<lambda>b'. Inr (result, b')))"

definition retrieveAllAsString :: "Buffer \<Rightarrow> (bytes \<times> Buffer) result" where
  "retrieveAllAsString b = retrieveAsString b (readableBytes b)"

definition resize_vec :: "bytes \<Rightarrow> nat \<Rightarrow> bytes result" where
  "resize_vec v n =
     (if vec_max < n then Inl Length_Error
      else Inr (take n v @ replicate (n - length v) (CHR 0x00)))"

definition makeSpace :: "Buffer \<Rightarrow> nat \<Rightarrow> Buffer result" where
  "makeSpace b len =
     (if sz_add (writableBytes b) (prependableBytes b) < sz_add len kCheapPrepend
      then rbind (resize_vec (buffer b) (sz_add (writeIndex b) len)) (\<lambda>v.
           Inr (b\<lparr>buffer := v\<rparr>))
      else rbind (passert (kCheapPrepend < readIndex b)) (\<lambda>_.
           let readable = readableBytes b
           in rbind (write_at kCheapPrepend (bytes_from b (readIndex b)) (buffer b)) (\<lambda>v.
              let b' = b\<lparr>buffer := v, readIndex := kCheapPrepend,
                         writeIndex := sz_add kCheapPrepend readable\<rparr>
              in rbind (passert (readable = readableBytes b')) (\<lambda>_. Inr b'))))"

definition checkWritableSpace :: "Buffer \<Rightarrow> nat \<Rightarrow> Buffer result" where
  "checkWritableSpace b len =
     rbind (if writableBytes b < len then makeSpace b len else Inr b) (\<lambda>b'.
     rbind (passert (writableBytes b' \<ge> len)) (\<lambda>_. Inr b'))"

definition hasWritten :: "Buffer \<Rightarrow> nat \<Rightarrow> Buffer result" where
  "hasWritten b len =
     rbind (passert (writableBytes b \<ge> len)) (\<lambda>_.
     Inr (b\<lparr>writeIndex := sz_add (writeIndex b) len\<rparr>))"

definition unWrite :: "Buffer \<Rightarrow> nat \<Rightarrow> Buffer result" where
  "unWrite b len =
     rbind (passert (len \<le> readableBytes b)) (\<lambda>_.
     Inr (b\<lparr>writeIndex := sz_sub (writeIndex b) len\<rparr>))"

definition append_buf :: "Buffer \<Rightarrow> bytes \<Rightarrow> Buffer result" where
  "append_buf b data =
     rbind (checkWritableSpace b (length data)) (\<lambda>b1.
     rbind (write_at (beginWrite b1) data (buffer b1)) (\<lambda>v.
     hasWritten (b1\<lparr>buffer := v\<rparr>) (length data)))"

definition prepend :: "Buffer \<Rightarrow> bytes \<Rightarrow> Buffer result" where
  "prepend b data =
     rbind (passert (length data \<le> prependableBytes b)) (\<lambda>_.
     let r = sz_sub (readIndex b) (length data)
     in rbind (write_at r data (buffer b)) (\<lambda>v.
        Inr (b\<lparr>buffer := v, readIndex := r\<rparr>)))"

definition swap_buf :: "Buffer \<Rightarrow> Buffer \<Rightarrow> Buffer \<times> Buffer" where
  "swap_buf lhs rhs =
     (lhs\<lparr>buffer := buffer rhs, readIndex := readIndex rhs, writeIndex := writeIndex rhs\<rparr>,
      rhs\<lparr>buffer := buffer lhs, readIndex := readIndex lhs, writeIndex := writeIndex lhs\<rparr>)"

definition shrink :: "Buffer \<Rightarrow> nat \<Rightarrow> Buffer result" where
  "shrink b reserve =
     rbind (mkBuffer kInitialSize) (\<lambda>other.
     rbind (checkWritableSpace other (sz_add (readableBytes b) reserve)) (\<lambda>other1.
     rbind (append_buf other1 (chunk (peek b) (readableBytes b) (buffer b))) (\<lambda>other2.
     Inr (fst (swap_buf b other2)))))"

text \<open>
  \<^verbatim>\<open>readFd\<close>: the reply of \<^verbatim>\<open>readv\<close> is an argument, either \<open>errno\<close> or the bytes it delivered
  (first into the writable part of the vector, then into the 64 KiB buffer on the stack, which
  is offered only when the vector has less room than that).  The result is the returned count
  (\<open>-1\<close> on failure), the saved \<open>errno\<close> and the buffer.
\<close>

datatype read_reply = Read_Error int | Read_Bytes bytes

definition readv_capacity :: "Buffer \<Rightarrow> nat" where
  "readv_capacity b =
     (let writable = writableBytes b
      in if writable < BUFFER_LEN then writable + BUFFER_LEN else writable)"

definition readFd :: "Buffer \<Rightarrow> int \<Rightarrow> read_reply \<Rightarrow> (int \<times> int \<times> Buffer) result" where
  "readFd b savedErrno reply =
     (let writable = writableBytes b
      in case reply of
           Read_Error errno \<Rightarrow> Inr (-1, errno, b)
         | Read_Bytes d \<Rightarrow>
             let n = length d
             in if n \<le> writable
                then rbind (write_at (writeIndex b) d (buffer b)) (\<lambda>v.
                     Inr (int n, savedErrno,
                          b\<lparr>buffer := v, writeIndex := sz_add (writeIndex b) n\<rparr>))
                else rbind (write_at (writeIndex b) (take writable d) (buffer b)) (\<lambda>v.
                     rbind (append_buf (b\<lparr>buffer := v, writeIndex := length v\<rparr>)
                              (drop writable d)) (\<lambda>b'.
                     Inr (int n, savedErrno, b'))))"

section \<open>The representation invariant\<close>

definition buf_ok :: "Buffer \<Rightarrow> bool" where
  "buf_ok b \<longleftrightarrow>
     readIndex b \<le> writeIndex b \<and> writeIndex b \<le> length (buffer b) \<and>
     kCheapPrepend \<le> length (buffer b) \<and> length (buffer b) \<le> vec_max"

definition buf_used :: "Buffer \<Rightarrow> nat" where
  "buf_used b = max kCheapPrepend (writeIndex b)"

lemmas buf_defs =
  readableBytes_def writableBytes_def prependableBytes_def peek_def beginWrite_def

lemma readableBytes_ok [size_simps]:
  "buf_ok b \<Longrightarrow> readableBytes b = writeIndex b - readIndex b"
  by (simp add: buf_ok_def readableBytes_def size_simps)

lemma writableBytes_ok [size_simps]:
  "buf_ok b \<Longrightarrow> writableBytes b = length (buffer b) - writeIndex b"
  by (simp add: buf_ok_def writableBytes_def size_simps)

lemma length_contents [simp]:
  "buf_ok b \<Longrightarrow> length (contents b) = writeIndex b - readIndex b"
  by (auto simp: buf_ok_def contents_def bytes_from_def length_chunk min_def)

lemma readable_contents: "buf_ok b \<Longrightarrow> readableBytes b = length (contents b)"
  by (simp add: readableBytes_ok)

lemma mkBuffer_default: "mkBuffer kInitialSize = Inr emptyBuffer"
  by (simp add: mkBuffer_def emptyBuffer_def Let_def buf_defs kCheapPrepend_def kInitialSize_def
      sz_sub_def)

lemma mkBuffer_other_size: "n \<noteq> kInitialSize \<Longrightarrow> mkBuffer n = Inl Assertion_Failed"
  by (simp add: mkBuffer_def Let_def buf_defs kCheapPrepend_def kInitialSize_def sz_sub_def)

lemma buf_ok_empty [simp]: "buf_ok emptyBuffer"
  by (simp add: buf_ok_def emptyBuffer_def kCheapPrepend_def kInitialSize_def vec_max_def)

lemma contents_empty [simp]: "contents emptyBuffer = []"
  by (simp add: contents_def bytes_from_def emptyBuffer_def)

lemma length_buffer_empty [simp]: "length (buffer emptyBuffer) = 1032"
  by (simp add: emptyBuffer_def kCheapPrepend_def kInitialSize_def)

lemma writableBytes_empty [simp]: "writableBytes emptyBuffer = 1024"
  by (simp add: writableBytes_def emptyBuffer_def kCheapPrepend_def kInitialSize_def sz_sub_def)

lemma used_empty [simp]: "buf_used emptyBuffer = 8"
  by (simp add: buf_used_def emptyBuffer_def kCheapPrepend_def)

text \<open>A buffer that holds the given bytes, right behind the prepend area.\<close>

definition buffer_of :: "bytes \<Rightarrow> Buffer" where
  "buffer_of d = \<lparr>buffer = replicate kCheapPrepend (CHR 0x00) @ d, readIndex = kCheapPrepend,
                  writeIndex = kCheapPrepend + length d\<rparr>"

lemma buffer_of_ok:
  "kCheapPrepend + length d \<le> vec_max \<Longrightarrow> buf_ok (buffer_of d)"
  by (simp add: buffer_of_def buf_ok_def)

lemma contents_buffer_of [simp]: "contents (buffer_of d) = d"
  by (simp add: buffer_of_def contents_def bytes_from_def chunk_def)

subsection \<open>Reading\<close>

lemma retrieveAll_ok: "buf_ok b \<Longrightarrow> buf_ok (retrieveAll b) \<and> contents (retrieveAll b) = []"
  by (simp add: retrieveAll_def buf_ok_def contents_def bytes_from_def)

lemma retrieve_ok:
  assumes "buf_ok b" and "n \<le> length (contents b)"
  shows "\<exists>b'. retrieve b n = Inr b' \<and> buf_ok b' \<and> contents b' = drop n (contents b) \<and>
           buf_used b' \<le> buf_used b"
proof (cases "n < writeIndex b - readIndex b")
  case True
  have small: "readIndex b + n < size_mod"
    using assms True vec_max_lt_size_mod by (auto simp: buf_ok_def)
  let ?b = "b\<lparr>readIndex := readIndex b + n\<rparr>"
  have "retrieve b n = Inr ?b"
    using assms True small by (simp add: retrieve_def readableBytes_ok sz_add_exact)
  moreover have "buf_ok ?b"
    using assms True by (simp add: buf_ok_def)
  moreover have "contents ?b = drop n (contents b)"
    by (simp add: contents_def bytes_from_def drop_chunk)
  ultimately show ?thesis by (simp add: buf_used_def)
next
  case False
  with assms have eq: "n = writeIndex b - readIndex b" by simp
  then have "retrieve b n = Inr (retrieveAll b)"
    using assms by (simp add: retrieve_def readableBytes_ok)
  then show ?thesis
    using retrieveAll_ok [OF assms(1)] assms eq
    by (auto simp: buf_used_def retrieveAll_def)
qed

lemma retrieve_too_much:
  "buf_ok b \<Longrightarrow> length (contents b) < n \<Longrightarrow> retrieve b n = Inl Assertion_Failed"
  by (simp add: retrieve_def readableBytes_ok)

lemma retrieveUntil_ok:
  assumes "buf_ok b" and "readIndex b \<le> e" and "e \<le> writeIndex b"
  shows "\<exists>b'. retrieveUntil b e = Inr b' \<and> buf_ok b' \<and>
           contents b' = drop (e - readIndex b) (contents b) \<and> buf_used b' \<le> buf_used b"
  using retrieve_ok [of b "e - readIndex b"] assms
  by (simp add: retrieveUntil_def buf_defs sz_sub_exact)

lemma contents_prefix:
  assumes "buf_ok b" and "n \<le> length (contents b)"
  shows "chunk (peek b) n (buffer b) = take n (contents b)"
proof -
  have "min n (writeIndex b - readIndex b) = n"
    using assms by simp
  then show ?thesis
    by (simp add: peek_def contents_def bytes_from_def take_chunk)
qed

lemma retrieveAsString_ok:
  assumes "buf_ok b" and "n \<le> length (contents b)"
  shows "\<exists>b'. retrieveAsString b n = Inr (take n (contents b), b') \<and> buf_ok b' \<and>
           contents b' = drop n (contents b) \<and> buf_used b' \<le> buf_used b"
  using retrieve_ok [OF assms] contents_prefix [OF assms] assms
  by (auto simp: retrieveAsString_def readableBytes_ok Let_def)

lemma retrieveAsString_too_much:
  "buf_ok b \<Longrightarrow> length (contents b) < n \<Longrightarrow> retrieveAsString b n = Inl Assertion_Failed"
  by (simp add: retrieveAsString_def readableBytes_ok)

lemma findCRLF_None_iff:
  "buf_ok b \<Longrightarrow> findCRLF b = None \<longleftrightarrow> std_search kCRLF (contents b) = length (contents b)"
  by (auto simp: findCRLF_def Let_def buf_defs contents_def [symmetric] buf_ok_def)

lemma findCRLF_Some:
  "buf_ok b \<Longrightarrow> findCRLF b = Some p \<Longrightarrow>
     p = readIndex b + std_search kCRLF (contents b) \<and>
     std_search kCRLF (contents b) < length (contents b)"
  using std_search_le [of kCRLF "contents b"]
  by (auto simp: findCRLF_def Let_def buf_defs contents_def [symmetric] buf_ok_def split: if_splits)

subsection \<open>Writing\<close>

lemma makeSpace_ok:
  assumes ok: "buf_ok b" and short: "writableBytes b < len"
    and room: "buf_used b + len \<le> vec_max"
  shows "\<exists>b'. makeSpace b len = Inr b' \<and> buf_ok b' \<and> len \<le> writableBytes b' \<and>
           contents b' = contents b \<and> writeIndex b' \<le> buf_used b"
proof (cases "writableBytes b + readIndex b < len + kCheapPrepend")
  case True
  have w: "writeIndex b + len \<le> vec_max"
    using room by (simp add: buf_used_def)
  have sums: "sz_add (writableBytes b) (prependableBytes b) = writableBytes b + readIndex b"
    "sz_add len kCheapPrepend = len + kCheapPrepend"
    "sz_add (writeIndex b) len = writeIndex b + len"
    using ok short room vec_max_lt_size_mod
    by (auto simp: buf_ok_def sz_add_exact prependableBytes_def writableBytes_ok buf_used_def
        kCheapPrepend_def)
  let ?v = "take (writeIndex b + len) (buffer b) @
            replicate (writeIndex b + len - length (buffer b)) (CHR 0x00)"
  let ?b = "b\<lparr>buffer := ?v\<rparr>"
  have grow: "length (buffer b) \<le> writeIndex b + len"
    using ok short by (simp add: writableBytes_ok)
  have "makeSpace b len = Inr ?b"
    using True w sums by (simp add: makeSpace_def resize_vec_def)
  moreover have "buf_ok ?b"
    using ok w grow by (auto simp: buf_ok_def)
  moreover have "contents ?b = contents b"
    using ok grow by (simp add: buf_ok_def contents_def bytes_from_def chunk_def)
  moreover have "len \<le> writableBytes ?b"
    using \<open>buf_ok ?b\<close> grow by (simp add: writableBytes_ok)
  ultimately show ?thesis by (auto simp: buf_used_def)
next
  case False
  have sums: "sz_add (writableBytes b) (prependableBytes b) = writableBytes b + readIndex b"
    "sz_add len kCheapPrepend = len + kCheapPrepend"
    using ok short room vec_max_lt_size_mod
    by (auto simp: buf_ok_def sz_add_exact prependableBytes_def writableBytes_ok buf_used_def
        kCheapPrepend_def)
  have r: "kCheapPrepend < readIndex b"
    using False short by simp
  define n where "n = length (contents b)"
  have n: "n = writeIndex b - readIndex b"
    using ok by (simp add: n_def)
  have end_le: "kCheapPrepend + n \<le> length (buffer b)"
    using r n ok by (auto simp: buf_ok_def)
  have small: "kCheapPrepend + n < size_mod"
    using end_le ok vec_max_lt_size_mod by (simp add: buf_ok_def)
  define v where
    "v = take kCheapPrepend (buffer b) @ contents b @ drop (kCheapPrepend + n) (buffer b)"
  have len_v: "length v = length (buffer b)"
    using end_le by (simp add: v_def n_def del: length_contents)
  let ?b = "b\<lparr>buffer := v, readIndex := kCheapPrepend, writeIndex := kCheapPrepend + n\<rparr>"
  have "write_at kCheapPrepend (contents b) (buffer b) = Inr v"
    using end_le by (simp add: write_at_Inr v_def n_def)
  moreover have ok': "buf_ok ?b"
    using ok end_le len_v by (simp add: buf_ok_def)
  moreover have "readableBytes b = n" "readableBytes ?b = n"
    using ok ok' by (simp_all add: readableBytes_ok n)
  ultimately have "makeSpace b len = Inr ?b"
    using False sums r small by (simp add: makeSpace_def Let_def contents_def sz_add_exact)
  moreover have "contents ?b = contents b"
  proof -
    have "chunk kCheapPrepend n v = contents b"
      using ok unfolding v_def n_def by (simp add: chunk_written buf_ok_def del: length_contents)
    then show ?thesis by (simp add: contents_def [of ?b] bytes_from_def)
  qed
  moreover have "len \<le> writableBytes ?b"
    using ok ok' False n len_v by (auto simp: writableBytes_ok buf_ok_def)
  moreover have "kCheapPrepend + n \<le> buf_used b"
    using r n by (simp add: buf_used_def)
  ultimately show ?thesis using ok' by auto
qed

lemma checkWritableSpace_ok:
  assumes "buf_ok b" and "buf_used b + len \<le> vec_max"
  shows "\<exists>b'. checkWritableSpace b len = Inr b' \<and> buf_ok b' \<and> len \<le> writableBytes b' \<and>
           contents b' = contents b \<and> writeIndex b' \<le> buf_used b"
proof (cases "writableBytes b < len")
  case True
  then show ?thesis
    using makeSpace_ok [OF assms(1) True assms(2)] by (auto simp: checkWritableSpace_def)
next
  case False
  then show ?thesis
    using assms by (simp add: checkWritableSpace_def buf_used_def)
qed

text \<open>Bytes stored at the write index and counted in: the common core of \<^verbatim>\<open>append\<close> and \<^verbatim>\<open>readFd\<close>.\<close>

lemma store_ok:
  assumes ok: "buf_ok b" and room: "length d \<le> writableBytes b"
  shows "\<exists>v. write_at (writeIndex b) d (buffer b) = Inr v \<and> length v = length (buffer b) \<and>
           sz_add (writeIndex b) (length d) = writeIndex b + length d \<and>
           buf_ok (b\<lparr>buffer := v, writeIndex := writeIndex b + length d\<rparr>) \<and>
           contents (b\<lparr>buffer := v, writeIndex := writeIndex b + length d\<rparr>) = contents b @ d"
proof -
  define v where "v = take (writeIndex b) (buffer b) @ d @ drop (writeIndex b + length d) (buffer b)"
  have fits: "writeIndex b + length d \<le> length (buffer b)"
    using ok room by (auto simp: writableBytes_ok buf_ok_def)
  have w: "write_at (writeIndex b) d (buffer b) = Inr v"
    using fits by (simp add: write_at_Inr v_def)
  have len: "length v = length (buffer b)"
    using fits by (simp add: v_def)
  have small: "writeIndex b + length d < size_mod"
    using fits ok vec_max_lt_size_mod by (simp add: buf_ok_def)
  have ok': "buf_ok (b\<lparr>buffer := v, writeIndex := writeIndex b + length d\<rparr>)"
    using ok fits len by (simp add: buf_ok_def)
  have "chunk (readIndex b) (writeIndex b - readIndex b + length d) v = contents b @ d"
    using ok unfolding v_def
    by (subst chunk_append_write) (auto simp: buf_ok_def contents_def bytes_from_def)
  moreover have "writeIndex b + length d - readIndex b = writeIndex b - readIndex b + length d"
    using ok by (simp add: buf_ok_def)
  ultimately have "contents (b\<lparr>buffer := v, writeIndex := writeIndex b + length d\<rparr>) = contents b @ d"
    by (simp add: contents_def [of "b\<lparr>buffer := v, writeIndex := writeIndex b + length d\<rparr>"]
        bytes_from_def)
  with w len small ok' show ?thesis by (auto simp: sz_add_exact)
qed

lemma append_buf_ok:
  assumes "buf_ok b" and "buf_used b + length d \<le> vec_max"
  shows "\<exists>b'. append_buf b d = Inr b' \<and> buf_ok b' \<and> contents b' = contents b @ d \<and>
           buf_used b' \<le> buf_used b + length d"
proof -
  obtain b1 where b1: "checkWritableSpace b (length d) = Inr b1" "buf_ok b1"
    "length d \<le> writableBytes b1" "contents b1 = contents b" "writeIndex b1 \<le> buf_used b"
    using checkWritableSpace_ok [OF assms] by auto
  obtain v where v: "write_at (writeIndex b1) d (buffer b1) = Inr v" "length v = length (buffer b1)"
    "sz_add (writeIndex b1) (length d) = writeIndex b1 + length d"
    "buf_ok (b1\<lparr>buffer := v, writeIndex := writeIndex b1 + length d\<rparr>)"
    "contents (b1\<lparr>buffer := v, writeIndex := writeIndex b1 + length d\<rparr>) = contents b1 @ d"
    using store_ok [OF b1(2,3)] by auto
  have "writableBytes (b1\<lparr>buffer := v\<rparr>) = writableBytes b1"
    by (simp add: writableBytes_def v(2))
  then show ?thesis
    using b1 v by (auto simp: append_buf_def hasWritten_def beginWrite_def buf_used_def)
qed

lemma prepend_ok:
  assumes "buf_ok b" and "length d \<le> readIndex b"
  shows "\<exists>b'. prepend b d = Inr b' \<and> buf_ok b' \<and> contents b' = d @ contents b"
proof -
  let ?r = "readIndex b - length d"
  let ?v = "take ?r (buffer b) @ d @ drop (readIndex b) (buffer b)"
  have fits: "?r + length d \<le> length (buffer b)"
    using assms by (simp add: buf_ok_def)
  have "prepend b d = Inr (b\<lparr>buffer := ?v, readIndex := ?r\<rparr>)"
    using assms fits by (simp add: prepend_def prependableBytes_def Let_def sz_sub_exact write_at_def)
  moreover have "buf_ok (b\<lparr>buffer := ?v, readIndex := ?r\<rparr>)"
    using assms by (auto simp: buf_ok_def)
  moreover have "contents (b\<lparr>buffer := ?v, readIndex := ?r\<rparr>) = d @ contents b"
  proof -
    have "writeIndex b - ?r = length d + (writeIndex b - readIndex b)"
      using assms by (auto simp: buf_ok_def)
    moreover have "?r \<le> length (buffer b)"
      using fits by simp
    ultimately show ?thesis
      by (simp add: contents_def bytes_from_def chunk_prepend_write)
  qed
  ultimately show ?thesis by blast
qed

lemma unWrite_ok:
  assumes "buf_ok b" and "n \<le> length (contents b)"
  shows "\<exists>b'. unWrite b n = Inr b' \<and> buf_ok b' \<and>
           contents b' = take (length (contents b) - n) (contents b)"
proof -
  let ?b = "b\<lparr>writeIndex := writeIndex b - n\<rparr>"
  have n: "n \<le> writeIndex b - readIndex b"
    using assms by simp
  then have "unWrite b n = Inr ?b"
    using assms by (simp add: unWrite_def readableBytes_ok sz_sub_exact)
  moreover have "buf_ok ?b"
    using assms n by (auto simp: buf_ok_def)
  moreover have "contents ?b = take (length (contents b) - n) (contents b)"
    using assms n by (simp add: contents_def [of ?b] bytes_from_def)
      (simp add: contents_def bytes_from_def take_chunk min_absorb1 add.commute)
  ultimately show ?thesis by blast
qed

lemma readFd_ok:
  assumes ok: "buf_ok b" and contract: "length d \<le> readv_capacity b"
    and room: "length (buffer b) + length d \<le> vec_max"
  shows "\<exists>b'. readFd b e (Read_Bytes d) = Inr (int (length d), e, b') \<and> buf_ok b' \<and>
           contents b' = contents b @ d"
proof (cases "length d \<le> writableBytes b")
  case True
  then show ?thesis
    using store_ok [OF ok True] by (auto simp: readFd_def Let_def)
next
  case False
  define k where "k = writableBytes b"
  have k: "k = length (buffer b) - writeIndex b"
    using ok by (simp add: k_def writableBytes_ok)
  have "length (take k d) \<le> writableBytes b"
    by (simp add: k_def)
  from store_ok [OF ok this] obtain v where v:
    "write_at (writeIndex b) (take k d) (buffer b) = Inr v" "length v = length (buffer b)"
    "buf_ok (b\<lparr>buffer := v, writeIndex := writeIndex b + length (take k d)\<rparr>)"
    "contents (b\<lparr>buffer := v, writeIndex := writeIndex b + length (take k d)\<rparr>) =
       contents b @ take k d"
    by auto
  have full: "writeIndex b + length (take k d) = length v"
    using False k v(2) ok by (simp add: k_def [symmetric] buf_ok_def)
  let ?b = "b\<lparr>buffer := v, writeIndex := length v\<rparr>"
  have "buf_used ?b + length (drop k d) \<le> vec_max"
    using room v(2) ok by (auto simp: buf_used_def buf_ok_def)
  then obtain b' where "append_buf ?b (drop k d) = Inr b'" "buf_ok b'"
    "contents b' = contents ?b @ drop k d"
    using append_buf_ok [of ?b "drop k d"] v(3) unfolding full by auto
  then show ?thesis
    using False v full by (auto simp: readFd_def Let_def k_def [symmetric])
qed

lemma swap_buf_eq: "swap_buf lhs rhs = (rhs, lhs)"
  by (cases lhs, cases rhs) (simp add: swap_buf_def)

lemma shrink_ok:
  assumes ok: "buf_ok b" and room: "8 + length (contents b) + reserve \<le> vec_max"
  shows "\<exists>b'. shrink b reserve = Inr b' \<and> buf_ok b' \<and> contents b' = contents b"
proof -
  define n where "n = length (contents b)"
  have n: "readableBytes b = n"
    using ok by (simp add: n_def readable_contents)
  have sum: "sz_add n reserve = n + reserve"
    using room vec_max_lt_size_mod by (simp add: n_def sz_add_exact del: length_contents)
  have bytes: "chunk (peek b) n (buffer b) = contents b"
    using contents_prefix [OF ok, of n] by (simp add: n_def del: length_contents)
  obtain o1 where o1: "checkWritableSpace emptyBuffer (n + reserve) = Inr o1" "buf_ok o1"
    "contents o1 = []" "writeIndex o1 \<le> 8"
    using checkWritableSpace_ok [of emptyBuffer "n + reserve"] room
    by (auto simp: n_def simp del: length_contents)
  have "buf_used o1 + length (contents b) \<le> vec_max"
    using o1(4) room by (simp add: buf_used_def kCheapPrepend_def del: length_contents)
  then obtain o2 where "append_buf o1 (contents b) = Inr o2" "buf_ok o2" "contents o2 = contents b"
    using append_buf_ok [OF o1(2), of "contents b"] o1(3) by auto
  then show ?thesis
    using o1 by (auto simp: shrink_def mkBuffer_default n sum bytes swap_buf_eq)
qed

section \<open>The buffer is a byte queue\<close>

interpretation net_buf: fifo_buffer contents buf_ok buf_used vec_max append_buf retrieve
  retrieveAsString
proof (unfold_locales, goal_cases)
  case (1 b d) then show ?case by (rule append_buf_ok)
next
  case (2 b n) then show ?case by (rule retrieve_ok)
next
  case (3 b n) then show ?case by (rule retrieve_too_much)
next
  case (4 b n) then show ?case by (rule retrieveAsString_ok)
next
  case (5 b n) then show ?case by (rule retrieveAsString_too_much)
qed

text \<open>
  C10 (refinement). For every sequence of \<^verbatim>\<open>append\<close> and \<^verbatim>\<open>retrieveAsString\<close> calls that never reads
  more than is there, the buffer, growing and compacting as it likes, returns what an ideal byte
  queue returns, keeps its invariant, and loses, invents and reorders nothing: the bytes read
  followed by the bytes left are the bytes it had followed by the bytes appended.
\<close>

theorem buffer_is_byte_queue:
  assumes "buf_ok b" and "buf_used b + length (total_put ops) \<le> vec_max"
    and "queue_run ops (contents b) = Some (out, rest)"
  shows "(\<exists>b'. run_ops append_buf retrieveAsString ops b = Inr (out, b') \<and> buf_ok b' \<and>
           contents b' = rest) \<and> out @ rest = contents b @ total_put ops"
  using net_buf.run_refines_queue [OF assms] queue_run_fifo [OF assms(3)] by simp

theorem buffer_is_byte_queue_witness:
  "(\<exists>b'. run_ops append_buf retrieveAsString [Put ''GET'', Put '' /'', Get 4] emptyBuffer =
       Inr (''GET '', b') \<and> buf_ok b' \<and> contents b' = ''/'') \<and>
   ''GET '' @ ''/'' = contents emptyBuffer @ total_put [Put ''GET'', Put '' /'', Get 4]"
  by (rule buffer_is_byte_queue) (simp_all add: vec_max_def)

text \<open>
  A sequence of calls that somewhere asks for more bytes than the buffer holds fails an
  assertion; it never returns bytes that were not appended.
\<close>

theorem buffer_overdrawn_aborts:
  assumes "buf_ok b" and "buf_used b + length (total_put ops) \<le> vec_max"
    and "queue_run ops (contents b) = None"
  shows "run_ops append_buf retrieveAsString ops b = Inl Assertion_Failed"
  by (rule net_buf.run_overdrawn [OF assms])

theorem buffer_overdrawn_aborts_witness:
  "run_ops append_buf retrieveAsString [Put ''ab'', Get 1, Get 2] emptyBuffer =
     Inl Assertion_Failed"
  by (rule buffer_overdrawn_aborts) (simp_all add: vec_max_def)

text \<open>
  \<^verbatim>\<open>readFd\<close> appends exactly the bytes \<^verbatim>\<open>readv\<close> delivered, also when they overflow
  into the stack buffer, and returns their number; it relies on \<^verbatim>\<open>readv\<close> delivering no more than
  the space it was offered.
\<close>

theorem readFd_appends_delivered_bytes:
  assumes "buf_ok b" and "length d \<le> readv_capacity b" and "length (buffer b) + length d \<le> vec_max"
  shows "\<exists>b'. readFd b e (Read_Bytes d) = Inr (int (length d), e, b') \<and> buf_ok b' \<and>
           contents b' = contents b @ d"
  by (rule readFd_ok [OF assms])

theorem readFd_appends_delivered_bytes_witness:
  "\<exists>b'. readFd emptyBuffer 0 (Read_Bytes (replicate 2000 CHR ''x'')) = Inr (2000, 0, b') \<and>
     buf_ok b' \<and> contents b' = replicate 2000 CHR ''x''"
  using readFd_appends_delivered_bytes [of emptyBuffer "replicate 2000 CHR ''x''" 0]
  by (simp add: readv_capacity_def BUFFER_LEN_def Let_def vec_max_def)

end
