(* ===== verification/Linked_Buffer.thy ===== *)
theory Linked_Buffer
  imports Net_Buffer
begin

text \<open>
  \<^verbatim>\<open>LinkedBuffer\<close> (\<^verbatim>\<open>inc/network/LinkedBuffer.hpp\<close>): a list of memory blocks and a cached count of
  the readable bytes.  A pointer into a block is the number of the block and an offset into its
  memory.  \<^verbatim>\<open>new char[n]\<close> leaves the memory uninitialised; the model fills it with zero bytes,
  which no operation reads before it wrote them.
\<close>

section \<open>Definitions\<close>

record Block =
  b_data :: bytes
  b_prependable :: nat
  b_readable :: nat
  b_writable :: nat
  b_capacity :: nat

record LinkedBuffer =
  blocks :: "Block list"
  total_readable :: nat

definition LINKED_BLOCK_SIZE :: nat where
  "LINKED_BLOCK_SIZE = 4096"

definition LINKED_PREPEND_SIZE :: nat where
  "LINKED_PREPEND_SIZE = 8"

definition mkBlock :: "nat \<Rightarrow> Block" where
  "mkBlock cap = \<lparr>b_data = replicate cap (CHR 0x00), b_prependable = LINKED_PREPEND_SIZE,
                  b_readable = 0, b_writable = sz_sub cap LINKED_PREPEND_SIZE,
                  b_capacity = cap\<rparr>"

definition blk_peek :: "Block \<Rightarrow> nat" where
  "blk_peek k = b_prependable k"

definition blk_beginWrite :: "Block \<Rightarrow> nat" where
  "blk_beginWrite k = b_prependable k + b_readable k"

definition blk_bytes :: "Block \<Rightarrow> bytes" where
  "blk_bytes k = chunk (blk_peek k) (b_readable k) (b_data k)"

definition blk_shrink :: "Block \<Rightarrow> Block result" where
  "blk_shrink k =
     (if b_prependable k + b_readable k + b_writable k \<noteq> b_capacity k then Inr k
      else let new_cap = b_prependable k + b_readable k + 1
           in rbind (write_at (b_prependable k) (blk_bytes k) (replicate new_cap (CHR 0x00))) (\<lambda>d.
              Inr (k\<lparr>b_data := d, b_capacity := new_cap,
                     b_writable := new_cap - b_prependable k - b_readable k\<rparr>)))"

definition mkLinkedBuffer :: LinkedBuffer where
  "mkLinkedBuffer = \<lparr>blocks = [], total_readable = 0\<rparr>"

definition lb_readableBytes :: "LinkedBuffer \<Rightarrow> nat" where
  "lb_readableBytes b = total_readable b"

definition lb_writableBytes :: "LinkedBuffer \<Rightarrow> nat" where
  "lb_writableBytes b = foldl (\<lambda>tot k. sz_add tot (b_writable k)) 0 (blocks b)"

definition lb_prependableBytes :: "LinkedBuffer \<Rightarrow> nat" where
  "lb_prependableBytes b = foldl (\<lambda>tot k. sz_add tot (b_prependable k)) 0 (blocks b)"

fun lb_findCRLF_loop :: "nat \<Rightarrow> nat \<Rightarrow> Block list \<Rightarrow> (nat \<times> nat) option" where
  "lb_findCRLF_loop i remaining [] = None"
| "lb_findCRLF_loop i remaining (k # ks) =
     (if b_readable k = 0 then lb_findCRLF_loop (Suc i) remaining ks
      else let crlf = std_search kCRLF (blk_bytes k)
           in if crlf \<noteq> b_readable k then Some (i, blk_peek k + crlf)
              else let remaining' = sz_sub remaining (b_readable k)
                   in if remaining' < 2 then None
                      else lb_findCRLF_loop (Suc i) remaining' ks)"

definition lb_findCRLF :: "LinkedBuffer \<Rightarrow> (nat \<times> nat) option" where
  "lb_findCRLF b = lb_findCRLF_loop 0 (total_readable b) (blocks b)"

fun lb_findEOL_loop :: "nat \<Rightarrow> Block list \<Rightarrow> (nat \<times> nat) option" where
  "lb_findEOL_loop i [] = None"
| "lb_findEOL_loop i (k # ks) =
     (if b_readable k = 0 then lb_findEOL_loop (Suc i) ks
      else case memchr (CHR 0x0A) (blk_bytes k) of
             Some off \<Rightarrow> Some (i, blk_peek k + off)
           | None \<Rightarrow> lb_findEOL_loop (Suc i) ks)"

definition lb_findEOL :: "LinkedBuffer \<Rightarrow> (nat \<times> nat) option" where
  "lb_findEOL b = lb_findEOL_loop 0 (blocks b)"

fun lb_retrieve_loop :: "nat \<Rightarrow> nat \<Rightarrow> Block list \<Rightarrow> nat \<times> Block list" where
  "lb_retrieve_loop remaining tot [] = (tot, [])"
| "lb_retrieve_loop remaining tot (front # ks) =
     (if remaining = 0 then (tot, front # ks)
      else if b_readable front \<le> remaining
           then lb_retrieve_loop (remaining - b_readable front)
                  (sz_sub tot (b_readable front)) ks
           else (sz_sub tot remaining,
                 front\<lparr>b_readable := b_readable front - remaining,
                       b_prependable := sz_add (b_prependable front) remaining\<rparr> # ks))"

definition lb_retrieve :: "LinkedBuffer \<Rightarrow> nat \<Rightarrow> LinkedBuffer result" where
  "lb_retrieve b len =
     rbind (passert (len \<le> total_readable b)) (\<lambda>_.
     let (tot, ks) = lb_retrieve_loop len (total_readable b) (blocks b)
     in Inr (b\<lparr>blocks := ks, total_readable := tot\<rparr>))"

text \<open>
  \<^verbatim>\<open>retrieveUntil\<close> compares addresses: \<open>addr\<close> is where the memory of each block begins.  A block that lies below \<^verbatim>\<open>end\<close> is deleted
  and erased from the list, after which the loop advances the erased iterator: a read of freed memory.
\<close>

fun lb_retrieveUntil_loop :: "(nat \<Rightarrow> nat) \<Rightarrow> nat \<Rightarrow> LinkedBuffer \<Rightarrow> nat \<Rightarrow> Block list \<Rightarrow> LinkedBuffer result" where
  "lb_retrieveUntil_loop addr e b i [] = Inr b"
| "lb_retrieveUntil_loop addr e b i (k # ks) =
     (let block_start = addr i + blk_peek k;
          block_end = block_start + b_readable k
      in if block_start \<le> e \<and> e \<le> block_end then lb_retrieve b (e - block_start)
         else if block_end < e then Inl Out_Of_Bounds
         else lb_retrieveUntil_loop addr e b (Suc i) ks)"

definition lb_retrieveUntil :: "(nat \<Rightarrow> nat) \<Rightarrow> nat \<times> nat \<Rightarrow> LinkedBuffer \<Rightarrow> LinkedBuffer result" where
  "lb_retrieveUntil addr ptr b = lb_retrieveUntil_loop addr (addr (fst ptr) + snd ptr) b 0 (blocks b)"

definition lb_retrieveAll :: "LinkedBuffer \<Rightarrow> LinkedBuffer" where
  "lb_retrieveAll b = b\<lparr>blocks := [], total_readable := 0\<rparr>"

text \<open>
  The loop of \<^verbatim>\<open>retrieveAsString\<close>.  A block that keeps readable bytes ends it: then
  \<^verbatim>\<open>copy_len\<close> was all of \<open>remaining\<close>.
\<close>

fun lb_retrieveAsString_loop ::
  "nat \<Rightarrow> nat \<Rightarrow> bytes \<Rightarrow> Block list \<Rightarrow> bytes \<times> nat \<times> Block list" where
  "lb_retrieveAsString_loop remaining tot res [] = (res, tot, [])"
| "lb_retrieveAsString_loop remaining tot res (front # ks) =
     (if remaining = 0 then (res, tot, front # ks)
      else let copy_len = min remaining (b_readable front);
               res' = res @ chunk (blk_peek front) copy_len (b_data front);
               front' = front\<lparr>b_readable := b_readable front - copy_len,
                              b_prependable := sz_add (b_prependable front) copy_len\<rparr>;
               tot' = sz_sub tot copy_len
           in if b_readable front' = 0
              then lb_retrieveAsString_loop (remaining - copy_len) tot' res' ks
              else (res', tot', front' # ks))"

definition lb_retrieveAsString :: "LinkedBuffer \<Rightarrow> nat \<Rightarrow> (bytes \<times> LinkedBuffer) result" where
  "lb_retrieveAsString b len =
     rbind (passert (len \<le> total_readable b)) (\<lambda>_.
     let (res, tot, ks) = lb_retrieveAsString_loop len (total_readable b) [] (blocks b)
     in Inr (res, b\<lparr>blocks := ks, total_readable := tot\<rparr>))"

definition lb_retrieveAllAsString :: "LinkedBuffer \<Rightarrow> (bytes \<times> LinkedBuffer) result" where
  "lb_retrieveAllAsString b = lb_retrieveAsString b (total_readable b)"

text \<open>The block that takes the next bytes: the last one, or a new one when that is full.\<close>

definition lb_grow :: "Block list \<Rightarrow> nat \<Rightarrow> Block list" where
  "lb_grow ks remaining =
     (if ks = [] \<or> b_writable (last ks) = 0
      then ks @ [mkBlock (max LINKED_BLOCK_SIZE remaining)] else ks)"

lemma lb_grow_writable: "lb_grow ks remaining \<noteq> [] \<and> 0 < b_writable (last (lb_grow ks remaining))"
  by (auto simp: lb_grow_def mkBlock_def sz_sub_def LINKED_BLOCK_SIZE_def LINKED_PREPEND_SIZE_def)

function lb_append_loop :: "LinkedBuffer \<Rightarrow> bytes \<Rightarrow> LinkedBuffer result" where
  "lb_append_loop b cur =
     (if cur = [] then Inr b
      else let ks = lb_grow (blocks b) (length cur);
               back = last ks;
               write_len = min (length cur) (b_writable back)
           in rbind (write_at (blk_beginWrite back) (take write_len cur) (b_data back)) (\<lambda>d.
              lb_append_loop
                (b\<lparr>blocks := butlast ks @
                     [back\<lparr>b_data := d, b_readable := b_readable back + write_len,
                           b_writable := b_writable back - write_len\<rparr>],
                   total_readable := sz_add (total_readable b) write_len\<rparr>)
                (drop write_len cur)))"
  by pat_completeness auto
termination
  by (relation "measure (\<lambda>(b, cur). length cur)") (use lb_grow_writable in auto)

declare lb_append_loop.simps [simp del]

definition lb_append :: "LinkedBuffer \<Rightarrow> bytes \<Rightarrow> LinkedBuffer result" where
  "lb_append b data = (if data = [] then Inr b else lb_append_loop b data)"

definition lb_prepend :: "LinkedBuffer \<Rightarrow> bytes \<Rightarrow> LinkedBuffer result" where
  "lb_prepend b data =
     (if data = [] then Inr b
      else case blocks b of
             [] \<Rightarrow> Inl Assertion_Failed
           | front # ks \<Rightarrow>
               rbind (passert (b_prependable front \<ge> length data)) (\<lambda>_.
               let p = b_prependable front - length data
               in rbind (write_at p data (b_data front)) (\<lambda>d.
                  Inr (b\<lparr>blocks := front\<lparr>b_prependable := p, b_data := d\<rparr> # ks\<rparr>))))"

fun lb_shrink_blocks :: "Block list \<Rightarrow> Block list result" where
  "lb_shrink_blocks [] = Inr []"
| "lb_shrink_blocks (k # ks) =
     (if b_readable k = 0 then lb_shrink_blocks ks
      else rbind (blk_shrink k) (\<lambda>k'. rbind (lb_shrink_blocks ks) (\<lambda>ks'. Inr (k' # ks'))))"

definition lb_shrink :: "LinkedBuffer \<Rightarrow> nat \<Rightarrow> LinkedBuffer result" where
  "lb_shrink b reserve =
     rbind (lb_shrink_blocks (blocks b)) (\<lambda>ks.
     let b1 = b\<lparr>blocks := ks\<rparr>
     in if lb_writableBytes b1 < reserve \<and> ks \<noteq> []
        then let need = reserve - lb_writableBytes b1;
                 back = last ks;
                 cap = b_capacity back + need
             in rbind (write_at (b_prependable back) (blk_bytes back)
                        (replicate cap (CHR 0x00))) (\<lambda>d.
                Inr (b1\<lparr>blocks := butlast ks @
                          [back\<lparr>b_writable := b_writable back + need, b_capacity := cap,
                                b_data := d\<rparr>]\<rparr>))
        else Inr b1)"

text \<open>The searches that start at a given pointer look into the block the pointer is in, and no further.\<close>

definition lb_findCRLF_from :: "LinkedBuffer \<Rightarrow> nat \<times> nat \<Rightarrow> (nat \<times> nat) option" where
  "lb_findCRLF_from b start =
     (let (i, off) = start
      in if i < length (blocks b)
         then let k = blocks b ! i; block_end = blk_peek k + b_readable k
              in if blk_peek k \<le> off \<and> off < block_end
                 then let crlf = off + std_search kCRLF (chunk off (block_end - off) (b_data k))
                      in if crlf = block_end then None else Some (i, crlf)
                 else None
         else None)"

definition lb_findEOL_from :: "LinkedBuffer \<Rightarrow> nat \<times> nat \<Rightarrow> (nat \<times> nat) option" where
  "lb_findEOL_from b start =
     (let (i, off) = start
      in if i < length (blocks b)
         then let k = blocks b ! i; block_end = blk_peek k + b_readable k
              in if blk_peek k \<le> off \<and> off < block_end
                 then map_option (\<lambda>m. (i, off + m))
                        (memchr (CHR 0x0A) (chunk off (block_end - off) (b_data k)))
                 else None
         else None)"

text \<open>
  \<^verbatim>\<open>readFd\<close>.  \<open>lb_scatter\<close> is the effect of \<^verbatim>\<open>readv\<close> on the memory of the blocks (those with no
  room get no \<^verbatim>\<open>iovec\<close>).  \<open>lb_account\<close> is the loop that then moves the counters: in round \<open>i\<close> the
  iterator is advanced by \<open>i\<close> more positions, and the block it reaches, or the new one, is taken
  to be the owner of the \<open>i\<close>-th \<^verbatim>\<open>iovec\<close>.
\<close>

fun lb_scatter :: "bytes \<Rightarrow> Block list \<Rightarrow> Block list" where
  "lb_scatter d [] = []"
| "lb_scatter d (k # ks) =
     (let n = min (length d) (b_writable k); w = blk_beginWrite k
      in k\<lparr>b_data := take w (b_data k) @ take n d @ drop (w + n) (b_data k)\<rparr>
           # lb_scatter (drop n d) ks)"

fun lb_account :: "nat \<Rightarrow> nat \<Rightarrow> nat \<Rightarrow> nat \<Rightarrow> Block list \<Rightarrow> Block list result" where
  "lb_account 0 i pos bytes_read ks = Inr ks"
| "lb_account (Suc rounds) i pos bytes_read ks =
     (if bytes_read = 0 then Inr ks
      else let pos' = pos + i;
               j = (if i < length ks - 1 then pos' else length ks - 1)
           in if length ks < pos' \<or> length ks \<le> j then Inl Out_Of_Bounds
              else let k = ks ! j; n = min bytes_read (b_writable k)
                   in lb_account rounds (Suc i) pos' (bytes_read - n)
                        (ks[j := k\<lparr>b_readable := b_readable k + n,
                                   b_writable := b_writable k - n\<rparr>]))"

definition lb_readFd :: "LinkedBuffer \<Rightarrow> int \<Rightarrow> read_reply \<Rightarrow> (int \<times> int \<times> LinkedBuffer) result" where
  "lb_readFd b savedErrno reply =
     (let niov = length (filter (\<lambda>k. b_writable k > 0) (blocks b)) + 1;
          ks = blocks b @ [mkBlock LINKED_BLOCK_SIZE]
      in case reply of
           Read_Error errno \<Rightarrow> Inr (-1, errno, b)
         | Read_Bytes d \<Rightarrow>
             if length d > 0
             then rbind (lb_account niov 0 0 (length d) (lb_scatter d ks)) (\<lambda>ks'.
                  let b' = b\<lparr>total_readable := sz_add (total_readable b) (length d)\<rparr>
                  in Inr (int (length d), savedErrno,
                       if b_writable (last ks') = LINKED_BLOCK_SIZE - LINKED_PREPEND_SIZE
                       then b'\<lparr>blocks := butlast ks'\<rparr> else b'\<lparr>blocks := ks'\<rparr>))
             else Inr (0, savedErrno, b))"

text \<open>\<^verbatim>\<open>writeFd\<close>: the reply of \<^verbatim>\<open>writev\<close> is an error number or how many bytes it took.\<close>

definition lb_writeFd :: "LinkedBuffer \<Rightarrow> int \<Rightarrow> int + nat \<Rightarrow> (int \<times> int \<times> LinkedBuffer) result" where
  "lb_writeFd b savedErrno reply =
     (if total_readable b = 0 then Inr (0, savedErrno, b)
      else case reply of
             Inl errno \<Rightarrow> Inr (-1, errno, b)
           | Inr n \<Rightarrow> if n > 0 then rbind (lb_retrieve b n) (\<lambda>b'. Inr (int n, savedErrno, b'))
                      else Inr (int n, savedErrno, b))"

section \<open>The representation invariant\<close>

definition blk_ok :: "Block \<Rightarrow> bool" where
  "blk_ok k \<longleftrightarrow> length (b_data k) = b_capacity k \<and> b_capacity k \<le> vec_max \<and>
                b_prependable k + b_readable k + b_writable k = b_capacity k"

definition lb_contents :: "LinkedBuffer \<Rightarrow> bytes" where
  "lb_contents b = concat (map blk_bytes (blocks b))"

definition lb_ok :: "LinkedBuffer \<Rightarrow> bool" where
  "lb_ok b \<longleftrightarrow> list_all blk_ok (blocks b) \<and> total_readable b = length (lb_contents b) \<and>
               total_readable b \<le> vec_max"

definition blks_bytes :: "Block list \<Rightarrow> bytes" where
  "blks_bytes ks = concat (map blk_bytes ks)"

lemma blks_bytes_simps [simp]:
  "blks_bytes [] = []"
  "blks_bytes (k # ks) = blk_bytes k @ blks_bytes ks"
  "blks_bytes (ks @ ls) = blks_bytes ks @ blks_bytes ls"
  by (simp_all add: blks_bytes_def)

lemma lb_contents_blks: "lb_contents b = blks_bytes (blocks b)"
  by (simp add: lb_contents_def blks_bytes_def)

lemma length_blk_bytes [simp]: "blk_ok k \<Longrightarrow> length (blk_bytes k) = b_readable k"
  by (auto simp: blk_ok_def blk_bytes_def blk_peek_def length_chunk min_def)

lemma blk_ok_small: "blk_ok k \<Longrightarrow> b_prependable k + b_readable k < size_mod"
  using vec_max_lt_size_mod by (auto simp: blk_ok_def)

text \<open>Taking bytes from the front of a block.\<close>

lemma blk_advance:
  assumes ok: "blk_ok k" and n: "n \<le> b_readable k"
  defines "k' \<equiv> k\<lparr>b_readable := b_readable k - n,
                   b_prependable := sz_add (b_prependable k) n\<rparr>"
  shows "blk_ok k' \<and> blk_bytes k' = drop n (blk_bytes k)"
proof -
  have "sz_add (b_prependable k) n = b_prependable k + n"
    using blk_ok_small [OF ok] n by (simp add: sz_add_exact)
  then show ?thesis
    using ok n by (auto simp: k'_def blk_ok_def blk_bytes_def blk_peek_def drop_chunk)
qed

lemma lb_retrieve_loop_ok:
  assumes "list_all blk_ok ks" and "n \<le> length (blks_bytes ks)"
    and "length (blks_bytes ks) \<le> tot"
    and "lb_retrieve_loop n tot ks = (tot', ks')"
  shows "list_all blk_ok ks' \<and> blks_bytes ks' = drop n (blks_bytes ks) \<and> tot' = tot - n"
  using assms
proof (induction n tot ks rule: lb_retrieve_loop.induct)
  case (1 n tot)
  then show ?case by simp
next
  case (2 n tot k ks)
  have k: "blk_ok k" and ks: "list_all blk_ok ks"
    using "2.prems"(1) by simp_all
  consider "n = 0" | "0 < n" "b_readable k \<le> n" | "0 < n" "n < b_readable k"
    by linarith
  then show ?case
  proof cases
    case 1
    with "2.prems" show ?thesis by auto
  next
    case 2
    then show ?thesis
      using "2.IH" [OF _ _ ks] "2.prems" k by (auto simp: sz_sub_exact)
  next
    case 3
    then show ?thesis
      using blk_advance [OF k, of n] "2.prems" k ks by (auto simp: sz_sub_exact)
  qed
qed

lemma lb_retrieve_ok:
  assumes "lb_ok b" and "n \<le> length (lb_contents b)"
  shows "\<exists>b'. lb_retrieve b n = Inr b' \<and> lb_ok b' \<and> lb_contents b' = drop n (lb_contents b) \<and>
           total_readable b' \<le> total_readable b"
proof -
  obtain tot' ks' where l: "lb_retrieve_loop n (total_readable b) (blocks b) = (tot', ks')"
    by fastforce
  then show ?thesis
    using lb_retrieve_loop_ok [OF _ _ _ l] assms
    by (auto simp: lb_ok_def lb_contents_blks lb_retrieve_def)
qed

lemma lb_retrieve_too_much:
  "lb_ok b \<Longrightarrow> length (lb_contents b) < n \<Longrightarrow> lb_retrieve b n = Inl Assertion_Failed"
  by (simp add: lb_retrieve_def lb_ok_def)

lemma lb_retrieveAsString_loop_ok:
  assumes "list_all blk_ok ks" and "n \<le> length (blks_bytes ks)"
    and "length (blks_bytes ks) \<le> tot"
    and "lb_retrieveAsString_loop n tot res ks = (out, tot', ks')"
  shows "list_all blk_ok ks' \<and> blks_bytes ks' = drop n (blks_bytes ks) \<and> tot' = tot - n \<and>
         out = res @ take n (blks_bytes ks)"
  using assms
proof (induction n tot res ks rule: lb_retrieveAsString_loop.induct)
  case (1 n tot res)
  then show ?case by simp
next
  case (2 n tot res k ks)
  have k: "blk_ok k" and ks: "list_all blk_ok ks"
    using "2.prems"(1) by simp_all
  consider "n = 0" | "0 < n" "b_readable k \<le> n" | "0 < n" "n < b_readable k"
    by linarith
  then show ?case
  proof cases
    case 1
    with "2.prems" show ?thesis by auto
  next
    case 2
    have "chunk (blk_peek k) (b_readable k) (b_data k) = blk_bytes k"
      by (simp add: blk_bytes_def)
    then show ?thesis
      using "2.IH" [OF _ refl refl refl refl _ ks] "2.prems" k 2
      by (auto simp: sz_sub_exact Let_def)
  next
    case 3
    have "chunk (blk_peek k) n (b_data k) = take n (blk_bytes k)"
      using 3 by (simp add: blk_bytes_def take_chunk min_absorb1)
    then show ?thesis
      using blk_advance [OF k, of n] "2.prems" k ks 3 by (auto simp: sz_sub_exact Let_def)
  qed
qed

lemma lb_retrieveAsString_ok:
  assumes "lb_ok b" and "n \<le> length (lb_contents b)"
  shows "\<exists>b'. lb_retrieveAsString b n = Inr (take n (lb_contents b), b') \<and> lb_ok b' \<and>
           lb_contents b' = drop n (lb_contents b) \<and> total_readable b' \<le> total_readable b"
proof -
  obtain out tot' ks'
    where l: "lb_retrieveAsString_loop n (total_readable b) [] (blocks b) = (out, tot', ks')"
    by (metis prod_cases3)
  then show ?thesis
    using lb_retrieveAsString_loop_ok [OF _ _ _ l] assms
    by (auto simp: lb_ok_def lb_contents_blks lb_retrieveAsString_def)
qed

lemma lb_retrieveAsString_too_much:
  "lb_ok b \<Longrightarrow> length (lb_contents b) < n \<Longrightarrow> lb_retrieveAsString b n = Inl Assertion_Failed"
  by (simp add: lb_retrieveAsString_def lb_ok_def)

subsection \<open>Appending\<close>

lemma mkBlock_ok:
  "LINKED_PREPEND_SIZE \<le> cap \<Longrightarrow> cap \<le> vec_max \<Longrightarrow> blk_ok (mkBlock cap) \<and> blk_bytes (mkBlock cap) = []"
  by (auto simp: blk_ok_def mkBlock_def sz_sub_exact blk_bytes_def)

lemma lb_grow_ok:
  assumes "list_all blk_ok ks" and "n \<le> vec_max"
  shows "list_all blk_ok (lb_grow ks n) \<and> blks_bytes (lb_grow ks n) = blks_bytes ks"
proof -
  have "LINKED_PREPEND_SIZE \<le> max LINKED_BLOCK_SIZE n" "max LINKED_BLOCK_SIZE n \<le> vec_max"
    using assms(2) by (auto simp: LINKED_PREPEND_SIZE_def LINKED_BLOCK_SIZE_def vec_max_def)
  from mkBlock_ok [OF this] show ?thesis
    using assms by (auto simp: lb_grow_def)
qed

lemma blk_fill:
  assumes ok: "blk_ok k" and n: "length d \<le> b_writable k"
  shows "\<exists>v. write_at (blk_beginWrite k) d (b_data k) = Inr v \<and>
           blk_ok (k\<lparr>b_data := v, b_readable := b_readable k + length d,
                     b_writable := b_writable k - length d\<rparr>) \<and>
           blk_bytes (k\<lparr>b_data := v, b_readable := b_readable k + length d,
                     b_writable := b_writable k - length d\<rparr>) = blk_bytes k @ d"
proof -
  let ?w = "b_prependable k + b_readable k"
  have fits: "?w + length d \<le> length (b_data k)"
    using ok n by (auto simp: blk_ok_def)
  let ?v = "take ?w (b_data k) @ d @ drop (?w + length d) (b_data k)"
  have "chunk (b_prependable k) (?w - b_prependable k + length d) ?v =
        chunk (b_prependable k) (?w - b_prependable k) (b_data k) @ d"
    by (rule chunk_append_write) (use fits in auto)
  then show ?thesis
    using ok n fits by (auto simp: write_at_def blk_ok_def blk_bytes_def blk_peek_def blk_beginWrite_def)
qed

lemma list_all_butlast_last:
  "xs \<noteq> [] \<Longrightarrow> list_all P xs \<longleftrightarrow> list_all P (butlast xs) \<and> P (last xs)"
  by (induction xs) auto

lemma blks_bytes_butlast_last:
  "ks \<noteq> [] \<Longrightarrow> blks_bytes ks = blks_bytes (butlast ks) @ blk_bytes (last ks)"
  by (metis append.right_neutral append_butlast_last_id blks_bytes_simps)

lemma lb_append_loop_ok:
  assumes "lb_ok b" and "total_readable b + length d \<le> vec_max"
  shows "\<exists>b'. lb_append_loop b d = Inr b' \<and> lb_ok b' \<and> lb_contents b' = lb_contents b @ d"
  using assms
proof (induction b d rule: lb_append_loop.induct)
  case (1 b d)
  show ?case
  proof (cases "d = []")
    case True
    with "1.prems" show ?thesis by (simp add: lb_append_loop.simps)
  next
    case False
    define ks where "ks = lb_grow (blocks b) (length d)"
    define n where "n = min (length d) (b_writable (last ks))"
    have ks: "list_all blk_ok ks" "blks_bytes ks = blks_bytes (blocks b)" "ks \<noteq> []"
      using lb_grow_ok [of "blocks b" "length d"] lb_grow_writable "1.prems"
      by (auto simp: ks_def lb_ok_def)
    have parts: "list_all blk_ok (butlast ks)" "blk_ok (last ks)"
      using ks by (simp_all add: list_all_butlast_last)
    have tn: "length (take n d) = n" "n \<le> b_writable (last ks)"
      by (simp_all add: n_def)
    obtain v where v: "write_at (blk_beginWrite (last ks)) (take n d) (b_data (last ks)) = Inr v"
      "blk_ok ((last ks)\<lparr>b_data := v, b_readable := b_readable (last ks) + n,
                b_writable := b_writable (last ks) - n\<rparr>)"
      "blk_bytes ((last ks)\<lparr>b_data := v, b_readable := b_readable (last ks) + n,
                b_writable := b_writable (last ks) - n\<rparr>) = blk_bytes (last ks) @ take n d"
      using blk_fill [OF parts(2), of "take n d"] tn by auto
    let ?b = "b\<lparr>blocks := butlast ks @
                  [(last ks)\<lparr>b_data := v, b_readable := b_readable (last ks) + n,
                     b_writable := b_writable (last ks) - n\<rparr>],
               total_readable := sz_add (total_readable b) n\<rparr>"
    have bytes: "lb_contents ?b = lb_contents b @ take n d"
      using v(3) ks blks_bytes_butlast_last [OF ks(3)] by (simp add: lb_contents_blks)
    have tot: "total_readable ?b = total_readable b + n"
      using "1.prems" tn(1) vec_max_lt_size_mod by (simp add: sz_add_exact)
    have ok: "lb_ok ?b"
      using v(2) parts(1) bytes tot "1.prems" tn(1) by (simp add: lb_ok_def)
    have room: "total_readable ?b + length (drop n d) \<le> vec_max"
      using tot "1.prems"(2) tn(1) by (simp add: n_def)
    obtain b' where "lb_append_loop ?b (drop n d) = Inr b'" "lb_ok b'"
      "lb_contents b' = lb_contents b @ d"
      using "1.IH" [OF False ks_def refl n_def v(1) ok room] bytes by auto
    then show ?thesis
      using False v(1) by (simp add: lb_append_loop.simps [of b d] Let_def ks_def n_def)
  qed
qed

lemma lb_append_ok:
  assumes "lb_ok b" and "total_readable b + length d \<le> vec_max"
  shows "\<exists>b'. lb_append b d = Inr b' \<and> lb_ok b' \<and> lb_contents b' = lb_contents b @ d \<and>
           total_readable b' \<le> total_readable b + length d"
proof (cases "d = []")
  case True
  with assms show ?thesis by (simp add: lb_append_def)
next
  case False
  then show ?thesis
    using lb_append_loop_ok [OF assms] assms(1) by (auto simp: lb_append_def lb_ok_def)
qed

section \<open>The linked buffer is a byte queue\<close>

interpretation linked_buf: fifo_buffer lb_contents lb_ok total_readable vec_max lb_append
  lb_retrieve lb_retrieveAsString
proof (unfold_locales, goal_cases)
  case (1 b d) then show ?case by (rule lb_append_ok)
next
  case (2 b n) then show ?case by (rule lb_retrieve_ok)
next
  case (3 b n) then show ?case by (rule lb_retrieve_too_much)
next
  case (4 b n) then show ?case by (rule lb_retrieveAsString_ok)
next
  case (5 b n) then show ?case by (rule lb_retrieveAsString_too_much)
qed

text \<open>
  C29 (equivalence). Started with the same bytes, the contiguous and the linked buffer return the
  same bytes for every sequence of \<^verbatim>\<open>append\<close> and \<^verbatim>\<open>retrieveAsString\<close> calls within the bytes
  available, and end with the same bytes.
\<close>

theorem linked_buffer_equivalent:
  assumes "buf_ok b" and "lb_ok l" and "lb_contents l = contents b"
    and "buf_used b + length (total_put ops) \<le> vec_max"
    and "total_readable l + length (total_put ops) \<le> vec_max"
    and "queue_run ops (contents b) = Some (out, rest)"
  shows "\<exists>b' l'. run_ops append_buf retrieveAsString ops b = Inr (out, b') \<and>
           run_ops lb_append lb_retrieveAsString ops l = Inr (out, l') \<and>
           buf_ok b' \<and> lb_ok l' \<and> contents b' = rest \<and> lb_contents l' = rest"
  using net_buf.run_refines_queue [OF assms(1,4,6)]
    linked_buf.run_refines_queue [OF assms(2,5), of out rest] assms(3,6) by auto

lemma mkLinkedBuffer_simps [simp]:
  "lb_ok mkLinkedBuffer" "lb_contents mkLinkedBuffer = []" "total_readable mkLinkedBuffer = 0"
  by (simp_all add: lb_ok_def mkLinkedBuffer_def lb_contents_def)

theorem linked_buffer_equivalent_witness:
  "\<exists>b' l'. run_ops append_buf retrieveAsString [Put ''hello'', Get 2] emptyBuffer = Inr (''he'', b') \<and>
     run_ops lb_append lb_retrieveAsString [Put ''hello'', Get 2] mkLinkedBuffer = Inr (''he'', l') \<and>
     buf_ok b' \<and> lb_ok l' \<and> contents b' = ''llo'' \<and> lb_contents l' = ''llo''"
  by (rule linked_buffer_equivalent) (simp_all add: vec_max_def)

lemma blk_fill_full:
  assumes ok: "blk_ok k" and n: "b_writable k \<le> length d" and pos: "0 < b_writable k"
  defines "v \<equiv> take (blk_beginWrite k) (b_data k) @ take (b_writable k) d @
               drop (blk_beginWrite k + b_writable k) (b_data k)"
  shows "blk_bytes (k\<lparr>b_data := v, b_readable := b_readable k + b_writable k, b_writable := 0\<rparr>) =
           blk_bytes k @ take (b_writable k) d"
proof -
  have "length (take (b_writable k) d) \<le> b_writable k" "length (take (b_writable k) d) = b_writable k"
    using n by simp_all
  then show ?thesis
    using blk_fill [OF ok, of "take (b_writable k) d"] by (auto simp: write_at_def v_def split: if_splits)
qed

text \<open>
  (safety, a defect). When the first of two blocks is full and a read delivers more than the
  second has room for, \<^verbatim>\<open>readFd\<close> reports and counts every byte but keeps only those of the second
  block: the rest, which \<^verbatim>\<open>readv\<close> put into the new block, is freed with it.  The cached count and
  the blocks disagree from then on.
\<close>

theorem linked_readFd_loses_bytes:
  assumes "lb_ok b" and "blocks b = [k1, k2]" and "b_writable k1 = 0"
    and "0 < b_writable k2" and "b_writable k2 < length d"
    and "total_readable b + length d \<le> vec_max"
  shows "\<exists>b'. lb_readFd b e (Read_Bytes d) = Inr (int (length d), e, b') \<and>
           total_readable b' = length (lb_contents b @ d) \<and>
           lb_contents b' = lb_contents b @ take (b_writable k2) d"
proof -
  let ?w = "blk_beginWrite k2"
  let ?v = "take ?w (b_data k2) @ take (b_writable k2) d @ drop (?w + b_writable k2) (b_data k2)"
  let ?k2 = "k2\<lparr>b_data := ?v, b_readable := b_readable k2 + b_writable k2, b_writable := 0\<rparr>"
  have "\<exists>new. b_writable new = 4088 \<and>
          lb_scatter d [k1, k2, mkBlock LINKED_BLOCK_SIZE] = [k1, k2\<lparr>b_data := ?v\<rparr>, new]"
    using assms(3,5) by (simp add: Let_def mkBlock_def LINKED_BLOCK_SIZE_def
        LINKED_PREPEND_SIZE_def sz_sub_def min_absorb2)
  then obtain new where new: "b_writable new = 4088"
    and sc: "lb_scatter d [k1, k2, mkBlock LINKED_BLOCK_SIZE] = [k1, k2\<lparr>b_data := ?v\<rparr>, new]"
    by blast
  have acc: "lb_account (Suc (Suc 0)) 0 0 (length d) [k1, k2\<lparr>b_data := ?v\<rparr>, new] = Inr [k1, ?k2, new]"
    using assms(3,4,5) by (cases "d = []") (simp_all add: Let_def min_absorb2)
  have "blk_ok k2"
    using assms(1,2) by (simp add: lb_ok_def)
  then have bytes: "blk_bytes ?k2 = blk_bytes k2 @ take (b_writable k2) d"
    using blk_fill_full [of k2 d] assms(4,5) by simp
  have "sz_add (total_readable b) (length d) = total_readable b + length d"
    using assms(6) vec_max_lt_size_mod by (simp add: sz_add_exact)
  then show ?thesis
    using assms sc acc new bytes
    by (auto simp: lb_readFd_def Let_def lb_contents_def lb_ok_def
        LINKED_BLOCK_SIZE_def LINKED_PREPEND_SIZE_def
        simp del: lb_scatter.simps lb_account.simps)
qed

theorem linked_readFd_loses_bytes_witness:
  "\<exists>b'. lb_readFd
     \<lparr>blocks = [\<lparr>b_data = ''........a'', b_prependable = 8, b_readable = 1, b_writable = 0, b_capacity = 9\<rparr>,
                \<lparr>b_data = ''........b.'', b_prependable = 8, b_readable = 1, b_writable = 1, b_capacity = 10\<rparr>],
      total_readable = 2\<rparr> 0 (Read_Bytes ''cd'') = Inr (2, 0, b') \<and>
     total_readable b' = length ''abcd'' \<and> lb_contents b' = ''abc''"
  using linked_readFd_loses_bytes [of
     "\<lparr>blocks = [\<lparr>b_data = ''........a'', b_prependable = 8, b_readable = 1, b_writable = 0, b_capacity = 9\<rparr>,
                \<lparr>b_data = ''........b.'', b_prependable = 8, b_readable = 1, b_writable = 1, b_capacity = 10\<rparr>],
      total_readable = 2\<rparr>"
     "\<lparr>b_data = ''........a'', b_prependable = 8, b_readable = 1, b_writable = 0, b_capacity = 9\<rparr>"
     "\<lparr>b_data = ''........b.'', b_prependable = 8, b_readable = 1, b_writable = 1, b_capacity = 10\<rparr>"
     "''cd''" 0]
  by (simp add: lb_ok_def blk_ok_def lb_contents_def blk_bytes_def blk_peek_def chunk_def vec_max_def)

section \<open>Reading up to a pointer\<close>

text \<open>In front of a pointer into the first block, \<^verbatim>\<open>retrieveUntil\<close> removes the bytes up to it.\<close>

lemma lb_retrieveUntil_first:
  assumes "lb_ok b" and "blocks b = k # ks" and "blk_peek k \<le> off" and "off \<le> blk_peek k + b_readable k"
  shows "\<exists>b'. lb_retrieveUntil addr (0, off) b = Inr b' \<and> lb_ok b' \<and> lb_contents b' = drop (off - blk_peek k) (lb_contents b)"
proof -
  have "blk_ok k" using assms(1,2) by (simp add: lb_ok_def)
  then have "off - blk_peek k \<le> length (lb_contents b)" using assms(2,4) by (simp add: lb_contents_def)
  from lb_retrieve_ok [OF assms(1) this] show ?thesis
    using assms(2-4) by (auto simp: lb_retrieveUntil_def Let_def)
qed

text \<open>
  For a pointer into the second block the outcome depends on where the allocator put the blocks.  If the second one is above the
  first, freed memory is read.  If it is below, the call removes as many bytes as there are in front of the pointer in its own
  block, but from the first block on, and leaves the others.
\<close>

lemma lb_retrieveUntil_second:
  assumes "lb_ok b" and "blocks b = k1 # k2 # ks" and "blk_peek k2 \<le> off" and "off \<le> blk_peek k2 + b_readable k2"
  shows "addr 0 + blk_peek k1 + b_readable k1 < addr 1 + off \<Longrightarrow> lb_retrieveUntil addr (1, off) b = Inl Out_Of_Bounds"
    and "addr 1 + off < addr 0 + blk_peek k1 \<Longrightarrow>
      \<exists>b'. lb_retrieveUntil addr (1, off) b = Inr b' \<and> lb_contents b' = drop (off - blk_peek k2) (lb_contents b)"
proof -
  show "lb_retrieveUntil addr (1, off) b = Inl Out_Of_Bounds" if "addr 0 + blk_peek k1 + b_readable k1 < addr 1 + off"
    using that assms(2) by (simp add: lb_retrieveUntil_def Let_def)
  have "blk_ok k2" using assms(1,2) by (simp add: lb_ok_def)
  then have "off - blk_peek k2 \<le> length (lb_contents b)" using assms(2,4) by (simp add: lb_contents_def)
  from lb_retrieve_ok [OF assms(1) this]
  show "\<exists>b'. lb_retrieveUntil addr (1, off) b = Inr b' \<and> lb_contents b' = drop (off - blk_peek k2) (lb_contents b)"
    if "addr 1 + off < addr 0 + blk_peek k1"
    using that assms(2-4) by (auto simp: lb_retrieveUntil_def Let_def)
qed

end
