(* ===== verification/Std_Map.thy ===== *)
theory Std_Map
  imports Prelude
begin

text \<open>
  \<^verbatim>\<open>std::map<std::string, T>\<close>: a list of entries in ascending key order, which is the order the
  sources iterate in (\<^verbatim>\<open>std::string\<close> compares bytes, as \<open>List_Lexorder\<close> over \<open>Char_ord\<close> does).
  The locale \<open>key_store\<close> is what the request, the response and the file name mapping rely on.
\<close>

type_synonym 'v smap = "(bytes \<times> 'v) list"

fun map_put :: "bytes \<Rightarrow> 'v \<Rightarrow> 'v smap \<Rightarrow> 'v smap" where
  "map_put k v [] = [(k, v)]"
| "map_put k v ((a, b) # es) =
     (if k < a then (k, v) # (a, b) # es
      else if k = a then (k, v) # es
      else (a, b) # map_put k v es)"

fun map_erase :: "bytes \<Rightarrow> 'v smap \<Rightarrow> 'v smap" where
  "map_erase k [] = []"
| "map_erase k ((a, b) # es) = (if k = a then es else (a, b) # map_erase k es)"

definition map_ok :: "'v smap \<Rightarrow> bool" where
  "map_ok es \<longleftrightarrow> sorted_wrt (<) (map fst es)"

lemma map_ok_simps [simp]:
  "map_ok []"
  "map_ok ((a, b) # es) \<longleftrightarrow> (\<forall>e \<in> set es. a < fst e) \<and> map_ok es"
  by (auto simp: map_ok_def)

lemma map_of_map_put: "map_of (map_put k v es) = (map_of es)(k \<mapsto> v)"
  by (induction k v es rule: map_put.induct) auto

lemma keys_map_put: "fst ` set (map_put k v es) = insert k (fst ` set es)"
  by (induction k v es rule: map_put.induct) auto

lemma map_ok_put: "map_ok es \<Longrightarrow> map_ok (map_put k v es)"
proof (induction k v es rule: map_put.induct)
  case (2 k v a b es)
  have keys: "e \<in> set (map_put k v es) \<Longrightarrow> fst e = k \<or> fst e \<in> fst ` set es" for e
    using keys_map_put [of k v es] by (metis image_eqI insertE)
  from 2 show ?case
    by (auto dest!: keys dest: order.strict_trans)
qed simp

lemma map_erase_other: "\<forall>e \<in> set es. a < fst e \<Longrightarrow> map_of (es :: 'v smap) a = None"
  by (induction es) auto

lemma set_map_erase: "set (map_erase k es) \<subseteq> set es"
  by (induction k es rule: map_erase.induct) auto

lemma map_of_map_erase: "map_ok es \<Longrightarrow> map_of (map_erase k es) = (map_of es)(k := None)"
proof (induction k es rule: map_erase.induct)
  case (2 k a b es)
  then show ?case by (auto simp: fun_eq_iff dest: map_erase_other)
qed simp

lemma map_ok_erase: "map_ok es \<Longrightarrow> map_ok (map_erase k es)"
proof (induction k es rule: map_erase.induct)
  case (2 k a b es)
  then show ?case using set_map_erase [of k es] by auto
qed simp

locale key_store =
  fixes get :: "'s \<Rightarrow> 'k \<Rightarrow> 'v option"
    and put :: "'k \<Rightarrow> 'v \<Rightarrow> 's \<Rightarrow> 's"
    and erase :: "'k \<Rightarrow> 's \<Rightarrow> 's"
    and invar :: "'s \<Rightarrow> bool"
  assumes get_put: "invar s \<Longrightarrow> get (put k v s) = (get s)(k \<mapsto> v)"
    and get_erase: "invar s \<Longrightarrow> get (erase k s) = (get s)(k := None)"
    and invar_put: "invar s \<Longrightarrow> invar (put k v s)"
    and invar_erase: "invar s \<Longrightarrow> invar (erase k s)"
begin

lemma fold_put_invar: "invar s \<Longrightarrow> invar (fold (\<lambda>(k, v). put k v) kvs s)"
  by (induction kvs arbitrary: s) (auto simp: invar_put)

lemma fold_put: "invar s \<Longrightarrow> get (fold (\<lambda>(k, v). put k v) kvs s) = (get s) ++ map_of (rev kvs)"
proof (induction kvs arbitrary: s)
  case (Cons kv kvs)
  then show ?case
    by (cases kv) (auto simp: invar_put get_put map_add_def fun_eq_iff split: option.splits)
qed simp

lemma last_put_wins:
  "invar s \<Longrightarrow> k \<notin> fst ` set kvs \<Longrightarrow>
     get (fold (\<lambda>(k, v). put k v) kvs (put k v s)) k = Some v"
  by (simp add: fold_put invar_put get_put map_add_Some_iff map_of_eq_None_iff)

lemma erased_is_gone: "invar s \<Longrightarrow> get (erase k s) k = None"
  by (simp add: get_erase)

end

interpretation std_map: key_store map_of map_put map_erase map_ok
  by unfold_locales (simp_all add: map_of_map_put map_of_map_erase map_ok_put map_ok_erase)

end
