(* ===== verification/Http_Request.thy ===== *)
theory Http_Request
  imports Std_Map
begin

text \<open>
  \<^verbatim>\<open>HttpRequest\<close> (\<^verbatim>\<open>inc/network/http/HttpRequest.hpp\<close>): the request record with its setters, the
  query string lookup and the percent decoding.  A pair of pointers into the input is the byte
  string between them.  Lemmas: the reset of a request through \<^verbatim>\<open>swap\<close>, headers, query lookup and
  the round trip of percent encoding.
\<close>

section \<open>Definitions\<close>

datatype Method = kInvalid | kGet | kPost | kHead | kPut | kDelete

datatype Version = kUnknown | kHttp10 | kHttp11

record HttpRequest =
  rq_method :: Method
  rq_version :: Version
  rq_path :: bytes
  rq_query :: bytes
  rq_body :: bytes
  rq_receiveTime :: TimeStamp
  rq_headers :: "bytes smap"
  rq_pathParams :: "bytes \<rightharpoonup> bytes"

definition mkHttpRequest :: HttpRequest where
  "mkHttpRequest = \<lparr>rq_method = kInvalid, rq_version = kUnknown, rq_path = [], rq_query = [],
                    rq_body = [], rq_receiveTime = 0, rq_headers = [], rq_pathParams = Map.empty\<rparr>"

definition parse_method :: "bytes \<Rightarrow> Method" where
  "parse_method m =
     (if m = ''GET'' then kGet
      else if m = ''POST'' then kPost
      else if m = ''HEAD'' then kHead
      else if m = ''PUT'' then kPut
      else if m = ''DELETE'' then kDelete
      else kInvalid)"

definition setMethod :: "HttpRequest \<Rightarrow> bytes \<Rightarrow> (bool \<times> HttpRequest) result" where
  "setMethod r m =
     rbind (passert (rq_method r = kInvalid)) (\<lambda>_.
     Inr (parse_method m \<noteq> kInvalid, r\<lparr>rq_method := parse_method m\<rparr>))"

definition methodString :: "HttpRequest \<Rightarrow> bytes" where
  "methodString r = (case rq_method r of
       kGet \<Rightarrow> ''GET'' | kPost \<Rightarrow> ''POST'' | kHead \<Rightarrow> ''HEAD'' | kPut \<Rightarrow> ''PUT''
     | kDelete \<Rightarrow> ''DELETE'' | kInvalid \<Rightarrow> ''UNKNOWN'')"

definition appendToBody :: "HttpRequest \<Rightarrow> bytes \<Rightarrow> HttpRequest" where
  "appendToBody r data = r\<lparr>rq_body := rq_body r @ data\<rparr>"

text \<open>\<open>addHeader line colon\<close>: the header line without its CRLF, and the offset of its first colon.\<close>

definition trim_right :: "bytes \<Rightarrow> bytes" where
  "trim_right v = rev (dropWhile isspace (rev v))"

definition addHeader :: "HttpRequest \<Rightarrow> bytes \<Rightarrow> nat \<Rightarrow> HttpRequest" where
  "addHeader r line colon =
     (let field = take colon line;
          val = trim_right (dropWhile isspace (drop (Suc colon) line))
      in r\<lparr>rq_headers := map_put field val (rq_headers r)\<rparr>)"

definition getHeader :: "HttpRequest \<Rightarrow> bytes \<Rightarrow> bytes" where
  "getHeader r field = (case map_of (rq_headers r) field of Some v \<Rightarrow> v | None \<Rightarrow> [])"

text \<open>\<^verbatim>\<open>swap\<close> exchanges \<^verbatim>\<open>path_\<close> with the other request's \<^verbatim>\<open>query_\<close>, and leaves \<^verbatim>\<open>pathParams_\<close>.\<close>

definition swap_request :: "HttpRequest \<Rightarrow> HttpRequest \<Rightarrow> HttpRequest \<times> HttpRequest" where
  "swap_request this that =
     (let (this, that) = (this\<lparr>rq_method := rq_method that\<rparr>, that\<lparr>rq_method := rq_method this\<rparr>);
          (this, that) = (this\<lparr>rq_version := rq_version that\<rparr>, that\<lparr>rq_version := rq_version this\<rparr>);
          (this, that) = (this\<lparr>rq_path := rq_query that\<rparr>, that\<lparr>rq_query := rq_path this\<rparr>);
          (this, that) = (this\<lparr>rq_query := rq_query that\<rparr>, that\<lparr>rq_query := rq_query this\<rparr>);
          (this, that) = (this\<lparr>rq_body := rq_body that\<rparr>, that\<lparr>rq_body := rq_body this\<rparr>);
          (this, that) = (this\<lparr>rq_receiveTime := rq_receiveTime that\<rparr>,
                          that\<lparr>rq_receiveTime := rq_receiveTime this\<rparr>);
          (this, that) = (this\<lparr>rq_headers := rq_headers that\<rparr>, that\<lparr>rq_headers := rq_headers this\<rparr>)
      in (this, that))"

text \<open>
  \<^verbatim>\<open>sscanf(s, "%x", &value)\<close> on the two bytes after a percent sign: blanks are skipped, a sign and
  a \<^verbatim>\<open>0x\<close> are accepted, and with no digit nothing is stored.  The result is the low byte.
\<close>

definition hex_val :: "char \<Rightarrow> nat option" where
  "hex_val c =
     (if isdigit c then Some (digit_val c)
      else if 97 \<le> code (tolower c) \<and> code (tolower c) \<le> 102 then Some (code (tolower c) - 87)
      else None)"

fun hex_run :: "nat \<Rightarrow> bytes \<Rightarrow> nat" where
  "hex_run acc [] = acc"
| "hex_run acc (c # cs) = (case hex_val c of Some d \<Rightarrow> hex_run (acc * 16 + d) cs | None \<Rightarrow> acc)"

definition sscanf_x :: "bytes \<Rightarrow> char option" where
  "sscanf_x s =
     (let s1 = dropWhile isspace (c_str s);
          neg = starts_with ''-'' s1;
          s2 = (if neg \<or> starts_with ''+'' s1 then tl s1 else s1);
          s3 = (if starts_with ''0x'' (map tolower s2) then CHR ''0'' # drop 2 s2 else s2)
      in case s3 of
           [] \<Rightarrow> None
         | c # _ \<Rightarrow> if hex_val c = None then None
                    else let v = hex_run 0 s3 mod 256
                         in Some (char_of (if neg then (256 - v) mod 256 else v)))"

text \<open>
  \<^verbatim>\<open>urlDecode\<close>.  When \<^verbatim>\<open>sscanf\<close> stores nothing, the byte appended is whatever the uninitialised
  \<^verbatim>\<open>value\<close> holds: the argument \<open>junk\<close>, by position.
\<close>

fun urlDecode_at :: "(nat \<Rightarrow> char) \<Rightarrow> nat \<Rightarrow> bytes \<Rightarrow> bytes" where
  "urlDecode_at junk i [] = []"
| "urlDecode_at junk i (c # cs) =
     (if c \<noteq> CHR ''%''
      then (if c = CHR ''+'' then CHR '' '' else c) # urlDecode_at junk (Suc i) cs
      else if 2 \<le> length cs
      then (case sscanf_x (take 2 cs) of Some ch \<Rightarrow> ch | None \<Rightarrow> junk i)
             # urlDecode_at junk (i + 3) (drop 2 cs)
      else urlDecode_at junk (Suc i) cs)"

definition urlDecode :: "(nat \<Rightarrow> char) \<Rightarrow> bytes \<Rightarrow> bytes" where
  "urlDecode junk encoded = urlDecode_at junk 0 encoded"

text \<open>The loop of \<^verbatim>\<open>getQuery\<close> that cuts the query string at every ampersand.\<close>

function split_params :: "bytes \<Rightarrow> bytes list" where
  "split_params q =
     (case str_find ''&'' q of
        Some e \<Rightarrow> take e q # split_params (drop (Suc e) q)
      | None \<Rightarrow> [q])"
  by pat_completeness auto
termination
  by (relation "measure length") (auto dest!: str_find_Some)

declare split_params.simps [simp del]

fun lookup_param :: "(nat \<Rightarrow> char) \<Rightarrow> bytes \<Rightarrow> bytes \<Rightarrow> bytes list \<Rightarrow> bytes" where
  "lookup_param junk key defaultValue [] = defaultValue"
| "lookup_param junk key defaultValue (param # ps) =
     (case str_find ''='' param of
        Some pos \<Rightarrow> if take pos param = key then urlDecode junk (drop (Suc pos) param)
                    else lookup_param junk key defaultValue ps
      | None \<Rightarrow> if param = key then ''true'' else lookup_param junk key defaultValue ps)"

definition getQuery :: "(nat \<Rightarrow> char) \<Rightarrow> HttpRequest \<Rightarrow> bytes \<Rightarrow> bytes \<Rightarrow> bytes" where
  "getQuery junk r key defaultValue =
     (case rq_query r of
        [] \<Rightarrow> defaultValue
      | c # q \<Rightarrow> if c \<noteq> CHR ''?'' then defaultValue
                 else lookup_param junk key defaultValue (split_params q))"

definition getPathParam :: "HttpRequest \<Rightarrow> bytes \<Rightarrow> bytes" where
  "getPathParam r name = (case rq_pathParams r name of Some v \<Rightarrow> v | None \<Rightarrow> [])"

definition setPathParams :: "HttpRequest \<Rightarrow> (bytes \<rightharpoonup> bytes) \<Rightarrow> HttpRequest" where
  "setPathParams r params = r\<lparr>rq_pathParams := params\<rparr>"

section \<open>Methods, headers, reset\<close>

lemma parse_method_iff:
  "parse_method m \<noteq> kInvalid \<longleftrightarrow> m \<in> {''GET'', ''POST'', ''HEAD'', ''PUT'', ''DELETE''}"
  by (auto simp: parse_method_def)

lemma parse_methodString: "rq_method r \<noteq> kInvalid \<Longrightarrow> parse_method (methodString r) = rq_method r"
  by (cases "rq_method r") (simp_all add: methodString_def parse_method_def)

lemma setMethod_fresh:
  "rq_method r = kInvalid \<Longrightarrow>
     setMethod r m = Inr (parse_method m \<noteq> kInvalid, r\<lparr>rq_method := parse_method m\<rparr>)"
  by (simp add: setMethod_def)

lemma setMethod_twice: "rq_method r \<noteq> kInvalid \<Longrightarrow> setMethod r m = Inl Assertion_Failed"
  by (simp add: setMethod_def)

lemma getHeader_addHeader:
  "getHeader (addHeader r line colon) field =
     (if field = take colon line
      then trim_right (dropWhile isspace (drop (Suc colon) line)) else getHeader r field)"
  by (simp add: getHeader_def addHeader_def Let_def map_of_map_put)

lemma swap_request_fresh:
  "fst (swap_request r mkHttpRequest) =
     mkHttpRequest\<lparr>rq_query := rq_path r, rq_pathParams := rq_pathParams r\<rparr>"
  by (cases r) (simp add: swap_request_def mkHttpRequest_def)

section \<open>Percent encoding\<close>

text \<open>
  The encoding a client applies (RFC 3986, \<^verbatim>\<open>encodeURIComponent\<close> in \<^verbatim>\<open>app/index.html\<close>): letters,
  digits and four marks stand for themselves, every other byte is a percent sign and two digits.
\<close>

definition unreserved :: "char \<Rightarrow> bool" where
  "unreserved c \<longleftrightarrow> isdigit c \<or> (97 \<le> code (tolower c) \<and> code (tolower c) \<le> 122) \<or>
     c \<in> {CHR ''-'', CHR ''_'', CHR ''.'', CHR ''~''}"

definition hex_digit :: "nat \<Rightarrow> char" where
  "hex_digit n = (if n < 10 then char_of (48 + n) else char_of (55 + n))"

definition encode_char :: "char \<Rightarrow> bytes" where
  "encode_char c = (if unreserved c then [c]
     else [CHR ''%'', hex_digit (code c div 16), hex_digit (code c mod 16)])"

definition url_encode :: "bytes \<Rightarrow> bytes" where
  "url_encode s = concat (map encode_char s)"

lemma code_hex_digit: "n < 16 \<Longrightarrow> code (hex_digit n) = (if n < 10 then 48 + n else 55 + n)"
  by (simp add: hex_digit_def)

lemma code_neqI: "code c \<noteq> code d \<Longrightarrow> c \<noteq> d"
  by auto

lemma code_tolower_hex:
  "n < 16 \<Longrightarrow> code (tolower (hex_digit n)) = (if n < 10 then 48 + n else 87 + n)"
  by (simp add: tolower_def code_hex_digit)

lemma code_punct:
  "code NUL = 0" "code (CHR 0x20) = 32" "code (CHR 0x09) = 9" "code (CHR 0x0A) = 10"
  "code (CHR 0x0B) = 11" "code (CHR 0x0C) = 12" "code (CHR 0x0D) = 13" "code (CHR ''-'') = 45"
  "code (CHR ''+'') = 43" "code (CHR ''x'') = 120" "code (CHR ''&'') = 38" "code (CHR ''='') = 61"
  "code (CHR ''%'') = 37"
  by (simp_all add: code_def NUL_def)

lemma hex_digit_props:
  assumes "n < 16"
  shows "hex_val (hex_digit n) = Some n" "\<not> isspace (hex_digit n)" "hex_digit n \<noteq> NUL"
    "hex_digit n \<noteq> CHR ''-''" "hex_digit n \<noteq> CHR ''+''" "tolower (hex_digit n) \<noteq> CHR ''x''"
    "hex_digit n \<noteq> CHR ''&''" "hex_digit n \<noteq> CHR ''=''"
  subgoal using assms
    by (simp add: hex_val_def isdigit_def digit_val_def code_hex_digit code_tolower_hex)
  subgoal unfolding isspace_def using assms code_hex_digit [OF assms] code_punct
    by (auto split: if_splits)
  by (rule code_neqI; use assms in \<open>simp add: code_hex_digit code_tolower_hex code_punct\<close>)+

lemma sscanf_x_hex:
  assumes "h < 16" and "l < 16"
  shows "sscanf_x [hex_digit h, hex_digit l] = Some (char_of (16 * h + l))"
proof -
  have "\<not> starts_with ''0x'' [tolower (hex_digit h), tolower (hex_digit l)]"
    using hex_digit_props(6) [OF assms(2)] by auto
  then show ?thesis
    using hex_digit_props [OF assms(1)] hex_digit_props [OF assms(2)] assms
    by (simp add: sscanf_x_def c_str_def Let_def mult.commute)
qed

lemma unreserved_plain:
  assumes "unreserved c"
  shows "c \<noteq> CHR ''%'' \<and> c \<noteq> CHR ''+'' \<and> c \<noteq> CHR ''&'' \<and> c \<noteq> CHR ''=''"
proof -
  have "\<not> unreserved (CHR ''%'')" "\<not> unreserved (CHR ''+'')" "\<not> unreserved (CHR ''&'')"
    "\<not> unreserved (CHR ''='')"
    by (simp_all add: unreserved_def isdigit_def tolower_def code_punct)
  with assms show ?thesis by metis
qed

lemma urlDecode_encode_char:
  "\<exists>j. urlDecode_at junk i (encode_char c @ cs) = c # urlDecode_at junk j cs"
proof (cases "unreserved c")
  case True
  then show ?thesis
    using unreserved_plain [OF True] by (auto simp: encode_char_def)
next
  case False
  have h: "code c div 16 < 16" "code c mod 16 < 16"
    using code_lt [of c] by auto
  have "urlDecode_at junk i (encode_char c @ cs) = char_of (16 * (code c div 16) + code c mod 16)
          # urlDecode_at junk (i + 3) cs"
    using False sscanf_x_hex [OF h] by (simp add: encode_char_def numeral_2_eq_2)
  also have "16 * (code c div 16) + code c mod 16 = code c" by simp
  finally show ?thesis by auto
qed

lemma urlDecode_at_encode: "urlDecode_at junk i (url_encode s) = s"
proof (induction s arbitrary: i)
  case (Cons c s)
  then show ?case
    using urlDecode_encode_char [of junk i c "url_encode s"] by (auto simp: url_encode_def)
qed (simp add: url_encode_def)

lemma url_encode_plain: "c \<in> set (url_encode s) \<Longrightarrow> c \<noteq> CHR ''&'' \<and> c \<noteq> CHR ''=''"
proof (induction s)
  case (Cons a s)
  have "code a div 16 < 16" "code a mod 16 < 16"
    using code_lt [of a] by auto
  then have "c \<in> set (encode_char a) \<Longrightarrow> c \<noteq> CHR ''&'' \<and> c \<noteq> CHR ''=''"
    using unreserved_plain [of a] hex_digit_props(7,8)
    by (auto simp: encode_char_def split: if_splits)
  with Cons show ?case by (auto simp: url_encode_def)
qed (simp add: url_encode_def)

section \<open>Query lookup\<close>

text \<open>A query string as a client builds it from keys and values.\<close>

definition render_param :: "bytes \<times> bytes \<Rightarrow> bytes" where
  "render_param kv = fst kv @ CHR ''='' # url_encode (snd kv)"

fun render_params :: "(bytes \<times> bytes) list \<Rightarrow> bytes" where
  "render_params [] = []"
| "render_params [kv] = render_param kv"
| "render_params (kv # kvs) = render_param kv @ CHR ''&'' # render_params kvs"

definition plain_key :: "bytes \<Rightarrow> bool" where
  "plain_key k \<longleftrightarrow> CHR ''&'' \<notin> set k \<and> CHR ''='' \<notin> set k"

lemma render_param_no_amp: "plain_key (fst kv) \<Longrightarrow> CHR ''&'' \<notin> set (render_param kv)"
  using url_encode_plain [of "CHR ''&''"] by (auto simp: render_param_def plain_key_def)

lemma split_render:
  assumes "kvs \<noteq> []" and "\<forall>kv \<in> set kvs. plain_key (fst kv)"
  shows "split_params (render_params kvs) = map render_param kvs"
  using assms
proof (induction kvs rule: render_params.induct)
  case (2 kv)
  then show ?case
    using render_param_no_amp [of kv] by (subst split_params.simps) (simp add: str_find_char)
next
  case (3 kv kv' kvs)
  then have "str_find ''&'' (render_params (kv # kv' # kvs)) = Some (length (render_param kv))"
    using render_param_no_amp [of kv] by (simp add: str_find_char_split)
  with 3 show ?case by (subst split_params.simps) simp
qed simp

lemma lookup_rendered:
  assumes "\<forall>kv \<in> set kvs. plain_key (fst kv)"
  shows "lookup_param junk key d (map render_param kvs) =
           (case map_of kvs key of Some v \<Rightarrow> v | None \<Rightarrow> d)"
  using assms
proof (induction kvs)
  case (Cons kv kvs)
  have "str_find ''='' (render_param kv) = Some (length (fst kv))"
    using Cons.prems by (simp add: render_param_def plain_key_def str_find_char_split)
  with Cons show ?case
    by (cases kv) (auto simp: render_param_def urlDecode_def urlDecode_at_encode)
qed simp

text \<open>
  C30 (roundtrip). Looking a key up in a query string that was built from keys and percent-encoded
  values returns the value of the first entry with that key, byte for byte, and the default when
  there is none; no uninitialised byte ever enters the result.
\<close>

theorem getQuery_roundtrip:
  assumes "kvs \<noteq> []" and "\<forall>kv \<in> set kvs. plain_key (fst kv)"
    and "rq_query r = CHR ''?'' # render_params kvs"
  shows "getQuery junk r key d = (case map_of kvs key of Some v \<Rightarrow> v | None \<Rightarrow> d)"
  using assms by (simp add: getQuery_def split_render lookup_rendered)

theorem getQuery_roundtrip_witness:
  "getQuery (\<lambda>_. CHR ''!'') (mkHttpRequest\<lparr>rq_query := CHR ''?'' # render_params [(''code'', ''a b%''), (''type'', ''my'')]\<rparr>)
     ''code'' [] = ''a b%''"
  using getQuery_roundtrip [of "[(''code'', ''a b%''), (''type'', ''my'')]"
      "mkHttpRequest\<lparr>rq_query := CHR ''?'' # render_params [(''code'', ''a b%''), (''type'', ''my'')]\<rparr>"
      "\<lambda>_. CHR ''!''" "''code''" "[]"]
  by (simp add: plain_key_def)

end
