(* ===== verification/Http_Context.thy ===== *)
theory Http_Context
  imports Net_Buffer Http_Request
begin

text \<open>
  \<^verbatim>\<open>HttpContext\<close> (\<^verbatim>\<open>inc/network/http/HttpContext.hpp\<close>, \<^verbatim>\<open>src/network/http/HttpContext.cpp\<close>): the
  incremental request parser of a connection.  It works on the connection's \<^verbatim>\<open>Buffer\<close>, whose model is
  \<open>Net_Buffer\<close>; positions are indices into the vector.  The two loops are partial functions: the
  outcome \<open>None\<close> is a call that never returns.  The type parameter \<open>'c\<close> is what the application
  stores through \<^verbatim>\<open>setContext\<close>.
\<close>

section \<open>Definitions\<close>

datatype HttpRequestParseState = kExpectRequestLine | kExpectHeaders | kExpectBody | kGotAll

datatype ParseResult = kError | kNeedMore | kHeadersComplete | kGotRequest

record 'c HttpContext =
  hc_state :: HttpRequestParseState
  hc_request :: HttpRequest
  contentLength :: nat
  bodyReceived :: nat
  isChunked :: bool
  customContext :: "'c option"

definition mkHttpContext :: "'c HttpContext" where
  "mkHttpContext = \<lparr>hc_state = kExpectRequestLine, hc_request = mkHttpRequest, contentLength = 0,
                    bodyReceived = 0, isChunked = False, customContext = None\<rparr>"

definition gotAll :: "'c HttpContext \<Rightarrow> bool" where
  "gotAll c \<longleftrightarrow> hc_state c = kGotAll"

definition expectBody :: "'c HttpContext \<Rightarrow> bool" where
  "expectBody c \<longleftrightarrow> hc_state c = kExpectBody"

definition headersComplete :: "'c HttpContext \<Rightarrow> bool" where
  "headersComplete c \<longleftrightarrow> hc_state c = kExpectBody \<or> hc_state c = kGotAll"

definition remainingLength :: "'c HttpContext \<Rightarrow> nat" where
  "remainingLength c = sz_sub (contentLength c) (bodyReceived c)"

definition reset_context :: "'c HttpContext \<Rightarrow> 'c HttpContext" where
  "reset_context c =
     c\<lparr>hc_state := kExpectRequestLine,
       hc_request := fst (swap_request (hc_request c) mkHttpRequest),
       contentLength := 0, bodyReceived := 0, isChunked := False, customContext := None\<rparr>"

definition getContext :: "'c HttpContext \<Rightarrow> 'c option" where
  "getContext c = customContext c"

definition setContext :: "'c HttpContext \<Rightarrow> 'c option \<Rightarrow> 'c HttpContext" where
  "setContext c ctx = c\<lparr>customContext := ctx\<rparr>"

text \<open>The request line, without its line end.\<close>

definition processRequestLine :: "HttpRequest \<Rightarrow> bytes \<Rightarrow> (bool \<times> HttpRequest) result" where
  "processRequestLine r line =
     (let space = std_find CHR '' '' line
      in if space = length line then Inr (False, r)
         else rbind (setMethod r (take space line)) (\<lambda>(known, r1).
              if \<not> known then Inr (False, r1)
              else let rest = drop (Suc space) line;
                       space2 = std_find CHR '' '' rest
                   in if space2 = length rest then Inr (False, r1)
                      else let target = take space2 rest;
                               question = std_find CHR ''?'' target;
                               r2 = (if question \<noteq> length target
                                     then r1\<lparr>rq_path := take question target,
                                             rq_query := drop question target\<rparr>
                                     else r1\<lparr>rq_path := target\<rparr>);
                               ver = drop (Suc space2) rest
                           in if length ver = 8 \<and> take 7 ver = ''HTTP/1.''
                              then if last ver = CHR ''1''
                                   then Inr (True, r2\<lparr>rq_version := kHttp11\<rparr>)
                                   else if last ver = CHR ''0''
                                   then Inr (True, r2\<lparr>rq_version := kHttp10\<rparr>)
                                   else Inr (False, r2)
                              else Inr (False, r2)))"

text \<open>One header line of \<^verbatim>\<open>processHeaders\<close>: \<open>line\<close> is its text and \<open>mem\<close> the memory from its start on.\<close>

definition header_line :: "'c HttpContext \<Rightarrow> bytes \<Rightarrow> nat \<Rightarrow> bytes \<Rightarrow> 'c HttpContext result" where
  "header_line c line colon mem =
     (let c1 = c\<lparr>hc_request := addHeader (hc_request c) line colon\<rparr>;
          field = take colon line;
          blanks = length (takeWhile isspace (drop (Suc colon) line));
          value_at = Suc colon + blanks
      in if strcasecmp_eq field ''Content-Length''
         then rbind (atoi (drop value_at mem)) (\<lambda>v. Inr (c1\<lparr>contentLength := size_of_int v\<rparr>))
         else if strcasecmp_eq field ''Transfer-Encoding''
         then Inr (if strcasecmp_eq (drop value_at line) ''chunked''
                   then c1\<lparr>isChunked := True\<rparr> else c1)
         else Inr c1)"

partial_function (option) processHeaders ::
  "'c HttpContext \<Rightarrow> Buffer \<Rightarrow> ('c HttpContext \<times> Buffer) result option" where
  "processHeaders c b =
     (case findCRLF b of
        None \<Rightarrow> Some (Inr (c, b))
      | Some crlf \<Rightarrow>
          let line = chunk (peek b) (crlf - peek b) (buffer b);
              colon = std_find CHR '':'' line
          in if colon \<noteq> length line
             then case header_line c line colon (drop (peek b) (buffer b)) of
                    Inl e \<Rightarrow> Some (Inl e)
                  | Inr c' \<Rightarrow>
                      (case retrieveUntil b (crlf + 2) of
                         Inl e \<Rightarrow> Some (Inl e)
                       | Inr b' \<Rightarrow> processHeaders c' b')
             else Some (rbind (retrieveUntil b (crlf + 2)) (\<lambda>b'.
                        Inr (c\<lparr>hc_state := kExpectBody\<rparr>, b'))))"

definition processBody :: "'c HttpContext \<Rightarrow> Buffer \<Rightarrow> (bool \<times> 'c HttpContext \<times> Buffer) result" where
  "processBody c b =
     (if isChunked c then Inr (False, c, b)
      else let toRead = min (readableBytes b) (remainingLength c)
           in rbind (if 0 < toRead
                     then rbind (retrieve b toRead) (\<lambda>b'.
                          Inr (c\<lparr>hc_request := appendToBody (hc_request c)
                                                 (chunk (peek b) toRead (buffer b)),
                                 bodyReceived := sz_add (bodyReceived c) toRead\<rparr>, b'))
                     else Inr (c, b)) (\<lambda>(c', b').
              Inr (bodyReceived c' \<ge> contentLength c', c', b')))"

partial_function (option) parse_loop ::
  "TimeStamp \<Rightarrow> ParseResult \<Rightarrow> 'c HttpContext \<Rightarrow> Buffer \<Rightarrow>
   (ParseResult \<times> 'c HttpContext \<times> Buffer) result option" where
  "parse_loop receiveTime result c b =
     (case hc_state c of
        kExpectRequestLine \<Rightarrow>
          (case findCRLF b of
             None \<Rightarrow> Some (Inr (result, c, b))
           | Some crlf \<Rightarrow>
               (case processRequestLine (hc_request c) (chunk (peek b) (crlf - peek b) (buffer b)) of
                  Inl e \<Rightarrow> Some (Inl e)
                | Inr (ok, r) \<Rightarrow>
                    if ok
                    then case retrieveUntil b (crlf + 2) of
                           Inl e \<Rightarrow> Some (Inl e)
                         | Inr b' \<Rightarrow>
                             parse_loop receiveTime result
                               (c\<lparr>hc_request := r\<lparr>rq_receiveTime := receiveTime\<rparr>,
                                  hc_state := kExpectHeaders\<rparr>) b'
                    else Some (Inr (kError, c\<lparr>hc_request := r\<rparr>, b))))
      | kExpectHeaders \<Rightarrow>
          Option.bind (processHeaders c b) (\<lambda>hr.
            case hr of
              Inl e \<Rightarrow> Some (Inl e)
            | Inr (c', b') \<Rightarrow>
                if hc_state c' = kExpectBody
                then if contentLength c' = 0 \<and> \<not> isChunked c'
                     then Some (Inr (kGotRequest, c'\<lparr>hc_state := kGotAll\<rparr>, b'))
                     else if 0 < readableBytes b'
                     then parse_loop receiveTime kHeadersComplete c' b'
                     else Some (Inr (kHeadersComplete, c', b'))
                else parse_loop receiveTime result c' b')
      | kExpectBody \<Rightarrow>
          Some (rbind (processBody c b) (\<lambda>(complete, c', b').
            Inr (if complete then (kGotRequest, c'\<lparr>hc_state := kGotAll\<rparr>, b')
                 else if bodyReceived c' < contentLength c' then (kHeadersComplete, c', b')
                 else (result, c', b'))))
      | kGotAll \<Rightarrow> parse_loop receiveTime result c b)"

definition parseRequest ::
  "'c HttpContext \<Rightarrow> Buffer \<Rightarrow> TimeStamp \<Rightarrow> (ParseResult \<times> 'c HttpContext \<times> Buffer) result option" where
  "parseRequest c b receiveTime = parse_loop receiveTime kNeedMore c b"


section \<open>Lines of the buffer\<close>

definition CR :: char where
  "CR = CHR 0x0D"

lemma std_search_line: "CR \<notin> set l \<Longrightarrow> std_search kCRLF (l @ kCRLF @ rest) = length l"
  by (induction l) (auto simp: kCRLF_def CR_def)

lemma std_search_no_line: "CR \<notin> set l \<Longrightarrow> std_search kCRLF l = length l"
  by (induction l) (auto simp: kCRLF_def CR_def)

lemma line_taken:
  assumes ok: "buf_ok b" and c: "contents b = l @ kCRLF @ rest" and "CR \<notin> set l"
  shows "findCRLF b = Some (peek b + length l)" "chunk (peek b) (length l) (buffer b) = l"
    "\<exists>b'. retrieveUntil b (peek b + length l + 2) = Inr b' \<and> buf_ok b' \<and> contents b' = rest \<and>
       buf_used b' \<le> buf_used b"
proof -
  have len: "writeIndex b - readIndex b = length l + 2 + length rest"
    using length_contents [OF ok] by (simp add: c kCRLF_def del: length_contents)
  have s: "std_search kCRLF (contents b) = length l"
    using std_search_line [OF assms(3)] c by simp
  show "findCRLF b = Some (peek b + length l)"
  proof (cases "findCRLF b")
    case None
    then show ?thesis
      using findCRLF_None_iff [OF ok] s len ok by simp
  next
    case (Some p)
    then show ?thesis
      using findCRLF_Some [OF ok Some] s by (simp add: peek_def)
  qed
  show "chunk (peek b) (length l) (buffer b) = l"
    using contents_prefix [OF ok, of "length l"] c len ok by simp
  have "drop (peek b + length l + 2 - readIndex b) (contents b) = rest"
    by (simp add: c peek_def kCRLF_def)
  then show "\<exists>b'. retrieveUntil b (peek b + length l + 2) = Inr b' \<and> buf_ok b' \<and>
      contents b' = rest \<and> buf_used b' \<le> buf_used b"
    using retrieveUntil_ok [OF ok, of "peek b + length l + 2"] len by (simp add: peek_def)
qed

lemma no_line: "buf_ok b \<Longrightarrow> CR \<notin> set (contents b) \<Longrightarrow> findCRLF b = None"
  by (simp add: findCRLF_None_iff std_search_no_line)

lemma memory_from_peek: "buf_ok b \<Longrightarrow> \<exists>junk. drop (peek b) (buffer b) = contents b @ junk"
  by (metis append_take_drop_id bytes_from_def contents_def peek_def chunk_def)

section \<open>Request lines\<close>

definition version_string :: "Version \<Rightarrow> bytes" where
  "version_string v = ''HTTP/1.'' @ (if v = kHttp11 then ''1'' else ''0'')"

text \<open>The request after a well-formed request line with that method, target and version.\<close>

definition with_line :: "HttpRequest \<Rightarrow> bytes \<Rightarrow> bytes \<Rightarrow> Version \<Rightarrow> HttpRequest" where
  "with_line r m target v =
     (let question = std_find CHR ''?'' target;
          r1 = r\<lparr>rq_method := parse_method m, rq_path := take question target\<rparr>
      in (if question = length target then r1 else r1\<lparr>rq_query := drop question target\<rparr>)
           \<lparr>rq_version := v\<rparr>)"

lemma method_no_space: "parse_method m \<noteq> kInvalid \<Longrightarrow> CHR '' '' \<notin> set m"
  by (auto simp: parse_method_iff)

lemma take_7_version:
  assumes "length ver = 8" and "take 7 ver = ''HTTP/1.''"
  shows "ver = ''HTTP/1.'' @ [last ver]"
proof -
  have "ver = butlast ver @ [last ver]" using assms(1) by (metis append_butlast_last_id list.size(3) zero_neq_numeral)
  moreover have "butlast ver = take 7 ver" using assms(1) by (simp add: butlast_conv_take)
  ultimately show ?thesis using assms(2) by simp
qed

lemma processRequestLine_good:
  assumes "rq_method r = kInvalid" and "parse_method m \<noteq> kInvalid" and "CHR '' '' \<notin> set target"
    and "v \<noteq> kUnknown"
  shows "processRequestLine r (m @ CHR '' '' # target @ CHR '' '' # version_string v) =
           Inr (True, with_line r m target v)"
  using assms method_no_space [OF assms(2)]
  by (cases v) (simp_all add: processRequestLine_def std_find_split setMethod_fresh with_line_def
      version_string_def Let_def)

lemma processRequestLine_method:
  assumes "rq_method r = kInvalid" and "parse_method m \<noteq> kInvalid"
  shows "\<exists>ok r'. processRequestLine r (m @ CHR '' '' # rest) = Inr (ok, r') \<and>
           rq_method r' = parse_method m"
  using assms method_no_space [OF assms(2)]
  by (auto simp: processRequestLine_def std_find_split setMethod_fresh Let_def split: if_split)

lemma std_find_decompose:
  assumes "std_find c xs \<noteq> length xs"
  shows "xs = take (std_find c xs) xs @ c # drop (Suc (std_find c xs)) xs \<and>
         c \<notin> set (take (std_find c xs) xs)"
proof -
  have lt: "std_find c xs < length xs"
    using assms std_find_le [of c xs] by simp
  have "take (std_find c xs) xs = takeWhile (\<lambda>x. x \<noteq> c) xs"
    by (simp add: std_find_def takeWhile_eq_take [symmetric])
  then show ?thesis
    using id_take_nth_drop [OF lt] std_find_nth [OF lt] set_takeWhileD by fastforce
qed

lemma processRequestLine_accepts:
  assumes fresh: "rq_method r = kInvalid" and acc: "processRequestLine r line = Inr (True, r')"
  shows "\<exists>m target v. line = m @ CHR '' '' # target @ CHR '' '' # version_string v \<and>
           parse_method m \<noteq> kInvalid \<and> CHR '' '' \<notin> set target \<and> v \<noteq> kUnknown"
proof -
  define k where "k = std_find CHR '' '' line"
  define m where "m = take k line"
  define rest where "rest = drop (Suc k) line"
  define j where "j = std_find CHR '' '' rest"
  define target where "target = take j rest"
  define ver where "ver = drop (Suc j) rest"
  note folds = k_def [symmetric] m_def [symmetric] rest_def [symmetric] j_def [symmetric]
    target_def [symmetric] ver_def [symmetric]
  have k: "k \<noteq> length line" and m: "parse_method m \<noteq> kInvalid" and j: "j \<noteq> length rest"
    and ver: "length ver = 8" "take 7 ver = ''HTTP/1.''" "last ver \<in> {CHR ''1'', CHR ''0''}"
    using acc fresh unfolding processRequestLine_def Let_def folds
    by (auto simp: setMethod_fresh split: if_splits)
  have "line = m @ CHR '' '' # rest"
    using std_find_decompose [of "CHR '' ''" line] k by (simp add: folds)
  moreover have "rest = target @ CHR '' '' # ver" "CHR '' '' \<notin> set target"
    using std_find_decompose [of "CHR '' ''" rest] j by (simp_all add: folds)
  moreover have "ver = version_string (if last ver = CHR ''1'' then kHttp11 else kHttp10)"
    using take_7_version [OF ver(1,2)] ver(3) by (auto simp: version_string_def)
  ultimately show ?thesis
    using m by (intro exI [of _ m] exI [of _ target]
        exI [of _ "if last ver = CHR ''1'' then kHttp11 else kHttp10"]) auto
qed

text \<open>
  On a fresh request the request line is accepted exactly when it is a known
  method, a target without blanks and \<^verbatim>\<open>HTTP/1.0\<close> or \<^verbatim>\<open>HTTP/1.1\<close>, separated by single spaces; then
  the request has that method and version, and the target cut at its first question mark into path
  and query.
\<close>

theorem processRequestLine_exact:
  assumes "rq_method r = kInvalid"
  shows "processRequestLine r line = Inr (True, r') \<longleftrightarrow>
           (\<exists>m target v. line = m @ CHR '' '' # target @ CHR '' '' # version_string v \<and>
              parse_method m \<noteq> kInvalid \<and> CHR '' '' \<notin> set target \<and> v \<noteq> kUnknown \<and>
              r' = with_line r m target v)"
proof
  assume acc: "processRequestLine r line = Inr (True, r')"
  then obtain m target v where *: "line = m @ CHR '' '' # target @ CHR '' '' # version_string v"
    "parse_method m \<noteq> kInvalid" "CHR '' '' \<notin> set target" "v \<noteq> kUnknown"
    using processRequestLine_accepts [OF assms] by blast
  with acc processRequestLine_good [OF assms *(2-4)]
  show "\<exists>m target v. line = m @ CHR '' '' # target @ CHR '' '' # version_string v \<and>
      parse_method m \<noteq> kInvalid \<and> CHR '' '' \<notin> set target \<and> v \<noteq> kUnknown \<and>
      r' = with_line r m target v"
    by auto
qed (use processRequestLine_good [OF assms] in blast)

theorem processRequestLine_exact_witness:
  "processRequestLine mkHttpRequest ''GET /share/1?code=7 HTTP/1.1'' =
     Inr (True, mkHttpRequest\<lparr>rq_method := kGet, rq_path := ''/share/1'', rq_query := ''?code=7'',
                              rq_version := kHttp11\<rparr>)"
  by (subst processRequestLine_exact; (simp add: mkHttpRequest_def)?)
    (rule exI [of _ "''GET''"], rule exI [of _ "''/share/1?code=7''"], rule exI [of _ kHttp11],
      simp add: version_string_def parse_method_def with_line_def Let_def std_find_def mkHttpRequest_def)


section \<open>Header lines\<close>

text \<open>
  A header a client may send: no colon in its name and no carriage return in it, a value without
  blanks at its ends; the value of a content length is a decimal number below \<^verbatim>\<open>2^31\<close>.
\<close>

definition render_header :: "bytes \<times> bytes \<Rightarrow> bytes" where
  "render_header h = fst h @ '': '' @ snd h"

definition is_length :: "bytes \<times> bytes \<Rightarrow> bool" where
  "is_length h \<longleftrightarrow> strcasecmp_eq (fst h) ''Content-Length''"

definition is_encoding :: "bytes \<times> bytes \<Rightarrow> bool" where
  "is_encoding h \<longleftrightarrow> strcasecmp_eq (fst h) ''Transfer-Encoding''"

definition wf_header :: "bytes \<times> bytes \<Rightarrow> bool" where
  "wf_header h \<longleftrightarrow> CHR '':'' \<notin> set (fst h) \<and> CR \<notin> set (fst h) \<and> CR \<notin> set (snd h) \<and>
     (snd h = [] \<or> \<not> isspace (hd (snd h)) \<and> \<not> isspace (last (snd h))) \<and>
     (is_length h \<longrightarrow> snd h \<noteq> [] \<and> list_all isdigit (snd h) \<and> dec_val (snd h) < 2 ^ 31)"

definition apply_header :: "bytes \<times> bytes \<Rightarrow> 'c HttpContext \<Rightarrow> 'c HttpContext" where
  "apply_header h c =
     (let c1 = c\<lparr>hc_request := (hc_request c)
                    \<lparr>rq_headers := map_put (fst h) (snd h) (rq_headers (hc_request c))\<rparr>\<rparr>
      in if is_length h then c1\<lparr>contentLength := dec_val (snd h)\<rparr>
         else if is_encoding h \<and> strcasecmp_eq (snd h) ''chunked'' then c1\<lparr>isChunked := True\<rparr>
         else c1)"

definition render_headers :: "(bytes \<times> bytes) list \<Rightarrow> bytes" where
  "render_headers hs = concat (map (\<lambda>h. render_header h @ kCRLF) hs)"

lemma isspace_CR: "isspace CR"
  by (simp add: isspace_def CR_def)

lemma atoi_digits:
  assumes "ds \<noteq> []" and "list_all isdigit ds" and "dec_val ds < 2 ^ 31"
  shows "atoi (ds @ CR # mem) = Inr (int (dec_val ds))"
  using atoi_number [of "[]" ds CR mem] assms isspace_not_digit [OF isspace_CR] by simp

lemma isspace_blank [simp]: "isspace CHR '' ''"
  by (simp add: isspace_def)

lemma blanks_before_value:
  assumes "v = [] \<or> \<not> isspace (hd v)"
  shows "takeWhile isspace v = []" "dropWhile isspace v = v"
  using assms by (cases v; simp)+

lemma trim_right_id: "v = [] \<or> \<not> isspace (last v) \<Longrightarrow> trim_right v = v"
  by (cases v rule: rev_cases) (auto simp: trim_right_def)

lemma header_line_good:
  assumes wf: "wf_header h"
  shows "header_line c (render_header h) (length (fst h)) (render_header h @ CR # mem) =
           Inr (apply_header h c)"
proof -
  obtain f v where h: "h = (f, v)" by (cases h)
  have v: "v = [] \<or> \<not> isspace (hd v)" "v = [] \<or> \<not> isspace (last v)"
    using wf by (auto simp: wf_header_def h)
  have add: "addHeader r (render_header h) (length f) = r\<lparr>rq_headers := map_put f v (rq_headers r)\<rparr>"
    for r by (simp add: addHeader_def render_header_def h blanks_before_value(2) [OF v(1)]
        trim_right_id [OF v(2)])
  have "atoi (v @ CR # mem) = Inr (int (dec_val v))" "size_of_int (int (dec_val v)) = dec_val v"
    if "is_length h"
    using that wf atoi_digits [of v mem] size_of_int_small [of "dec_val v"]
    by (auto simp: wf_header_def h)
  then show ?thesis
    using blanks_before_value(1) [OF v(1)] add
    by (simp add: header_line_def apply_header_def is_length_def is_encoding_def h
        render_header_def Let_def)
qed

lemma render_header_line:
  "wf_header h \<Longrightarrow> CR \<notin> set (render_header h) \<and>
     std_find CHR '':'' (render_header h) = length (fst h) \<and> length (fst h) < length (render_header h)"
  by (auto simp: wf_header_def render_header_def std_find_split CR_def)

lemma processHeaders_step:
  assumes ok: "buf_ok b" and wf: "wf_header h" and c: "contents b = render_header h @ kCRLF @ rest"
  shows "\<exists>b'. processHeaders c b = processHeaders (apply_header h c) b' \<and> buf_ok b' \<and>
           contents b' = rest \<and> buf_used b' \<le> buf_used b"
proof -
  note h = render_header_line [OF wf]
  note l = line_taken [OF ok c h [THEN conjunct1]]
  obtain b' where b': "retrieveUntil b (peek b + length (render_header h) + 2) = Inr b'" "buf_ok b'"
    "contents b' = rest" "buf_used b' \<le> buf_used b"
    using l(3) by auto
  obtain junk where "drop (peek b) (buffer b) = contents b @ junk"
    using memory_from_peek [OF ok] by blast
  then have mem: "drop (peek b) (buffer b) = render_header h @ CR # CHR 0x0A # rest @ junk"
    by (simp add: c kCRLF_def CR_def)
  have "processHeaders c b = processHeaders (apply_header h c) b'"
    using l(1,2) h b'(1) header_line_good [OF wf, of c "CHR 0x0A # rest @ junk"]
    by (subst processHeaders.simps) (simp add: mem Let_def)
  with b' show ?thesis by blast
qed

lemma processHeaders_lines:
  assumes "buf_ok b" and "list_all wf_header hs" and "contents b = render_headers hs @ rest"
  shows "\<exists>b'. processHeaders c b = processHeaders (fold apply_header hs c) b' \<and> buf_ok b' \<and>
           contents b' = rest \<and> buf_used b' \<le> buf_used b"
  using assms
proof (induction hs arbitrary: b c)
  case Nil
  then show ?case by (auto simp: render_headers_def)
next
  case (Cons h hs)
  then obtain b1 where b1: "processHeaders c b = processHeaders (apply_header h c) b1" "buf_ok b1"
    "contents b1 = render_headers hs @ rest" "buf_used b1 \<le> buf_used b"
    using processHeaders_step [of b h "render_headers hs @ rest" c]
    by (auto simp: render_headers_def)
  show ?case
    using Cons.IH [OF b1(2) _ b1(3), of "apply_header h c"] Cons.prems(2) b1 by (auto dest: order_trans)
qed

lemma processHeaders_complete:
  assumes "buf_ok b" and "list_all wf_header hs" and "contents b = render_headers hs @ kCRLF @ rest"
  shows "\<exists>b'. processHeaders c b =
             Some (Inr ((fold apply_header hs c)\<lparr>hc_state := kExpectBody\<rparr>, b')) \<and>
           buf_ok b' \<and> contents b' = rest \<and> buf_used b' \<le> buf_used b"
proof -
  obtain b1 where b1: "processHeaders c b = processHeaders (fold apply_header hs c) b1" "buf_ok b1"
    "contents b1 = [] @ kCRLF @ rest" "buf_used b1 \<le> buf_used b"
    using processHeaders_lines [OF assms, of c] by auto
  have "CR \<notin> set []" by simp
  note l = line_taken [OF b1(2,3) this]
  obtain b2 where b2: "retrieveUntil b1 (peek b1 + length ([] :: bytes) + 2) = Inr b2" "buf_ok b2"
    "contents b2 = rest" "buf_used b2 \<le> buf_used b1"
    using l(3) by blast
  have "processHeaders (fold apply_header hs c) b1 =
      Some (Inr ((fold apply_header hs c)\<lparr>hc_state := kExpectBody\<rparr>, b2))"
    using l(1,2) b2(1) by (subst processHeaders.simps) (simp add: std_find_def)
  with b1 b2 show ?thesis by (auto dest: order_trans)
qed

lemma processHeaders_partial:
  assumes "buf_ok b" and "list_all wf_header hs" and "contents b = render_headers hs @ part"
    and "CR \<notin> set part"
  shows "\<exists>b'. processHeaders c b = Some (Inr (fold apply_header hs c, b')) \<and> buf_ok b' \<and>
           contents b' = part"
proof -
  obtain b1 where b1: "processHeaders c b = processHeaders (fold apply_header hs c) b1" "buf_ok b1"
    "contents b1 = part"
    using processHeaders_lines [OF assms(1-3), of c] by auto
  then have "processHeaders (fold apply_header hs c) b1 = Some (Inr (fold apply_header hs c, b1))"
    using no_line [OF b1(2)] assms(4) by (subst processHeaders.simps) simp
  with b1 show ?thesis by auto
qed


section \<open>Whole requests\<close>

text \<open>
  \<open>body_fed d c\<close> is the context after the bytes \<open>d\<close> of the connection were offered as body: it
  takes what is still missing and no more.
\<close>

definition body_fed :: "bytes \<Rightarrow> 'c HttpContext \<Rightarrow> 'c HttpContext" where
  "body_fed d c =
     (let k = contentLength c - bodyReceived c
      in c\<lparr>hc_request := appendToBody (hc_request c) (take k d),
           bodyReceived := bodyReceived c + min k (length d),
           hc_state := if k \<le> length d then kGotAll else kExpectBody\<rparr>)"

definition body_pending :: "'c HttpContext \<Rightarrow> bool" where
  "body_pending c \<longleftrightarrow> hc_state c = kExpectBody \<and> \<not> isChunked c \<and>
     bodyReceived c \<le> contentLength c \<and> contentLength c < size_mod"

lemma appendToBody_Nil [simp]: "appendToBody r [] = r"
  by (simp add: appendToBody_def)

lemma processBody_ok:
  assumes ok: "buf_ok b" and p: "body_pending c"
  defines "k \<equiv> contentLength c - bodyReceived c"
  shows "\<exists>b'. processBody c b =
             Inr (k \<le> length (contents b),
                  c\<lparr>hc_request := appendToBody (hc_request c) (take k (contents b)),
                    bodyReceived := bodyReceived c + min k (length (contents b))\<rparr>, b') \<and>
           buf_ok b' \<and> contents b' = drop k (contents b) \<and> buf_used b' \<le> buf_used b"
proof -
  define n where "n = min k (length (contents b))"
  have r: "remainingLength c = k"
    using p by (simp add: remainingLength_def k_def sz_sub_exact body_pending_def)
  have tk: "take n (contents b) = take k (contents b)" "drop n (contents b) = drop k (contents b)"
    by (auto simp: n_def min_def simp del: length_contents)
  have sum: "sz_add (bodyReceived c) n = bodyReceived c + n"
    using p by (intro sz_add_exact) (auto simp: n_def k_def body_pending_def)
  have compl: "contentLength c \<le> bodyReceived c + n \<longleftrightarrow> k \<le> length (contents b)"
    using p by (auto simp: n_def k_def body_pending_def)
  have toRead: "min (readableBytes b) (remainingLength c) = n"
    using ok by (simp add: r n_def readable_contents min.commute del: length_contents)
  show ?thesis
  proof (cases "0 < n")
    case True
    have "n \<le> length (contents b)" by (simp add: n_def del: length_contents)
    with retrieve_ok [OF ok this] contents_prefix [OF ok this] obtain b' where
      "retrieve b n = Inr b'" "buf_ok b'" "contents b' = drop n (contents b)"
      "chunk (peek b) n (buffer b) = take n (contents b)" "buf_used b' \<le> buf_used b" by auto
    then show ?thesis
      using True p toRead compl sum
      by (simp add: processBody_def body_pending_def tk n_def [symmetric] del: length_contents)
  next
    case False
    then have n0: "n = 0" by simp
    then have "appendToBody (hc_request c) (take k (contents b)) = hc_request c"
      "drop k (contents b) = contents b"
      using tk by (metis appendToBody_Nil take0, simp)
    moreover have "min k (length (contents b)) = 0"
      using n0 by (simp add: n_def del: length_contents)
    ultimately show ?thesis
      using n0 p toRead compl ok by (simp add: processBody_def body_pending_def del: length_contents)
  qed
qed

lemma parse_body_step:
  assumes ok: "buf_ok b" and p: "body_pending c"
  shows "\<exists>b'. parse_loop t res c b =
             Some (Inr (if contentLength c - bodyReceived c \<le> length (contents b)
                        then kGotRequest else kHeadersComplete, body_fed (contents b) c, b')) \<and>
           buf_ok b' \<and> contents b' = drop (contentLength c - bodyReceived c) (contents b) \<and>
           buf_used b' \<le> buf_used b"
proof -
  obtain b' where "processBody c b =
      Inr (contentLength c - bodyReceived c \<le> length (contents b),
           c\<lparr>hc_request := appendToBody (hc_request c) (take (contentLength c - bodyReceived c) (contents b)),
             bodyReceived := bodyReceived c +
               min (contentLength c - bodyReceived c) (length (contents b))\<rparr>, b')"
    "buf_ok b'" "contents b' = drop (contentLength c - bodyReceived c) (contents b)"
    "buf_used b' \<le> buf_used b"
    using processBody_ok [OF ok p] by blast
  then show ?thesis
    using p by (subst parse_loop.simps)
      (auto simp: body_fed_def body_pending_def Let_def simp del: length_contents)
qed

text \<open>The context once the request line and the headers have been read.\<close>

definition after_headers ::
  "'c HttpContext \<Rightarrow> TimeStamp \<Rightarrow> bytes \<Rightarrow> bytes \<Rightarrow> Version \<Rightarrow> (bytes \<times> bytes) list \<Rightarrow> 'c HttpContext" where
  "after_headers c t m target v hs =
     (fold apply_header hs
        (c\<lparr>hc_request := (with_line (hc_request c) m target v)\<lparr>rq_receiveTime := t\<rparr>,
           hc_state := kExpectHeaders\<rparr>))\<lparr>hc_state := kExpectBody\<rparr>"

definition fresh_context :: "'c HttpContext \<Rightarrow> bool" where
  "fresh_context c \<longleftrightarrow> hc_state c = kExpectRequestLine \<and> rq_method (hc_request c) = kInvalid \<and>
     contentLength c = 0 \<and> bodyReceived c = 0 \<and> \<not> isChunked c"

definition wf_line :: "bytes \<Rightarrow> bytes \<Rightarrow> Version \<Rightarrow> bool" where
  "wf_line m target v \<longleftrightarrow> parse_method m \<noteq> kInvalid \<and> CHR '' '' \<notin> set target \<and>
     CR \<notin> set target \<and> v \<noteq> kUnknown"

definition render_line :: "bytes \<Rightarrow> bytes \<Rightarrow> Version \<Rightarrow> bytes" where
  "render_line m target v = m @ CHR '' '' # target @ CHR '' '' # version_string v @ kCRLF"

lemma line_no_CR:
  "wf_line m target v \<Longrightarrow> CR \<notin> set (m @ CHR '' '' # target @ CHR '' '' # version_string v)"
  by (auto simp: wf_line_def parse_method_iff version_string_def CR_def)

lemma parse_request_line:
  assumes ok: "buf_ok b" and fresh: "fresh_context c" and wf: "wf_line m target v"
    and c: "contents b = render_line m target v @ rest"
  shows "\<exists>b'. parse_loop t res c b =
             parse_loop t res (c\<lparr>hc_request := (with_line (hc_request c) m target v)\<lparr>rq_receiveTime := t\<rparr>,
                                 hc_state := kExpectHeaders\<rparr>) b' \<and>
           buf_ok b' \<and> contents b' = rest \<and> buf_used b' \<le> buf_used b"
proof -
  let ?l = "m @ CHR '' '' # target @ CHR '' '' # version_string v"
  have c': "contents b = ?l @ kCRLF @ rest"
    using c by (simp add: render_line_def)
  note l = line_taken [OF ok c' line_no_CR [OF wf]]
  obtain b' where b': "retrieveUntil b (peek b + length ?l + 2) = Inr b'" "buf_ok b'"
    "contents b' = rest" "buf_used b' \<le> buf_used b"
    using l(3) by blast
  have pl: "processRequestLine (hc_request c) ?l = Inr (True, with_line (hc_request c) m target v)"
    using fresh wf by (intro processRequestLine_good) (auto simp: fresh_context_def wf_line_def)
  show ?thesis
    apply (rule exI [of _ b'])
    using l(1,2) b' pl fresh by (subst parse_loop.simps) (simp add: fresh_context_def)
qed

lemma fold_apply_header_keeps [simp]:
  "hc_state (fold apply_header hs c) = hc_state c"
  "bodyReceived (fold apply_header hs c) = bodyReceived c"
  by (induction hs arbitrary: c) (auto simp: apply_header_def Let_def)

lemma fold_apply_header_length:
  "list_all wf_header hs \<Longrightarrow> contentLength c < 2 ^ 31 \<Longrightarrow>
     contentLength (fold apply_header hs c) < 2 ^ 31"
  by (induction hs arbitrary: c) (auto simp: apply_header_def Let_def wf_header_def)

lemma after_headers_pending:
  assumes "fresh_context c" and "list_all wf_header hs" and "\<not> isChunked (after_headers c t m target v hs)"
  shows "body_pending (after_headers c t m target v hs)"
    "bodyReceived (after_headers c t m target v hs) = 0"
  using assms fold_apply_header_length [OF assms(2), of
      "c\<lparr>hc_request := (with_line (hc_request c) m target v)\<lparr>rq_receiveTime := t\<rparr>,
         hc_state := kExpectHeaders\<rparr>"]
  by (auto simp: after_headers_def body_pending_def fresh_context_def size_mod_def)

lemma parse_complete_headers:
  assumes "buf_ok b" and "fresh_context c" and "wf_line m target v" and "list_all wf_header hs"
    and "contents b = render_line m target v @ render_headers hs @ kCRLF @ rest"
    and "\<not> isChunked (after_headers c t m target v hs)"
  shows "\<exists>b'. parseRequest c b t =
             Some (Inr (if contentLength (after_headers c t m target v hs) \<le> length rest
                        then kGotRequest else kHeadersComplete,
                        body_fed rest (after_headers c t m target v hs), b')) \<and>
           buf_ok b' \<and> contents b' = drop (contentLength (after_headers c t m target v hs)) rest"
proof -
  let ?c1 = "c\<lparr>hc_request := (with_line (hc_request c) m target v)\<lparr>rq_receiveTime := t\<rparr>,
               hc_state := kExpectHeaders\<rparr>"
  let ?c2 = "after_headers c t m target v hs"
  obtain b1 where b1: "parseRequest c b t = parse_loop t kNeedMore ?c1 b1" "buf_ok b1"
    "contents b1 = render_headers hs @ kCRLF @ rest"
    using parse_request_line [OF assms(1-3,5), of t kNeedMore] by (auto simp: parseRequest_def)
  obtain b2 where b2: "processHeaders ?c1 b1 = Some (Inr (?c2, b2))" "buf_ok b2" "contents b2 = rest"
    using processHeaders_complete [OF b1(2) assms(4) b1(3), of ?c1] by (auto simp: after_headers_def)
  note p = after_headers_pending [OF assms(2,4,6)]
  have st: "hc_state ?c2 = kExpectBody" by (simp add: after_headers_def)
  have rd: "readableBytes b2 = length rest"
    using readable_contents [OF b2(2)] b2(3) by simp
  consider (none) "contentLength ?c2 = 0" | (wait) "contentLength ?c2 \<noteq> 0" "rest = []"
    | (body) "contentLength ?c2 \<noteq> 0" "rest \<noteq> []" by blast
  then show ?thesis
  proof cases
    case none
    then have "parseRequest c b t = Some (Inr (kGotRequest, ?c2\<lparr>hc_state := kGotAll\<rparr>, b2))"
      unfolding b1(1) using b2(1) st assms(6) by (subst parse_loop.simps) simp
    then show ?thesis
      using none b2 p by (simp add: body_fed_def)
  next
    case wait
    then have "parseRequest c b t = Some (Inr (kHeadersComplete, ?c2, b2))"
      unfolding b1(1) using b2(1) st rd by (subst parse_loop.simps) simp
    then show ?thesis
      using wait b2 p st by (simp add: body_fed_def)
  next
    case body
    then have "parseRequest c b t = parse_loop t kHeadersComplete ?c2 b2"
      unfolding b1(1) using b2(1) st rd by (subst parse_loop.simps) simp
    then show ?thesis
      using parse_body_step [OF b2(2) p(1), of t kHeadersComplete] b2(3) p(2) by auto
  qed
qed

lemma parseRequest_complete:
  assumes "buf_ok b" and "fresh_context c" and "wf_line m target v" and "list_all wf_header hs"
    and "contents b = render_line m target v @ render_headers hs @ kCRLF @ rest"
    and "\<not> isChunked (after_headers c t m target v hs)"
    and "contentLength (after_headers c t m target v hs) \<le> length rest"
  shows "\<exists>b'. parseRequest c b t =
             Some (Inr (kGotRequest, body_fed rest (after_headers c t m target v hs), b')) \<and>
           buf_ok b' \<and> contents b' = drop (contentLength (after_headers c t m target v hs)) rest"
  using parse_complete_headers [OF assms(1-6)] assms(7) by simp

text \<open>
  C26 (functional). A well-formed request whose headers are all there is parsed completely: the
  context holds the method, the path and query, the version, the headers and the time, the first
  \<^verbatim>\<open>Content-Length\<close> bytes after the headers (or as many as have arrived) become the body, the bytes
  after them stay in the buffer, and the result tells whether the body is complete.
\<close>

theorem parseRequest_complete_headers:
  assumes "buf_ok b" and "fresh_context c" and "wf_line m target v" and "list_all wf_header hs"
    and "contents b = render_line m target v @ render_headers hs @ kCRLF @ rest"
    and "\<not> isChunked (after_headers c t m target v hs)"
  shows "\<exists>b'. parseRequest c b t =
             Some (Inr (if contentLength (after_headers c t m target v hs) \<le> length rest
                        then kGotRequest else kHeadersComplete,
                        body_fed rest (after_headers c t m target v hs), b')) \<and>
           buf_ok b' \<and> contents b' = drop (contentLength (after_headers c t m target v hs)) rest"
  by (rule parse_complete_headers [OF assms])


theorem parseRequest_complete_headers_witness:
  "\<exists>c' b'. parseRequest (mkHttpContext :: nat HttpContext)
       (buffer_of (render_line ''POST'' ''/login'' kHttp11 @ render_headers [(''Content-Length'', ''3'')] @
                   kCRLF @ ''abcGET'')) 7 = Some (Inr (kGotRequest, c', b')) \<and>
     rq_path (hc_request c') = ''/login'' \<and> rq_body (hc_request c') = ''abc'' \<and> contents b' = ''GET''"
proof -
  let ?c = "mkHttpContext :: nat HttpContext"
  let ?hs = "[(''Content-Length'', ''3'')] :: (bytes \<times> bytes) list"
  let ?d = "render_line ''POST'' ''/login'' kHttp11 @ render_headers ?hs @ kCRLF @ ''abcGET''"
  have ok: "buf_ok (buffer_of ?d)"
    by (rule buffer_of_ok) (simp add: vec_max_def kCheapPrepend_def render_line_def version_string_def
        render_headers_def render_header_def kCRLF_def)
  have ah: "contentLength (after_headers ?c 7 ''POST'' ''/login'' kHttp11 ?hs) = 3"
    "\<not> isChunked (after_headers ?c 7 ''POST'' ''/login'' kHttp11 ?hs)"
    "bodyReceived (after_headers ?c 7 ''POST'' ''/login'' kHttp11 ?hs) = 0"
    "rq_body (hc_request (after_headers ?c 7 ''POST'' ''/login'' kHttp11 ?hs)) = []"
    "rq_path (hc_request (after_headers ?c 7 ''POST'' ''/login'' kHttp11 ?hs)) = ''/login''"
    by (simp_all add: after_headers_def apply_header_def Let_def is_length_def is_encoding_def
        strcasecmp_eq_def dec_val_def digit_val_def code_def with_line_def std_find_def
        mkHttpContext_def mkHttpRequest_def)
  have "list_all wf_header ?hs" "fresh_context ?c" "wf_line ''POST'' ''/login'' kHttp11"
    by (simp_all add: wf_header_def is_length_def CR_def isspace_def isdigit_def dec_val_def
        digit_val_def code_def fresh_context_def mkHttpContext_def mkHttpRequest_def wf_line_def
        parse_method_def)
  from parseRequest_complete_headers [OF ok this(2,3,1) contents_buffer_of ah(2)]
  show ?thesis
    by (auto simp: ah body_fed_def Let_def appendToBody_def)
qed

section \<open>Bodies that arrive in several segments\<close>

text \<open>Each segment is appended to the input buffer and the parser is called on it.\<close>

fun run_segments ::
  "TimeStamp \<Rightarrow> ParseResult \<times> 'c HttpContext \<times> Buffer \<Rightarrow> bytes list \<Rightarrow>
   (ParseResult \<times> 'c HttpContext \<times> Buffer) result option" where
  "run_segments t (res, c, b) [] = Some (Inr (res, c, b))"
| "run_segments t (res, c, b) (seg # segs) =
     (case append_buf b seg of
        Inl e \<Rightarrow> Some (Inl e)
      | Inr b1 \<Rightarrow>
          (case parseRequest c b1 t of
             None \<Rightarrow> None
           | Some (Inl e) \<Rightarrow> Some (Inl e)
           | Some (Inr x) \<Rightarrow> run_segments t x segs))"

lemma body_fed_append:
  assumes "bodyReceived c + length d < contentLength c"
  shows "body_fed e (body_fed d c) = body_fed (d @ e) c"
  using assms by (simp add: body_fed_def Let_def appendToBody_def min_def)

lemma body_fed_pending:
  assumes "body_pending c" and "bodyReceived c + length d < contentLength c"
  shows "body_pending (body_fed d c)"
    "bodyReceived (body_fed d c) = bodyReceived c + length d" "contentLength (body_fed d c) = contentLength c"
  using assms by (simp_all add: body_fed_def Let_def body_pending_def)

lemma body_fed_Nil: "body_pending c \<Longrightarrow> bodyReceived c < contentLength c \<Longrightarrow> body_fed [] c = c"
  by (simp add: body_fed_def Let_def body_pending_def)

lemma feed_one:
  assumes ok: "buf_ok b" and e: "contents b = []" and room: "buf_used b + length d \<le> vec_max"
    and p: "body_pending c"
  shows "\<exists>b1 b'. append_buf b d = Inr b1 \<and>
           parseRequest c b1 t =
             Some (Inr (if contentLength c - bodyReceived c \<le> length d
                        then kGotRequest else kHeadersComplete, body_fed d c, b')) \<and>
           buf_ok b' \<and> contents b' = drop (contentLength c - bodyReceived c) d \<and>
           buf_used b' \<le> buf_used b + length d"
proof -
  obtain b1 where b1: "append_buf b d = Inr b1" "buf_ok b1" "contents b1 = d"
    "buf_used b1 \<le> buf_used b + length d"
    using append_buf_ok [OF ok room] e by auto
  show ?thesis
    using parse_body_step [OF b1(2) p, of t kNeedMore] b1 by (auto simp: parseRequest_def)
qed

text \<open>
  C9 (functional). However the body is cut into segments, reading them one after the other
  gives the same request as reading them in one piece: the bytes are concatenated in order, the
  request is complete at the segment that brings the last missing byte, and the bytes beyond the
  content length stay in the buffer.
\<close>

theorem body_segmentation:
  assumes "buf_ok b" and "contents b = []" and "body_pending c"
    and "buf_used b + length (concat segs @ seg) \<le> vec_max"
    and "bodyReceived c + length (concat segs) < contentLength c"
    and "contentLength c \<le> bodyReceived c + length (concat segs @ seg)"
  shows "\<exists>b'. run_segments t (res, c, b) (segs @ [seg]) =
             Some (Inr (kGotRequest, body_fed (concat segs @ seg) c, b')) \<and> buf_ok b' \<and>
           contents b' = drop (contentLength c - bodyReceived c) (concat segs @ seg)"
  using assms
proof (induction segs arbitrary: b c res)
  case Nil
  then show ?case
    using feed_one [of b seg c t] by auto
next
  case (Cons s segs)
  have lt: "bodyReceived c + length s < contentLength c"
    using Cons.prems(5) by simp
  then have "\<not> contentLength c - bodyReceived c \<le> length s" by simp
  then obtain b1 b' where b': "append_buf b s = Inr b1"
    "parseRequest c b1 t = Some (Inr (kHeadersComplete, body_fed s c, b'))"
    "buf_ok b'" "contents b' = []" "buf_used b' \<le> buf_used b + length s"
    using feed_one [of b s c t] Cons.prems by auto
  note p = body_fed_pending [OF Cons.prems(3) lt]
  have "\<exists>b''. run_segments t (kHeadersComplete, body_fed s c, b') (segs @ [seg]) =
             Some (Inr (kGotRequest, body_fed (concat segs @ seg) (body_fed s c), b'')) \<and> buf_ok b'' \<and>
           contents b'' = drop (contentLength (body_fed s c) - bodyReceived (body_fed s c)) (concat segs @ seg)"
    using b'(5) Cons.prems(4-6) p by (intro Cons.IH [OF b'(3,4) p(1)]) auto
  then show ?case
    using b'(1,2) body_fed_append [OF lt, of "concat segs @ seg"] p lt by auto
qed

theorem body_segmentation_witness:
  "\<exists>b'. run_segments 0 (kHeadersComplete,
          (mkHttpContext :: nat HttpContext)\<lparr>hc_state := kExpectBody, contentLength := 5\<rparr>, emptyBuffer)
          ([''ab'', ''c''] @ [''dexy'']) =
        Some (Inr (kGotRequest, body_fed (concat [''ab'', ''c''] @ ''dexy'')
          (mkHttpContext\<lparr>hc_state := kExpectBody, contentLength := 5\<rparr>), b')) \<and> buf_ok b' \<and>
      contents b' = ''xy''"
  using body_segmentation [of emptyBuffer
      "(mkHttpContext :: nat HttpContext)\<lparr>hc_state := kExpectBody, contentLength := 5\<rparr>"
      "[''ab'', ''c'']" "''dexy''" 0 kHeadersComplete]
  by (simp add: body_pending_def mkHttpContext_def size_mod_def vec_max_def)

section \<open>Calls that do not return\<close>

definition parser_stuck :: "'c HttpContext \<Rightarrow> Buffer \<Rightarrow> bool" where
  "parser_stuck c b \<longleftrightarrow> hc_state c = kGotAll \<or> hc_state c = kExpectHeaders \<and> findCRLF b = None"

lemma processHeaders_no_line: "findCRLF b = None \<Longrightarrow> processHeaders c b = Some (Inr (c, b))"
  by (subst processHeaders.simps) simp

lemma parse_loop_Some_not_stuck:
  assumes "parse_loop t res c b = Some y"
  shows "\<not> parser_stuck c b"
proof (rule parse_loop.raw_induct [of "\<lambda>t res c b y. \<not> parser_stuck c b", OF _ assms])
  fix pl :: "TimeStamp \<Rightarrow> ParseResult \<Rightarrow> 'a HttpContext \<Rightarrow> Buffer \<Rightarrow>
             (ParseResult \<times> 'a HttpContext \<times> Buffer) result option"
  fix t res c b y
  assume IH: "\<And>t res c b y. pl t res c b = Some y \<Longrightarrow> \<not> parser_stuck c b"
  assume body: "(case hc_state c of
        kExpectRequestLine \<Rightarrow>
          (case findCRLF b of
             None \<Rightarrow> Some (Inr (res, c, b))
           | Some crlf \<Rightarrow>
               (case processRequestLine (hc_request c) (chunk (peek b) (crlf - peek b) (buffer b)) of
                  Inl e \<Rightarrow> Some (Inl e)
                | Inr (ok, r) \<Rightarrow>
                    if ok
                    then case retrieveUntil b (crlf + 2) of
                           Inl e \<Rightarrow> Some (Inl e)
                         | Inr b' \<Rightarrow> pl t res (c\<lparr>hc_request := r\<lparr>rq_receiveTime := t\<rparr>,
                                  hc_state := kExpectHeaders\<rparr>) b'
                    else Some (Inr (kError, c\<lparr>hc_request := r\<rparr>, b))))
      | kExpectHeaders \<Rightarrow>
          Option.bind (processHeaders c b) (\<lambda>hr.
            case hr of
              Inl e \<Rightarrow> Some (Inl e)
            | Inr (c', b') \<Rightarrow>
                if hc_state c' = kExpectBody
                then if contentLength c' = 0 \<and> \<not> isChunked c'
                     then Some (Inr (kGotRequest, c'\<lparr>hc_state := kGotAll\<rparr>, b'))
                     else if 0 < readableBytes b' then pl t kHeadersComplete c' b'
                     else Some (Inr (kHeadersComplete, c', b'))
                else pl t res c' b')
      | kExpectBody \<Rightarrow>
          Some (rbind (processBody c b) (\<lambda>(complete, c', b').
            Inr (if complete then (kGotRequest, c'\<lparr>hc_state := kGotAll\<rparr>, b')
                 else if bodyReceived c' < contentLength c' then (kHeadersComplete, c', b')
                 else (res, c', b'))))
      | kGotAll \<Rightarrow> pl t res c b) = Some y"
  show "\<not> parser_stuck c b"
  proof
    assume st: "parser_stuck c b"
    then have "pl t res c b = Some y"
      using body processHeaders_no_line [of b c] by (auto simp: parser_stuck_def)
    with IH st show False by blast
  qed
qed

lemma stuck_never_returns: "parser_stuck c b \<Longrightarrow> parse_loop t res c b = None"
  using parse_loop_Some_not_stuck by (cases "parse_loop t res c b") blast+

text \<open>
  C36 (termination). A request whose header section has not arrived completely makes the parser loop
  forever: after a valid request line and any number of complete header lines, with no line end in
  what follows, the call does not return and the event loop of the connection is lost.
\<close>

theorem parseRequest_partial_headers_diverges:
  assumes "buf_ok b" and "fresh_context c" and "wf_line m target v" and "list_all wf_header hs"
    and "contents b = render_line m target v @ render_headers hs @ part" and "CR \<notin> set part"
  shows "parseRequest c b t = None"
proof -
  let ?c1 = "c\<lparr>hc_request := (with_line (hc_request c) m target v)\<lparr>rq_receiveTime := t\<rparr>,
               hc_state := kExpectHeaders\<rparr>"
  obtain b1 where b1: "parseRequest c b t = parse_loop t kNeedMore ?c1 b1" "buf_ok b1"
    "contents b1 = render_headers hs @ part"
    using parse_request_line [OF assms(1-3,5), of t kNeedMore] by (auto simp: parseRequest_def)
  obtain b2 where b2: "processHeaders ?c1 b1 = Some (Inr (fold apply_header hs ?c1, b2))" "buf_ok b2"
    "contents b2 = part"
    using processHeaders_partial [OF b1(2) assms(4) b1(3) assms(6), of ?c1] by auto
  have "parse_loop t kNeedMore ?c1 b1 = parse_loop t kNeedMore (fold apply_header hs ?c1) b2"
    using b2(1) by (subst parse_loop.simps) simp
  also have "\<dots> = None"
    using no_line [OF b2(2)] b2(3) assms(6) by (intro stuck_never_returns) (simp add: parser_stuck_def)
  finally show ?thesis by (simp add: b1(1))
qed

theorem parseRequest_partial_headers_diverges_witness:
  "parseRequest (mkHttpContext :: nat HttpContext)
     (buffer_of (render_line ''GET'' ''/'' kHttp11 @ render_headers [(''Host'', ''a'')] @ ''Acc'')) 0 = None"
proof -
  have "buf_ok (buffer_of (render_line ''GET'' ''/'' kHttp11 @ render_headers [(''Host'', ''a'')] @ ''Acc''))"
    by (rule buffer_of_ok) (simp add: vec_max_def kCheapPrepend_def render_line_def version_string_def
        render_headers_def render_header_def kCRLF_def)
  from parseRequest_partial_headers_diverges [OF this _ _ _ contents_buffer_of, of mkHttpContext 0]
  show ?thesis
    by (simp add: wf_header_def is_length_def CR_def isspace_def strcasecmp_eq_def c_str_def NUL_def
        tolower_def code_def fresh_context_def mkHttpContext_def mkHttpRequest_def wf_line_def
        parse_method_def)
qed

lemma processRequestLine_total:
  "rq_method r = kInvalid \<Longrightarrow> \<exists>ok r'. processRequestLine r l = Inr (ok, r')"
  by (auto simp: processRequestLine_def setMethod_fresh Let_def split: if_split)

lemma parse_bad_line:
  assumes ok: "buf_ok b" and fresh: "fresh_context c" and c: "contents b = l @ kCRLF @ rest"
    and cr: "CR \<notin> set l"
    and bad: "\<nexists>m target v. l = m @ CHR '' '' # target @ CHR '' '' # version_string v \<and>
                parse_method m \<noteq> kInvalid \<and> CHR '' '' \<notin> set target \<and> v \<noteq> kUnknown"
  shows "\<exists>c1. parseRequest c b t = Some (Inr (kError, c1, b))"
proof -
  have inv: "rq_method (hc_request c) = kInvalid" using fresh by (simp add: fresh_context_def)
  obtain okf r where pr: "processRequestLine (hc_request c) l = Inr (okf, r)"
    using processRequestLine_total [OF inv] by blast
  have "\<not> okf"
    using processRequestLine_accepts [OF inv, of l r] pr bad by (cases okf) auto
  then have "parse_loop t kNeedMore c b = Some (Inr (kError, c\<lparr>hc_request := r\<rparr>, b))"
    using fresh line_taken(1,2) [OF ok c cr] pr by (subst parse_loop.simps) (simp add: fresh_context_def)
  then show ?thesis by (auto simp: parseRequest_def)
qed

text \<open>
  A request line with a known method that is otherwise malformed is answered with
  \<open>kError\<close>, but it stays in the buffer and its method stays in the request, so the next call of the
  parser on this connection, whatever arrives behind it, fails the assertion of \<^verbatim>\<open>setMethod\<close>.
\<close>

theorem parse_after_error_aborts:
  assumes ok: "buf_ok b" and fresh: "fresh_context c" and m: "parse_method m \<noteq> kInvalid"
    and c: "contents b = (m @ CHR '' '' # junk) @ kCRLF @ rest" and j: "CR \<notin> set junk"
    and bad: "\<nexists>target v. junk = target @ CHR '' '' # version_string v \<and> CHR '' '' \<notin> set target \<and> v \<noteq> kUnknown"
    and app: "append_buf b next = Inr b2" "buf_used b + length next \<le> vec_max"
  shows "\<exists>c1. parseRequest c b t = Some (Inr (kError, c1, b)) \<and>
           parseRequest c1 b2 t' = Some (Inl Assertion_Failed)"
proof -
  let ?l = "m @ CHR '' '' # junk"
  have sp: "std_find CHR '' '' ?l = length m"
    using method_no_space [OF m] by (simp add: std_find_split)
  have nocr: "CR \<notin> set ?l"
    using m j by (auto simp: parse_method_iff CR_def)
  have inv: "rq_method (hc_request c) = kInvalid" using fresh by (simp add: fresh_context_def)
  obtain okf r where pr: "processRequestLine (hc_request c) ?l = Inr (okf, r)"
    and rm: "rq_method r = parse_method m"
    using processRequestLine_method [OF inv m, of junk] by auto
  have "\<not> okf"
  proof
    assume okf
    with pr have "processRequestLine (hc_request c) ?l = Inr (True, r)" by simp
    from processRequestLine_accepts [OF inv this] obtain m' target v where l: "?l = m' @ CHR '' '' # target @ CHR '' '' # version_string v"
      "parse_method m' \<noteq> kInvalid" "CHR '' '' \<notin> set target" "v \<noteq> kUnknown"
      by blast
    have "m' = m"
      using sp std_find_split [OF method_no_space [OF l(2)]] l(1)
      by (metis append_eq_append_conv)
    with l bad show False by auto
  qed
  note l1 = line_taken [OF ok c nocr]
  have 1: "parseRequest c b t = Some (Inr (kError, c\<lparr>hc_request := r\<rparr>, b))"
    unfolding parseRequest_def
    using fresh l1(1,2) pr \<open>\<not> okf\<close> by (subst parse_loop.simps) (simp add: fresh_context_def)
  have b2: "buf_ok b2" "contents b2 = ?l @ kCRLF @ (rest @ next)"
    using append_buf_ok [OF ok app(2)] app(1) c by auto
  note l2 = line_taken [OF b2 nocr]
  have "processRequestLine r ?l = Inl Assertion_Failed"
    using sp rm m by (simp add: processRequestLine_def Let_def setMethod_twice)
  then have "parseRequest (c\<lparr>hc_request := r\<rparr>) b2 t' = Some (Inl Assertion_Failed)"
    unfolding parseRequest_def
    using fresh l2(1,2) by (subst parse_loop.simps) (simp add: fresh_context_def)
  with 1 show ?thesis by blast
qed

theorem parse_after_error_aborts_witness:
  "\<exists>c1. parseRequest (mkHttpContext :: nat HttpContext) (buffer_of (''GET /'' @ kCRLF)) 0 =
           Some (Inr (kError, c1, buffer_of (''GET /'' @ kCRLF))) \<and>
         (\<exists>b2. append_buf (buffer_of (''GET /'' @ kCRLF)) ''x'' = Inr b2 \<and>
           parseRequest c1 b2 1 = Some (Inl Assertion_Failed))"
proof -
  let ?b = "buffer_of (''GET /'' @ kCRLF)"
  have ok: "buf_ok ?b"
    by (rule buffer_of_ok) (simp add: vec_max_def kCheapPrepend_def kCRLF_def)
  have room: "buf_used ?b + length ''x'' \<le> vec_max"
    by (simp add: vec_max_def kCheapPrepend_def kCRLF_def buf_used_def buffer_of_def)
  from append_buf_ok [OF ok room] obtain b2 where b2: "append_buf ?b ''x'' = Inr b2" by blast
  have bad: "\<nexists>target v. ''/'' = target @ CHR '' '' # version_string v \<and> CHR '' '' \<notin> set target \<and> v \<noteq> kUnknown"
    by (auto simp: Cons_eq_append_conv)
  have "fresh_context (mkHttpContext :: nat HttpContext)" "parse_method ''GET'' \<noteq> kInvalid"
    "contents ?b = (''GET'' @ CHR '' '' # ''/'') @ kCRLF @ []" "CR \<notin> set ''/''"
    by (simp_all add: fresh_context_def mkHttpContext_def mkHttpRequest_def parse_method_def CR_def)
  from parse_after_error_aborts [OF ok this bad b2 room] b2 show ?thesis by blast
qed

end
