(* ===== verification/Http_Response.thy ===== *)
theory Http_Response
  imports Net_Buffer Std_Map
begin

text \<open>
  \<^verbatim>\<open>HttpResponse\<close> (\<^verbatim>\<open>inc/network/http/HttpResponse.hpp\<close>): the response record with its setters and its
  rendering into a \<^verbatim>\<open>Buffer\<close>.  Headers are kept in a \<^verbatim>\<open>std::map\<close>, so they are written in ascending
  order of their names.
\<close>

section \<open>Definitions\<close>

datatype HttpStatusCode =
    kUnknownStatus | k200Ok | k206PartialContent | k301MovedPermanently | k400BadRequest
  | k401Unauthorized | k403Forbidden | k404NotFound | k416RangeNotSatisfiable
  | k500InternalServerError

fun status_code :: "HttpStatusCode \<Rightarrow> nat" where
  "status_code kUnknownStatus = 0"
| "status_code k200Ok = 200"
| "status_code k206PartialContent = 206"
| "status_code k301MovedPermanently = 301"
| "status_code k400BadRequest = 400"
| "status_code k401Unauthorized = 401"
| "status_code k403Forbidden = 403"
| "status_code k404NotFound = 404"
| "status_code k416RangeNotSatisfiable = 416"
| "status_code k500InternalServerError = 500"

record HttpResponse =
  rs_headers :: "bytes smap"
  rs_statusCode :: HttpStatusCode
  rs_statusMessage :: bytes
  rs_closeConnection :: bool
  rs_body :: bytes
  rs_async :: bool

definition mkHttpResponse :: "bool \<Rightarrow> HttpResponse" where
  "mkHttpResponse close = \<lparr>rs_headers = [], rs_statusCode = kUnknownStatus, rs_statusMessage = [],
                           rs_closeConnection = close, rs_body = [], rs_async = False\<rparr>"

definition setStatusCode :: "HttpStatusCode \<Rightarrow> HttpResponse \<Rightarrow> HttpResponse" where
  "setStatusCode st r = r\<lparr>rs_statusCode := st\<rparr>"

definition setStatusMessage :: "bytes \<Rightarrow> HttpResponse \<Rightarrow> HttpResponse" where
  "setStatusMessage message r = r\<lparr>rs_statusMessage := message\<rparr>"

definition setCloseConnection :: "bool \<Rightarrow> HttpResponse \<Rightarrow> HttpResponse" where
  "setCloseConnection on r = r\<lparr>rs_closeConnection := on\<rparr>"

definition addRespHeader :: "bytes \<Rightarrow> bytes \<Rightarrow> HttpResponse \<Rightarrow> HttpResponse" where
  "addRespHeader key val r = r\<lparr>rs_headers := map_put key val (rs_headers r)\<rparr>"

definition setContentType :: "bytes \<Rightarrow> HttpResponse \<Rightarrow> HttpResponse" where
  "setContentType contentType r = addRespHeader ''Content-Type'' contentType r"

definition setBody :: "bytes \<Rightarrow> HttpResponse \<Rightarrow> HttpResponse" where
  "setBody body r = r\<lparr>rs_body := body\<rparr>"

definition setAsync :: "bool \<Rightarrow> HttpResponse \<Rightarrow> HttpResponse" where
  "setAsync async r = r\<lparr>rs_async := async\<rparr>"

fun append_headers :: "Buffer \<Rightarrow> bytes smap \<Rightarrow> Buffer result" where
  "append_headers output [] = Inr output"
| "append_headers output ((key, val) # hs) =
     rbind (append_buf output key) (\<lambda>o1.
     rbind (append_buf o1 '': '') (\<lambda>o2.
     rbind (append_buf o2 val) (\<lambda>o3.
     rbind (append_buf o3 kCRLF) (\<lambda>o4. append_headers o4 hs))))"

definition appendToBuffer :: "HttpResponse \<Rightarrow> Buffer \<Rightarrow> Buffer result" where
  "appendToBuffer r output =
     rbind (append_buf output (''HTTP/1.1 '' @ nat_to_string (status_code (rs_statusCode r)) @ '' '')) (\<lambda>o1.
     rbind (append_buf o1 (rs_statusMessage r)) (\<lambda>o2.
     rbind (append_buf o2 kCRLF) (\<lambda>o3.
     rbind (if rs_closeConnection r then append_buf o3 (''Connection: close'' @ kCRLF)
            else append_buf o3 (''Connection: Keep-Alive'' @ kCRLF)) (\<lambda>o4.
     rbind (append_headers o4 (rs_headers r)) (\<lambda>o5.
     rbind (append_buf o5 kCRLF) (\<lambda>o6.
     append_buf o6 (rs_body r)))))))"

section \<open>The bytes of a response\<close>

definition header_bytes :: "bytes smap \<Rightarrow> bytes" where
  "header_bytes hs = concat (map (\<lambda>(key, val). key @ '': '' @ val @ kCRLF) hs)"

definition response_bytes :: "HttpResponse \<Rightarrow> bytes" where
  "response_bytes r =
     ''HTTP/1.1 '' @ nat_to_string (status_code (rs_statusCode r)) @ '' '' @ rs_statusMessage r @ kCRLF @
     (if rs_closeConnection r then ''Connection: close'' else ''Connection: Keep-Alive'') @ kCRLF @
     header_bytes (rs_headers r) @ kCRLF @ rs_body r"

text \<open>\<open>appends f d\<close>: the buffer operation \<open>f\<close> appends \<open>d\<close>, given the room for it.\<close>

definition appends :: "(Buffer \<Rightarrow> Buffer result) \<Rightarrow> bytes \<Rightarrow> bool" where
  "appends f d \<longleftrightarrow> (\<forall>b. buf_ok b \<longrightarrow> buf_used b + length d \<le> vec_max \<longrightarrow>
     (\<exists>b'. f b = Inr b' \<and> buf_ok b' \<and> contents b' = contents b @ d \<and>
           buf_used b' \<le> buf_used b + length d))"

lemma appends_append_buf: "appends (\<lambda>b. append_buf b d) d"
  using append_buf_ok by (simp add: appends_def)

lemma appends_bind:
  assumes "appends f d" and "appends g e"
  shows "appends (\<lambda>b. rbind (f b) g) (d @ e)"
  unfolding appends_def
proof (intro allI impI)
  fix b assume b: "buf_ok b" "buf_used b + length (d @ e) \<le> vec_max"
  then obtain b1 where b1: "f b = Inr b1" "buf_ok b1" "contents b1 = contents b @ d"
    "buf_used b1 \<le> buf_used b + length d"
    using assms(1) unfolding appends_def by fastforce
  then obtain b2 where "g b1 = Inr b2" "buf_ok b2" "contents b2 = contents b1 @ e"
    "buf_used b2 \<le> buf_used b1 + length e"
    using assms(2) b(2) unfolding appends_def by fastforce
  with b1 show "\<exists>b'. rbind (f b) g = Inr b' \<and> buf_ok b' \<and> contents b' = contents b @ d @ e \<and>
      buf_used b' \<le> buf_used b + length (d @ e)" by simp
qed

lemma appends_headers: "appends (\<lambda>b. append_headers b hs) (header_bytes hs)"
proof (induction hs)
  case Nil
  then show ?case by (simp add: appends_def header_bytes_def)
next
  case (Cons h hs)
  obtain key val where h: "h = (key, val)" by (cases h)
  have "appends (\<lambda>b. append_headers b (h # hs)) (key @ '': '' @ val @ kCRLF @ header_bytes hs)"
    unfolding h append_headers.simps
    by (intro appends_bind appends_append_buf Cons.IH)
  then show ?case by (simp add: h header_bytes_def)
qed

lemma appends_response: "appends (appendToBuffer r) (response_bytes r)"
proof -
  let ?st = "''HTTP/1.1 '' @ nat_to_string (status_code (rs_statusCode r)) @ '' ''"
  let ?cl = "(if rs_closeConnection r then ''Connection: close'' else ''Connection: Keep-Alive'') @ kCRLF"
  have cl: "(if rs_closeConnection r then append_buf b (''Connection: close'' @ kCRLF)
      else append_buf b (''Connection: Keep-Alive'' @ kCRLF)) = append_buf b ?cl" for b by simp
  have "appends (appendToBuffer r)
      (?st @ rs_statusMessage r @ kCRLF @ ?cl @ header_bytes (rs_headers r) @ kCRLF @ rs_body r)"
    unfolding appendToBuffer_def cl by (intro appends_bind appends_append_buf appends_headers)
  then show ?thesis by (simp add: response_bytes_def)
qed

text \<open>
  Rendering a response appends to the buffer, whatever it holds, exactly the status
  line, the \<^verbatim>\<open>Connection\<close> line, the headers in ascending order of their names, an empty line and the
  body.
\<close>

theorem appendToBuffer_renders:
  assumes "buf_ok b" and "buf_used b + length (response_bytes r) \<le> vec_max"
  shows "\<exists>b'. appendToBuffer r b = Inr b' \<and> buf_ok b' \<and> contents b' = contents b @ response_bytes r"
  using appends_response [of r] assms unfolding appends_def by blast

theorem appendToBuffer_renders_witness:
  "\<exists>b'. appendToBuffer (setBody ''{}'' (setContentType ''application/json'' (setStatusCode k200Ok
          (mkHttpResponse False)))) emptyBuffer = Inr b' \<and>
     contents b' = ''HTTP/1.1 200 '' @ kCRLF @ ''Connection: Keep-Alive'' @ kCRLF @
                   ''Content-Type: application/json'' @ kCRLF @ kCRLF @ ''{}''"
proof -
  let ?r = "setBody ''{}'' (setContentType ''application/json'' (setStatusCode k200Ok (mkHttpResponse False)))"
  have r: "response_bytes ?r = ''HTTP/1.1 200 '' @ kCRLF @ ''Connection: Keep-Alive'' @ kCRLF @
                   ''Content-Type: application/json'' @ kCRLF @ kCRLF @ ''{}''"
    by (simp add: response_bytes_def header_bytes_def setBody_def setContentType_def addRespHeader_def
        setStatusCode_def mkHttpResponse_def nat_to_string.simps)
  show ?thesis
    using appendToBuffer_renders [of emptyBuffer ?r] unfolding r by (auto simp: vec_max_def kCRLF_def)
qed

end
