(* ===== verification/Channel.thy ===== *)
theory Channel
  imports Prelude "HOL-Library.Word"
begin

text \<open>
  \<^verbatim>\<open>Channel\<close> (\<^verbatim>\<open>inc/network/Channel.hpp\<close>, \<^verbatim>\<open>src/network/Channel.cpp\<close>): the events a descriptor is
  registered for, as the 32 bit masks of \<^verbatim>\<open>poll\<close>, and the dispatch of the events that occurred to the
  four callbacks.  \<^verbatim>\<open>update()\<close> marks the channel as added; what the poller then does with it is the
  matter of \<open>Pollers\<close>.
\<close>

unbundle bit_operations_syntax

section \<open>Definitions\<close>

type_synonym events = "32 word"

definition POLLIN :: events where "POLLIN = 0x001"
definition POLLPRI :: events where "POLLPRI = 0x002"
definition POLLOUT :: events where "POLLOUT = 0x004"
definition POLLERR :: events where "POLLERR = 0x008"
definition POLLHUP :: events where "POLLHUP = 0x010"
definition POLLNVAL :: events where "POLLNVAL = 0x020"
definition POLLRDHUP :: events where "POLLRDHUP = 0x2000"

lemmas poll_bits =
  POLLIN_def POLLPRI_def POLLOUT_def POLLERR_def POLLHUP_def POLLNVAL_def POLLRDHUP_def

definition kNoneEvent :: events where
  "kNoneEvent = 0"

definition kReadEvent :: events where
  "kReadEvent = POLLIN OR POLLPRI"

definition kWriteEvent :: events where
  "kWriteEvent = POLLOUT"

record Channel =
  ch_fd :: int
  ch_events :: events
  ch_revents :: events
  ch_index :: int
  eventHandling :: bool
  addedToLoop :: bool
  tied :: bool

definition mkChannel :: "int \<Rightarrow> Channel" where
  "mkChannel fd = \<lparr>ch_fd = fd, ch_events = 0, ch_revents = 0, ch_index = -1,
                   eventHandling = False, addedToLoop = False, tied = False\<rparr>"

definition isNoneEvent :: "Channel \<Rightarrow> bool" where
  "isNoneEvent ch \<longleftrightarrow> ch_events ch = kNoneEvent"

definition isWriting :: "Channel \<Rightarrow> bool" where
  "isWriting ch \<longleftrightarrow> ch_events ch AND kWriteEvent \<noteq> 0"

definition isReading :: "Channel \<Rightarrow> bool" where
  "isReading ch \<longleftrightarrow> ch_events ch AND kReadEvent \<noteq> 0"

definition channel_update :: "Channel \<Rightarrow> Channel" where
  "channel_update ch = ch\<lparr>addedToLoop := True\<rparr>"

definition enableReading :: "Channel \<Rightarrow> Channel" where
  "enableReading ch = channel_update (ch\<lparr>ch_events := ch_events ch OR kReadEvent\<rparr>)"

definition disableReading :: "Channel \<Rightarrow> Channel" where
  "disableReading ch = channel_update (ch\<lparr>ch_events := ch_events ch AND NOT kReadEvent\<rparr>)"

definition enableWriting :: "Channel \<Rightarrow> Channel" where
  "enableWriting ch = channel_update (ch\<lparr>ch_events := ch_events ch OR kWriteEvent\<rparr>)"

definition disableWriting :: "Channel \<Rightarrow> Channel" where
  "disableWriting ch = channel_update (ch\<lparr>ch_events := ch_events ch AND NOT kWriteEvent\<rparr>)"

definition disableAll :: "Channel \<Rightarrow> Channel" where
  "disableAll ch = channel_update (ch\<lparr>ch_events := kNoneEvent\<rparr>)"

text \<open>
  \<^verbatim>\<open>remove()\<close> goes through the loop to the poller, which asserts that it has the channel.  It has it from the first \<^verbatim>\<open>update()\<close> to the
  next \<^verbatim>\<open>remove()\<close>, that is, while the channel is marked as added.
\<close>

definition channel_remove :: "Channel \<Rightarrow> Channel result" where
  "channel_remove ch =
     rbind (passert (isNoneEvent ch)) (\<lambda>_. rbind (passert (addedToLoop ch)) (\<lambda>_. Inr (ch\<lparr>addedToLoop := False\<rparr>)))"

definition channel_tie :: "Channel \<Rightarrow> Channel" where
  "channel_tie ch = ch\<lparr>tied := True\<rparr>"

text \<open>The callbacks one event triggers, in order; each is called when it has been set.\<close>

datatype channel_call = Call_close | Call_error | Call_read | Call_write

definition handleEventWithGuard :: "(channel_call \<Rightarrow> bool) \<Rightarrow> Channel \<Rightarrow> channel_call list" where
  "handleEventWithGuard is_set ch =
     (let revents = ch_revents ch
      in filter is_set
           ((if revents AND POLLHUP \<noteq> 0 \<and> revents AND POLLIN = 0 then [Call_close] else []) @
            (if revents AND (POLLERR OR POLLNVAL) \<noteq> 0 then [Call_error] else []) @
            (if revents AND (POLLIN OR POLLPRI OR POLLRDHUP) \<noteq> 0 then [Call_read] else []) @
            (if revents AND POLLOUT \<noteq> 0 then [Call_write] else [])))"

text \<open>\<open>alive\<close>: the object the channel is tied to still exists (\<^verbatim>\<open>tie_.lock()\<close>).\<close>

definition handleEvent :: "bool \<Rightarrow> (channel_call \<Rightarrow> bool) \<Rightarrow> Channel \<Rightarrow> channel_call list" where
  "handleEvent alive is_set ch =
     (if tied ch then if alive then handleEventWithGuard is_set ch else []
      else handleEventWithGuard is_set ch)"

definition eventsToString :: "int \<Rightarrow> events \<Rightarrow> bytes" where
  "eventsToString fd ev =
     int_to_string fd @ '': '' @
     (if ev AND POLLIN \<noteq> 0 then ''IN '' else []) @
     (if ev AND POLLPRI \<noteq> 0 then ''PRI '' else []) @
     (if ev AND POLLOUT \<noteq> 0 then ''OUT '' else []) @
     (if ev AND POLLHUP \<noteq> 0 then ''HUP '' else []) @
     (if ev AND POLLRDHUP \<noteq> 0 then ''RDHUP '' else []) @
     (if ev AND POLLERR \<noteq> 0 then ''ERR '' else []) @
     (if ev AND POLLNVAL \<noteq> 0 then ''NVAL '' else [])"

section \<open>Interest bits\<close>

lemma mask_absorb: "(x OR m) AND m = (m :: 'a::len word)"
  by (rule bit_word_eqI) (auto simp: bit_simps)

lemma mask_cleared: "(x AND NOT m) AND m = (0 :: 'a::len word)"
  by (rule bit_word_eqI) (auto simp: bit_simps)

lemma mask_disjoint: "m AND n = (0 :: 'a::len word) \<Longrightarrow> \<not> (bit m i \<and> bit n i)"
  by (metis bit_0_eq bit_and_iff bot_apply bot_bool_def)

lemma mask_other_or: "m AND n = 0 \<Longrightarrow> (x OR m) AND n = x AND (n :: 'a::len word)"
  by (rule bit_word_eqI) (auto simp: bit_simps dest: mask_disjoint)

lemma mask_other_clear: "m AND n = 0 \<Longrightarrow> (x AND NOT m) AND n = x AND (n :: 'a::len word)"
  by (rule bit_word_eqI) (auto simp: bit_simps dest: mask_disjoint)

lemma read_write_disjoint:
  "kReadEvent AND kWriteEvent = 0" "kWriteEvent AND kReadEvent = 0" "kWriteEvent \<noteq> 0" "kReadEvent \<noteq> 0"
  by (simp_all add: kReadEvent_def kWriteEvent_def poll_bits)

lemma channel_bits [simp]:
  "isWriting (enableWriting ch)" "\<not> isWriting (disableWriting ch)" "\<not> isWriting (disableAll ch)"
  "isReading (enableReading ch)" "\<not> isReading (disableReading ch)" "\<not> isReading (disableAll ch)"
  "isWriting (enableReading ch) = isWriting ch" "isWriting (disableReading ch) = isWriting ch"
  "isReading (enableWriting ch) = isReading ch" "isReading (disableWriting ch) = isReading ch"
  "isNoneEvent (disableAll ch)"
  by (simp_all add: isWriting_def isReading_def isNoneEvent_def enableWriting_def disableWriting_def
      enableReading_def disableReading_def disableAll_def channel_update_def mask_absorb mask_cleared
      mask_other_or mask_other_clear read_write_disjoint kNoneEvent_def)

lemma channel_tie_bits [simp]:
  "isWriting (channel_tie ch) = isWriting ch" "isReading (channel_tie ch) = isReading ch"
  by (simp_all add: isWriting_def isReading_def channel_tie_def)

lemma mkChannel_bits [simp]: "\<not> isWriting (mkChannel fd)" "\<not> isReading (mkChannel fd)"
  by (simp_all add: isWriting_def isReading_def mkChannel_def)

end
