(* ===== verification/Tcp_Connection.thy ===== *)
theory Tcp_Connection
  imports Net_Buffer Channel
begin

text \<open>
  \<^verbatim>\<open>TcpConnection\<close> (\<^verbatim>\<open>inc/network/TcpConnection.hpp\<close>, \<^verbatim>\<open>src/network/TcpConnection.cpp\<close>) on its loop
  thread.  The record has the members of the class, and beside them what the connection does to the
  world: the bytes the kernel took (\<open>sk_wire\<close>), whether the write end is shut down, the functors it
  queued in the loop and, in order, the poller updates and user callbacks.  The kernel's answers to
  \<^verbatim>\<open>write\<close> are a list the connection consumes.  Lemmas: the invariant of a connection, and the byte
  stream it transports.
\<close>

section \<open>Definitions\<close>

datatype StateE = kDisconnected | kConnecting | kConnected | kDisconnecting

text \<open>Functors in the loop's queue.\<close>

datatype 'k task = T_writeComplete 'k | T_highWaterMark nat | T_handleWrite | T_forceClose

datatype 'k conn_event =
    Ev_update events
  | Ev_remove
  | Ev_connectionCallback StateE
  | Ev_closeCallback
  | Ev_writeCompleteCallback 'k
  | Ev_highWaterMarkCallback nat

text \<open>\<open>Write_Ok n\<close>: the kernel has room for \<open>n\<close> bytes.\<close>

datatype write_reply = Write_Ok nat | Write_Err int

record ('x, 'k) TcpConnection =
  tc_state :: StateE
  tc_channel :: Channel
  tc_highWaterMark :: nat
  tc_writeCompleteCallback :: "'k option"
  tc_highWaterMarkCallback :: bool
  tc_input :: Buffer
  tc_output :: Buffer
  tc_context :: "'x option"
  sk_wire :: bytes
  sk_shut :: bool
  sk_replies :: "write_reply list"
  sk_errno :: int
  tc_pending :: "'k task list"
  tc_log :: "'k conn_event list"

definition EAGAIN :: int where "EAGAIN = 11"
definition EWOULDBLOCK :: int where "EWOULDBLOCK = 11"
definition EPIPE :: int where "EPIPE = 32"
definition ECONNRESET :: int where "ECONNRESET = 104"

definition mkTcpConnection :: "int \<Rightarrow> 'k option \<Rightarrow> write_reply list \<Rightarrow> ('x, 'k) TcpConnection" where
  "mkTcpConnection sockfd writeComplete replies =
     \<lparr>tc_state = kConnecting, tc_channel = mkChannel sockfd, tc_highWaterMark = 64 * 1024 * 1024,
      tc_writeCompleteCallback = writeComplete, tc_highWaterMarkCallback = False,
      tc_input = emptyBuffer, tc_output = emptyBuffer, tc_context = None, sk_wire = [],
      sk_shut = False, sk_replies = replies, sk_errno = 0, tc_pending = [], tc_log = []\<rparr>"

definition connected :: "('x, 'k) TcpConnection \<Rightarrow> bool" where
  "connected c \<longleftrightarrow> tc_state c = kConnected"

definition disconnected :: "('x, 'k) TcpConnection \<Rightarrow> bool" where
  "disconnected c \<longleftrightarrow> tc_state c = kDisconnected"

definition setWriteCompleteCallback :: "'k \<Rightarrow> ('x, 'k) TcpConnection \<Rightarrow> ('x, 'k) TcpConnection" where
  "setWriteCompleteCallback cb c = c\<lparr>tc_writeCompleteCallback := Some cb\<rparr>"

definition setHighWaterMarkCallback :: "('x, 'k) TcpConnection \<Rightarrow> nat \<Rightarrow> ('x, 'k) TcpConnection" where
  "setHighWaterMarkCallback c mark = c\<lparr>tc_highWaterMarkCallback := True, tc_highWaterMark := mark\<rparr>"

definition emit :: "'k conn_event list \<Rightarrow> ('x, 'k) TcpConnection \<Rightarrow> ('x, 'k) TcpConnection" where
  "emit evs c = c\<lparr>tc_log := tc_log c @ evs\<rparr>"

definition queueInLoop :: "'k task \<Rightarrow> ('x, 'k) TcpConnection \<Rightarrow> ('x, 'k) TcpConnection" where
  "queueInLoop f c = c\<lparr>tc_pending := tc_pending c @ [f]\<rparr>"

text \<open>A change of the channel's events, with the poller update it brings.\<close>

definition set_channel :: "Channel \<Rightarrow> ('x, 'k) TcpConnection \<Rightarrow> ('x, 'k) TcpConnection" where
  "set_channel ch c = emit [Ev_update (ch_events ch)] (c\<lparr>tc_channel := ch\<rparr>)"

text \<open>
  \<^verbatim>\<open>::write\<close> on the non-blocking socket: after \<^verbatim>\<open>SHUT_WR\<close> it fails with \<^verbatim>\<open>EPIPE\<close>; it takes no more than
  it is given; with no answer left the send buffer is full.
\<close>

definition sys_write :: "('x, 'k) TcpConnection \<Rightarrow> bytes \<Rightarrow> int \<times> ('x, 'k) TcpConnection" where
  "sys_write c d =
     (if sk_shut c then (-1, c\<lparr>sk_errno := EPIPE\<rparr>)
      else case sk_replies c of
             [] \<Rightarrow> (-1, c\<lparr>sk_errno := EAGAIN\<rparr>)
           | Write_Ok n # rs \<Rightarrow>
               (int (min n (length d)), c\<lparr>sk_replies := rs, sk_wire := sk_wire c @ take n d\<rparr>)
           | Write_Err e # rs \<Rightarrow> (-1, c\<lparr>sk_replies := rs, sk_errno := e\<rparr>))"

definition handleClose :: "('x, 'k) TcpConnection \<Rightarrow> ('x, 'k) TcpConnection result" where
  "handleClose c =
     rbind (passert (tc_state c = kConnected \<or> tc_state c = kDisconnecting)) (\<lambda>_.
     Inr (emit [Ev_connectionCallback kDisconnected, Ev_closeCallback]
            (set_channel (disableAll (tc_channel c)) (c\<lparr>tc_state := kDisconnected\<rparr>))))"

definition shutdownInLoop :: "('x, 'k) TcpConnection \<Rightarrow> ('x, 'k) TcpConnection" where
  "shutdownInLoop c = (if \<not> isWriting (tc_channel c) then c\<lparr>sk_shut := True\<rparr> else c)"

definition out_bytes :: "('x, 'k) TcpConnection \<Rightarrow> bytes" where
  "out_bytes c = chunk (peek (tc_output c)) (readableBytes (tc_output c)) (buffer (tc_output c))"

definition handleWrite :: "('x, 'k) TcpConnection \<Rightarrow> ('x, 'k) TcpConnection result" where
  "handleWrite c =
     (if isWriting (tc_channel c)
      then let (n, c1) = sys_write c (out_bytes c)
           in if 0 < n
              then rbind (retrieve (tc_output c1) (nat n)) (\<lambda>out.
                   let c2 = c1\<lparr>tc_output := out\<rparr>
                   in if readableBytes out = 0
                      then let c3 = set_channel (disableWriting (tc_channel c2)) c2;
                               c4 = (case tc_writeCompleteCallback c3 of
                                       Some cb \<Rightarrow> queueInLoop (T_writeComplete cb) c3 | None \<Rightarrow> c3)
                           in Inr (if tc_state c4 = kDisconnecting then shutdownInLoop c4 else c4)
                      else Inr (queueInLoop T_handleWrite c2))
              else if sk_errno c1 \<noteq> EWOULDBLOCK \<and> sk_errno c1 \<noteq> EAGAIN \<and>
                      (sk_errno c1 = EPIPE \<or> sk_errno c1 = ECONNRESET)
              then handleClose c1
              else Inr c1
      else Inr c)"

text \<open>The first attempt of \<^verbatim>\<open>sendInLoop\<close>: bytes written, whether the error is final, new state.\<close>

definition send_direct :: "('x, 'k) TcpConnection \<Rightarrow> bytes \<Rightarrow> nat \<times> bool \<times> ('x, 'k) TcpConnection" where
  "send_direct c d =
     (if \<not> isWriting (tc_channel c) \<and> readableBytes (tc_output c) = 0
      then let (n, c1) = sys_write c d
           in if 0 \<le> n
              then let remaining = sz_sub (length d) (nat n)
                   in (nat n, False,
                       case tc_writeCompleteCallback c1 of
                         Some cb \<Rightarrow> if remaining = 0 then queueInLoop (T_writeComplete cb) c1 else c1
                       | None \<Rightarrow> c1)
              else (0, sk_errno c1 \<noteq> EWOULDBLOCK \<and> sk_errno c1 \<noteq> EAGAIN \<and>
                       (sk_errno c1 = EPIPE \<or> sk_errno c1 = ECONNRESET), c1)
      else (0, False, c))"

text \<open>The second half of \<^verbatim>\<open>sendInLoop\<close>: the high water mark, and the rest of the bytes into the buffer.\<close>

definition note_high_water :: "('x, 'k) TcpConnection \<Rightarrow> nat \<Rightarrow> ('x, 'k) TcpConnection" where
  "note_high_water c remaining =
     (let oldLen = readableBytes (tc_output c)
      in if tc_highWaterMark c \<le> sz_add oldLen remaining \<and> oldLen < tc_highWaterMark c \<and>
            tc_highWaterMarkCallback c
         then queueInLoop (T_highWaterMark (sz_add oldLen remaining)) c
         else c)"

definition buffer_rest :: "('x, 'k) TcpConnection \<Rightarrow> bytes \<Rightarrow> ('x, 'k) TcpConnection result" where
  "buffer_rest c rest =
     rbind (append_buf (tc_output c) rest) (\<lambda>out.
     let c1 = c\<lparr>tc_output := out\<rparr>
     in handleWrite (if \<not> isWriting (tc_channel c1)
                     then set_channel (enableWriting (tc_channel c1)) c1 else c1))"

definition sendInLoop :: "('x, 'k) TcpConnection \<Rightarrow> bytes \<Rightarrow> ('x, 'k) TcpConnection result" where
  "sendInLoop c d =
     (if tc_state c = kDisconnected then Inr c
      else let (nwrote, faultError, c1) = send_direct c d;
               remaining = sz_sub (length d) nwrote
           in if \<not> faultError \<and> 0 < remaining
              then buffer_rest (note_high_water c1 remaining) (drop nwrote d)
              else Inr c1)"

definition send_conn :: "('x, 'k) TcpConnection \<Rightarrow> bytes \<Rightarrow> ('x, 'k) TcpConnection result" where
  "send_conn c d = (if tc_state c = kConnected then sendInLoop c d else Inr c)"

text \<open>\<^verbatim>\<open>send(Buffer*)\<close> also empties the caller's buffer.\<close>

definition send_buffer :: "('x, 'k) TcpConnection \<Rightarrow> Buffer \<Rightarrow> (('x, 'k) TcpConnection \<times> Buffer) result" where
  "send_buffer c b =
     (if tc_state c = kConnected
      then rbind (sendInLoop c (chunk (peek b) (readableBytes b) (buffer b))) (\<lambda>c'.
           Inr (c', retrieveAll b))
      else Inr (c, b))"

definition shutdown_conn :: "('x, 'k) TcpConnection \<Rightarrow> ('x, 'k) TcpConnection" where
  "shutdown_conn c =
     (if tc_state c = kConnected then shutdownInLoop (c\<lparr>tc_state := kDisconnecting\<rparr>) else c)"

definition forceClose :: "('x, 'k) TcpConnection \<Rightarrow> ('x, 'k) TcpConnection" where
  "forceClose c =
     (if tc_state c = kConnected \<or> tc_state c = kDisconnecting
      then queueInLoop T_forceClose (c\<lparr>tc_state := kDisconnecting\<rparr>) else c)"

definition forceCloseInLoop :: "('x, 'k) TcpConnection \<Rightarrow> ('x, 'k) TcpConnection result" where
  "forceCloseInLoop c =
     (if tc_state c = kConnected \<or> tc_state c = kDisconnecting then handleClose c else Inr c)"

definition connectEstablished :: "('x, 'k) TcpConnection \<Rightarrow> ('x, 'k) TcpConnection result" where
  "connectEstablished c =
     rbind (passert (tc_state c = kConnecting)) (\<lambda>_.
     Inr (emit [Ev_connectionCallback kConnected]
            (set_channel (enableReading (channel_tie (tc_channel c))) (c\<lparr>tc_state := kConnected\<rparr>))))"

definition connectDestroyed :: "('x, 'k) TcpConnection \<Rightarrow> ('x, 'k) TcpConnection result" where
  "connectDestroyed c =
     (let c1 = (if tc_state c = kConnected
                then emit [Ev_connectionCallback kDisconnected]
                       (set_channel (disableAll (tc_channel c)) (c\<lparr>tc_state := kDisconnected\<rparr>))
                else c)
      in rbind (channel_remove (tc_channel c1)) (\<lambda>ch.
         Inr (emit [Ev_remove] (c1\<lparr>tc_channel := ch\<rparr>))))"

text \<open>
  \<^verbatim>\<open>handleRead\<close>: the reply of \<^verbatim>\<open>readv\<close> and the message callback are arguments; the callback may not
  return (\<open>None\<close>).  \<^verbatim>\<open>handleError\<close> only logs.
\<close>

definition handleRead ::
  "(('x, 'k) TcpConnection \<Rightarrow> TimeStamp \<Rightarrow> ('x, 'k) TcpConnection result option) \<Rightarrow> ('x, 'k) TcpConnection \<Rightarrow>
   read_reply \<Rightarrow> TimeStamp \<Rightarrow> ('x, 'k) TcpConnection result option" where
  "handleRead messageCallback c reply receiveTime =
     (case readFd (tc_input c) 0 reply of
        Inl e \<Rightarrow> Some (Inl e)
      | Inr (n, savedErrno, b) \<Rightarrow>
          let c1 = c\<lparr>tc_input := b\<rparr>
          in if 0 < n then messageCallback c1 receiveTime
             else if n = 0 then Some (handleClose c1)
             else Some (Inr (c1\<lparr>sk_errno := savedErrno\<rparr>)))"

text \<open>One functor of the loop's queue.\<close>

definition run_task :: "'k task \<Rightarrow> ('x, 'k) TcpConnection \<Rightarrow> ('x, 'k) TcpConnection result" where
  "run_task f c = (case f of
       T_writeComplete cb \<Rightarrow> Inr (emit [Ev_writeCompleteCallback cb] c)
     | T_highWaterMark n \<Rightarrow> Inr (emit [Ev_highWaterMarkCallback n] c)
     | T_handleWrite \<Rightarrow> handleWrite c
     | T_forceClose \<Rightarrow> forceCloseInLoop c)"

definition run_pending :: "('x, 'k) TcpConnection \<Rightarrow> ('x, 'k) TcpConnection result" where
  "run_pending c = (case tc_pending c of
       [] \<Rightarrow> Inr c
     | f # fs \<Rightarrow> run_task f (c\<lparr>tc_pending := fs\<rparr>))"


section \<open>The invariant and the stream\<close>

text \<open>
  The bytes a connection has taken over and not lost: those the kernel has, then those in the
  output buffer.
\<close>

definition stream :: "('x, 'k) TcpConnection \<Rightarrow> bytes" where
  "stream c = sk_wire c @ contents (tc_output c)"

definition is_open :: "('x, 'k) TcpConnection \<Rightarrow> bool" where
  "is_open c \<longleftrightarrow> tc_state c = kConnected \<or> tc_state c = kDisconnecting"

definition conn_inv :: "('x, 'k) TcpConnection \<Rightarrow> bool" where
  "conn_inv c \<longleftrightarrow> buf_ok (tc_input c) \<and> buf_ok (tc_output c) \<and>
     (is_open c \<longrightarrow> isReading (tc_channel c) \<and>
                    (isWriting (tc_channel c) \<longleftrightarrow> contents (tc_output c) \<noteq> [])) \<and>
     (\<not> is_open c \<longrightarrow> isNoneEvent (tc_channel c)) \<and>
     (tc_state c = kConnecting \<longrightarrow> contents (tc_output c) = []) \<and>
     (sk_shut c \<longrightarrow> contents (tc_output c) = [] \<and>
                     (tc_state c = kDisconnecting \<or> tc_state c = kDisconnected))"

lemma isNoneEvent_bits: "isNoneEvent ch \<Longrightarrow> \<not> isWriting ch \<and> \<not> isReading ch"
  by (simp add: isNoneEvent_def isWriting_def isReading_def kNoneEvent_def)

lemma inv_writing: "conn_inv c \<Longrightarrow> isWriting (tc_channel c) \<Longrightarrow> is_open c \<and> contents (tc_output c) \<noteq> []"
  using isNoneEvent_bits by (auto simp: conn_inv_def)

lemma inv_writing_not_shut: "conn_inv c \<Longrightarrow> isWriting (tc_channel c) \<Longrightarrow> \<not> sk_shut c"
  using inv_writing [of c] unfolding conn_inv_def by blast

lemma inv_open: "conn_inv c \<Longrightarrow> is_open c \<Longrightarrow> isWriting (tc_channel c) \<longleftrightarrow> contents (tc_output c) \<noteq> []"
  by (simp add: conn_inv_def)

lemma out_bytes_contents: "buf_ok (tc_output c) \<Longrightarrow> out_bytes c = contents (tc_output c)"
  using contents_prefix [of "tc_output c" "length (contents (tc_output c))"]
  by (simp add: out_bytes_def readable_contents del: length_contents)

lemmas conn_ops = emit_def queueInLoop_def set_channel_def shutdownInLoop_def is_open_def

text \<open>Updates that matter neither to the invariant nor to the stream.\<close>

lemma conn_inv_cong:
  assumes "tc_state c' = tc_state c" and "tc_channel c' = tc_channel c" and "tc_input c' = tc_input c"
    and "tc_output c' = tc_output c" and "sk_shut c' = sk_shut c"
  shows "conn_inv c' = conn_inv c"
  unfolding conn_inv_def is_open_def assms by (rule refl)

lemma conn_inv_irrelevant [simp]:
  "conn_inv (emit evs c) = conn_inv c"
  "conn_inv (queueInLoop f c) = conn_inv c"
  "conn_inv (c\<lparr>tc_pending := p\<rparr>) = conn_inv c"
  "conn_inv (c\<lparr>sk_replies := rs\<rparr>) = conn_inv c"
  "conn_inv (c\<lparr>sk_errno := e\<rparr>) = conn_inv c"
  "conn_inv (c\<lparr>sk_wire := w\<rparr>) = conn_inv c"
  by (rule conn_inv_cong; simp add: emit_def queueInLoop_def)+

lemma stream_irrelevant [simp]:
  "stream (emit evs c) = stream c" "stream (queueInLoop f c) = stream c"
  "stream (c\<lparr>tc_pending := p\<rparr>) = stream c" "stream (c\<lparr>sk_replies := rs\<rparr>) = stream c"
  "stream (c\<lparr>sk_errno := e\<rparr>) = stream c"
  by (simp_all add: stream_def emit_def queueInLoop_def)

lemma state_irrelevant [simp]:
  "tc_state (emit evs c) = tc_state c" "tc_state (queueInLoop f c) = tc_state c"
  "tc_state (set_channel ch c) = tc_state c" "stream (set_channel ch c) = stream c"
  by (simp_all add: stream_def emit_def queueInLoop_def set_channel_def)

lemma handleClose_ok:
  assumes "conn_inv c" and "is_open c"
  shows "\<exists>c'. handleClose c = Inr c' \<and> conn_inv c' \<and> stream c' = stream c \<and>
           tc_state c' = kDisconnected \<and> sk_shut c' = sk_shut c"
  using assms by (auto simp: handleClose_def conn_inv_def stream_def conn_ops)

lemma shutdownInLoop_ok:
  assumes "conn_inv c" and "tc_state c = kDisconnecting"
  shows "conn_inv (shutdownInLoop c)" "stream (shutdownInLoop c) = stream c"
    "tc_state (shutdownInLoop c) = tc_state c"
  using assms by (auto simp: shutdownInLoop_def conn_inv_def stream_def is_open_def)

lemma sys_write_cases:
  assumes "\<not> sk_shut c" and "sys_write c d = (n, c1)"
  obtains (ok) k rs where "n = int k" "k \<le> length d"
      "c1 = c\<lparr>sk_replies := rs, sk_wire := sk_wire c @ take k d\<rparr>"
    | (err) e rs where "n = -1" "c1 = c\<lparr>sk_replies := rs, sk_errno := e\<rparr>"
proof (cases "sk_replies c")
  case Nil
  then show ?thesis
    using assms by (intro err [of EAGAIN "[]"]) (auto simp: sys_write_def)
next
  case (Cons r rs)
  show ?thesis
  proof (cases r)
    case (Write_Ok m)
    have "take m d = take (min m (length d)) d" by (simp add: min_def)
    then show ?thesis
      using assms Cons Write_Ok by (intro ok [of "min m (length d)" rs]) (auto simp: sys_write_def)
  next
    case (Write_Err e)
    then show ?thesis
      using assms Cons by (intro err [of e rs]) (auto simp: sys_write_def)
  qed
qed

text \<open>What one successful \<^verbatim>\<open>write\<close> of the output buffer leaves.\<close>

lemma drained_ok:
  assumes inv: "conn_inv c" and w: "isWriting (tc_channel c)" and k: "0 < k" "k \<le> length (contents (tc_output c))"
    and c1: "c1 = c\<lparr>sk_replies := rs, sk_wire := sk_wire c @ take k (contents (tc_output c))\<rparr>"
  obtains out where "retrieve (tc_output c1) k = Inr out" "buf_ok out"
    "contents out = drop k (contents (tc_output c))" "readableBytes out = length (contents out)"
    "stream (c1\<lparr>tc_output := out\<rparr>) = stream c"
    "contents out = [] \<Longrightarrow> conn_inv (set_channel (disableWriting (tc_channel c1)) (c1\<lparr>tc_output := out\<rparr>))"
    "contents out \<noteq> [] \<Longrightarrow> conn_inv (c1\<lparr>tc_output := out\<rparr>)"
proof -
  have ok: "buf_ok (tc_output c)" using inv by (simp add: conn_inv_def)
  obtain out where out: "retrieve (tc_output c) k = Inr out" "buf_ok out"
    "contents out = drop k (contents (tc_output c))"
    using retrieve_ok [OF ok k(2)] by auto
  have o: "is_open c" using inv_writing [OF inv w] by simp
  have shut: "\<not> sk_shut c" by (rule inv_writing_not_shut [OF inv w])
  show ?thesis
  proof (rule that [of out])
    show "retrieve (tc_output c1) k = Inr out" using out(1) c1 by simp
    show "stream (c1\<lparr>tc_output := out\<rparr>) = stream c" by (simp add: stream_def c1 out(3))
    show "conn_inv (set_channel (disableWriting (tc_channel c1)) (c1\<lparr>tc_output := out\<rparr>))"
      if "contents out = []"
      using that inv o out(2) shut by (auto simp: conn_inv_def conn_ops c1)
    show "conn_inv (c1\<lparr>tc_output := out\<rparr>)" if "contents out \<noteq> []"
      using that inv o out(2) shut w by (auto simp: conn_inv_def conn_ops c1)
      show "readableBytes out = length (contents out)" by (rule readable_contents [OF out(2)])
  qed (use out in auto)
qed

lemma handleWrite_ok:
  assumes inv: "conn_inv c"
  shows "\<exists>c'. handleWrite c = Inr c' \<and> conn_inv c' \<and> stream c' = stream c \<and>
           (tc_state c' = tc_state c \<or> tc_state c' = kDisconnected)"
proof (cases "isWriting (tc_channel c)")
  case False
  with inv show ?thesis by (simp add: handleWrite_def)
next
  case True
  have ok: "buf_ok (tc_output c)" using inv by (simp add: conn_inv_def)
  have o: "is_open c" using inv_writing [OF inv True] by simp
  obtain n c1 where nc: "sys_write c (contents (tc_output c)) = (n, c1)"
    by (cases "sys_write c (contents (tc_output c))")
  note ob = out_bytes_contents [OF ok]
  have close: "\<exists>c'. (if P then handleClose c1 else Inr c1) = Inr c' \<and> conn_inv c' \<and>
      stream c' = stream c \<and> (tc_state c' = tc_state c \<or> tc_state c' = kDisconnected)"
    if "conn_inv c1" "stream c1 = stream c" "tc_state c1 = tc_state c" for P
    using that o handleClose_ok [of c1] by (auto simp: is_open_def)
  show ?thesis
    using inv_writing_not_shut [OF inv True] nc
  proof (cases rule: sys_write_cases)
    case (err e rs)
    then have "handleWrite c =
        (if sk_errno c1 \<noteq> EWOULDBLOCK \<and> sk_errno c1 \<noteq> EAGAIN \<and>
            (sk_errno c1 = EPIPE \<or> sk_errno c1 = ECONNRESET) then handleClose c1 else Inr c1)"
      using True nc by (simp add: handleWrite_def ob)
    then show ?thesis using close inv err(2) by simp
  next
    case (ok k rs)
    show ?thesis
    proof (cases "0 < k")
      case False
      then have "c1 = c\<lparr>sk_replies := rs, sk_wire := sk_wire c\<rparr>" using ok by simp
      then have c1: "conn_inv c1" "stream c1 = stream c" "tc_state c1 = tc_state c"
        using inv by (simp_all add: stream_def)
      have "handleWrite c =
        (if sk_errno c1 \<noteq> EWOULDBLOCK \<and> sk_errno c1 \<noteq> EAGAIN \<and>
            (sk_errno c1 = EPIPE \<or> sk_errno c1 = ECONNRESET) then handleClose c1 else Inr c1)"
        using True False nc ok(1) by (simp add: handleWrite_def ob)
      then show ?thesis using close [OF c1] by simp
    next
      case k: True
      obtain out where out: "retrieve (tc_output c1) k = Inr out" "buf_ok out"
        "contents out = drop k (contents (tc_output c))" "readableBytes out = length (contents out)"
        "stream (c1\<lparr>tc_output := out\<rparr>) = stream c"
        "contents out = [] \<Longrightarrow> conn_inv (set_channel (disableWriting (tc_channel c1)) (c1\<lparr>tc_output := out\<rparr>))"
        "contents out \<noteq> [] \<Longrightarrow> conn_inv (c1\<lparr>tc_output := out\<rparr>)"
        using drained_ok [OF inv True k ok(2,3)] by metis
      let ?c3 = "set_channel (disableWriting (tc_channel c1)) (c1\<lparr>tc_output := out\<rparr>)"
      let ?c4 = "case tc_writeCompleteCallback ?c3 of
                   Some cb \<Rightarrow> queueInLoop (T_writeComplete cb) ?c3 | None \<Rightarrow> ?c3"
      have hw: "handleWrite c =
          (if contents out = []
           then Inr (if tc_state ?c4 = kDisconnecting then shutdownInLoop ?c4 else ?c4)
           else Inr (queueInLoop T_handleWrite (c1\<lparr>tc_output := out\<rparr>)))"
        using True nc ok(1) k out(1,4) by (simp add: handleWrite_def ob Let_def)
      have st: "tc_state ?c3 = tc_state c" "stream ?c3 = stream c"
        using ok(3) out(5) by (simp_all add: set_channel_def emit_def stream_def)
      show ?thesis
      proof (cases "contents out = []")
        case True
        have c4: "conn_inv ?c4" "stream ?c4 = stream c" "tc_state ?c4 = tc_state c"
          using out(6) [OF True] st by (simp_all split: option.split)
        then show ?thesis
          using hw True shutdownInLoop_ok [OF c4(1)] by auto
      next
        case False
        then show ?thesis
          using hw out(5,7) ok(3) by (simp add: queueInLoop_def stream_def conn_inv_def is_open_def)
      qed
    qed
  qed
qed


section \<open>Sending\<close>

lemma inv_connected:
  "conn_inv c \<Longrightarrow> tc_state c = kConnected \<Longrightarrow>
     \<not> sk_shut c \<and> is_open c \<and> buf_ok (tc_output c) \<and> isReading (tc_channel c)"
  unfolding conn_inv_def is_open_def by auto

lemma send_direct_ok:
  assumes inv: "conn_inv c" and st: "tc_state c = kConnected" and sd: "send_direct c d = (nw, flt, c1)"
  shows "nw \<le> length d \<and> conn_inv c1 \<and> stream c1 = stream c @ take nw d \<and>
         tc_state c1 = kConnected \<and> tc_output c1 = tc_output c"
proof (cases "\<not> isWriting (tc_channel c) \<and> readableBytes (tc_output c) = 0")
  case False
  then show ?thesis using sd inv st by (auto simp: send_direct_def)
next
  case True
  note k = inv_connected [OF inv st]
  have e: "contents (tc_output c) = []"
    using True k by (simp add: readable_contents del: length_contents)
  obtain n c2 where nc: "sys_write c d = (n, c2)" by (cases "sys_write c d")
  show ?thesis
    using k [THEN conjunct1] nc
  proof (cases rule: sys_write_cases)
    case (err er rs)
    then show ?thesis using sd inv st True nc by (auto simp: send_direct_def)
  next
    case (ok m rs)
    have "nw = m" "tc_output c1 = tc_output c" "sk_wire c1 = sk_wire c @ take m d"
      "tc_state c1 = kConnected" "tc_channel c1 = tc_channel c" "tc_input c1 = tc_input c"
      "sk_shut c1 = sk_shut c"
      using sd True nc ok st
      by (auto simp: send_direct_def Let_def queueInLoop_def split: if_splits option.splits)
    then show ?thesis
      using ok(2) e inv st conn_inv_cong [of c1 c] by (simp add: stream_def)
  qed
qed

text \<open>The bytes are dropped when the direct write fails for good.\<close>

definition gives_up :: "('x, 'k) TcpConnection \<Rightarrow> bytes \<Rightarrow> bool" where
  "gives_up c d \<longleftrightarrow> fst (snd (send_direct c d))"

lemma gives_up_nothing_written: "send_direct c d = (nw, True, c1) \<Longrightarrow> nw = 0"
  by (auto simp: send_direct_def Let_def split: if_splits prod.splits)

lemma buffered_ok:
  assumes inv: "conn_inv c" and st: "tc_state c = kConnected" and out: "buf_ok out" "contents out \<noteq> []"
  defines "c1 \<equiv> c\<lparr>tc_output := out\<rparr>"
  shows "conn_inv (if \<not> isWriting (tc_channel c1)
                   then set_channel (enableWriting (tc_channel c1)) c1 else c1)"
  using inv_connected [OF inv st] inv st out unfolding c1_def conn_inv_def is_open_def
  by (auto simp: set_channel_def emit_def)

lemma buffer_rest_ok:
  assumes inv: "conn_inv c" and st: "tc_state c = kConnected"
    and room: "buf_used (tc_output c) + length d \<le> vec_max" and ne: "d \<noteq> []"
  shows "\<exists>c'. buffer_rest c d = Inr c' \<and> conn_inv c' \<and> stream c' = stream c @ d \<and>
           (tc_state c' = kConnected \<or> tc_state c' = kDisconnected)"
proof -
  obtain out where out: "append_buf (tc_output c) d = Inr out" "buf_ok out"
    "contents out = contents (tc_output c) @ d"
    using append_buf_ok [OF _ room] inv_connected [OF inv st] by auto
  let ?c1 = "c\<lparr>tc_output := out\<rparr>"
  define c2 where "c2 = (if \<not> isWriting (tc_channel ?c1)
    then set_channel (enableWriting (tc_channel ?c1)) ?c1 else ?c1)"
  have "conn_inv c2"
    using buffered_ok [OF inv st out(2)] out(3) ne by (simp add: c2_def)
  moreover have "stream ?c1 = stream c @ d"
    by (simp add: stream_def out(3))
  then have "stream c2 = stream c @ d" "tc_state c2 = kConnected"
    using st by (simp_all add: c2_def)
  moreover have "buffer_rest c d = handleWrite c2"
    using out(1) by (simp add: buffer_rest_def c2_def)
  ultimately show ?thesis
    using handleWrite_ok [of c2] by auto
qed

lemma sendInLoop_ok:
  assumes inv: "conn_inv c" and st: "tc_state c = kConnected"
    and room: "buf_used (tc_output c) + length d \<le> vec_max"
  shows "\<exists>c'. sendInLoop c d = Inr c' \<and> conn_inv c' \<and>
           stream c' = (if gives_up c d then stream c else stream c @ d) \<and>
           (tc_state c' = kConnected \<or> tc_state c' = kDisconnected)"
proof -
  obtain nw flt c1 where sd: "send_direct c d = (nw, flt, c1)" by (cases "send_direct c d")
  note k = send_direct_ok [OF inv st sd]
  have g: "gives_up c d = flt" using sd by (simp add: gives_up_def)
  have rem: "sz_sub (length d) nw = length d - nw" using k by (simp add: sz_sub_exact)
  show ?thesis
  proof (cases "\<not> flt \<and> nw < length d")
    case False
    then have "sendInLoop c d = Inr c1"
      using sd st rem by (auto simp: sendInLoop_def)
    moreover have "flt \<Longrightarrow> nw = 0" using sd gives_up_nothing_written by metis
    ultimately show ?thesis using k False g by auto
  next
    case True
    define c2 where "c2 = note_high_water c1 (length d - nw)"
    have c2: "conn_inv c2" "stream c2 = stream c @ take nw d" "tc_state c2 = kConnected"
      "tc_output c2 = tc_output c"
      using k by (simp_all add: c2_def note_high_water_def Let_def) (simp_all add: queueInLoop_def)
    have "buf_used (tc_output c2) + length (drop nw d) \<le> vec_max" using room c2(4) by simp
    moreover have "sendInLoop c d = buffer_rest c2 (drop nw d)"
      using True sd st rem by (simp add: sendInLoop_def c2_def)
    ultimately show ?thesis
      using buffer_rest_ok [OF c2(1,3), of "drop nw d"] True g c2(2) by auto
  qed
qed

section \<open>Reachable connections\<close>

text \<open>
  What can happen to a connection on its loop: \<open>reach ms c\<close> says that the connection can be in
  state \<open>c\<close> after the concatenation of the sends it accepted is \<open>ms\<close>.  A send needs the memory for
  its bytes.  The operations a message callback performs are steps of their own.
\<close>

inductive reach :: "bytes \<Rightarrow> ('x, 'k) TcpConnection \<Rightarrow> bool" where
  fresh: "reach [] (mkTcpConnection fd wc replies)"
| hwm: "reach ms c \<Longrightarrow> reach ms (setHighWaterMarkCallback c n)"
| wcc: "reach ms c \<Longrightarrow> reach ms (setWriteCompleteCallback cb c)"
| established: "reach ms c \<Longrightarrow> connectEstablished c = Inr c' \<Longrightarrow> reach ms c'"
| send: "reach ms c \<Longrightarrow> buf_used (tc_output c) + length d \<le> vec_max \<Longrightarrow> send_conn c d = Inr c' \<Longrightarrow>
         reach (if tc_state c = kConnected \<and> \<not> gives_up c d then ms @ d else ms) c'"
| shutdown: "reach ms c \<Longrightarrow> reach ms (shutdown_conn c)"
| force: "reach ms c \<Longrightarrow> reach ms (forceClose c)"
| readable: "reach ms c \<Longrightarrow> length (buffer (tc_input c)) + length d \<le> vec_max \<Longrightarrow>
             length d \<le> readv_capacity (tc_input c) \<Longrightarrow>
             handleRead (\<lambda>c t. Some (Inr c)) c (Read_Bytes d) t = Some (Inr c') \<Longrightarrow> reach ms c'"
| unreadable: "reach ms c \<Longrightarrow> handleRead cb c (Read_Error e) t = Some (Inr c') \<Longrightarrow> reach ms c'"
| parsed: "reach ms c \<Longrightarrow> buf_ok b \<Longrightarrow> reach ms (c\<lparr>tc_input := b, tc_context := x\<rparr>)"
| writable: "reach ms c \<Longrightarrow> handleWrite c = Inr c' \<Longrightarrow> reach ms c'"
| hangup: "reach ms c \<Longrightarrow> handleClose c = Inr c' \<Longrightarrow> reach ms c'"
| pending: "reach ms c \<Longrightarrow> run_pending c = Inr c' \<Longrightarrow> reach ms c'"
| destroyed: "reach ms c \<Longrightarrow> connectDestroyed c = Inr c' \<Longrightarrow> reach ms c'"

lemma fresh_ok: "conn_inv (mkTcpConnection fd wc rs)" "stream (mkTcpConnection fd wc rs) = []"
  by (simp_all add: conn_inv_def is_open_def mkTcpConnection_def stream_def)
    (simp add: isNoneEvent_def mkChannel_def kNoneEvent_def)

lemma connectEstablished_ok:
  assumes "conn_inv c" and "connectEstablished c = Inr c'"
  shows "conn_inv c' \<and> stream c' = stream c"
proof -
  have st: "tc_state c = kConnecting" and
    c': "c' = emit [Ev_connectionCallback kConnected]
      (set_channel (enableReading (channel_tie (tc_channel c))) (c\<lparr>tc_state := kConnected\<rparr>))"
    using assms(2) by (auto simp: connectEstablished_def result_iff)
  have "isNoneEvent (tc_channel c)" "contents (tc_output c) = []" "\<not> sk_shut c"
    using assms(1) st unfolding conn_inv_def is_open_def by auto
  then show ?thesis
    using assms(1) isNoneEvent_bits unfolding c' conn_inv_def is_open_def
    by (auto simp: set_channel_def emit_def stream_def)
qed

lemma shutdown_conn_ok:
  assumes "conn_inv c"
  shows "conn_inv (shutdown_conn c) \<and> stream (shutdown_conn c) = stream c"
proof (cases "tc_state c = kConnected")
  case True
  then have "conn_inv (c\<lparr>tc_state := kDisconnecting\<rparr>)"
    using assms unfolding conn_inv_def is_open_def by auto
  then show ?thesis
    using True shutdownInLoop_ok [of "c\<lparr>tc_state := kDisconnecting\<rparr>"]
    by (simp add: shutdown_conn_def stream_def)
qed (use assms in \<open>simp add: shutdown_conn_def\<close>)

lemma forceClose_ok: "conn_inv c \<Longrightarrow> conn_inv (forceClose c) \<and> stream (forceClose c) = stream c"
  unfolding conn_inv_def is_open_def by (auto simp: forceClose_def queueInLoop_def stream_def)

lemma handleClose_inv: "conn_inv c \<Longrightarrow> handleClose c = Inr c' \<Longrightarrow> conn_inv c' \<and> stream c' = stream c"
  using handleClose_ok [of c] by (auto simp: handleClose_def is_open_def result_iff)

lemma input_irrelevant:
  "conn_inv c \<Longrightarrow> buf_ok b \<Longrightarrow> conn_inv (c\<lparr>tc_input := b\<rparr>) \<and> stream (c\<lparr>tc_input := b\<rparr>) = stream c"
  "conn_inv c \<Longrightarrow> buf_ok b \<Longrightarrow> conn_inv (c\<lparr>tc_input := b, tc_context := x\<rparr>) \<and>
     stream (c\<lparr>tc_input := b, tc_context := x\<rparr>) = stream c"
  unfolding conn_inv_def is_open_def by (auto simp: stream_def)

lemma handleRead_ok:
  assumes inv: "conn_inv c" and "length (buffer (tc_input c)) + length d \<le> vec_max"
    and "length d \<le> readv_capacity (tc_input c)"
    and hr: "handleRead (\<lambda>c t. Some (Inr c)) c (Read_Bytes d) t = Some (Inr c')"
  shows "conn_inv c' \<and> stream c' = stream c"
proof -
  have "buf_ok (tc_input c)" using inv by (simp add: conn_inv_def)
  from readFd_ok [OF this assms(3,2), of 0] obtain b where
    b: "readFd (tc_input c) 0 (Read_Bytes d) = Inr (int (length d), 0, b)" "buf_ok b" by auto
  note i = input_irrelevant(1) [OF inv b(2)]
  show ?thesis
  proof (cases "d = []")
    case True
    then have "handleClose (c\<lparr>tc_input := b\<rparr>) = Inr c'"
      using hr b(1) by (simp add: handleRead_def)
    then show ?thesis using i handleClose_inv by metis
  next
    case False
    then show ?thesis using hr b(1) i by (simp add: handleRead_def)
  qed
qed

lemma run_pending_ok:
  assumes inv: "conn_inv c" and rp: "run_pending c = Inr c'"
  shows "conn_inv c' \<and> stream c' = stream c"
proof (cases "tc_pending c")
  case (Cons f fs)
  let ?c = "c\<lparr>tc_pending := fs\<rparr>"
  have i: "conn_inv ?c" "stream ?c = stream c" using inv by simp_all
  show ?thesis
  proof (cases f)
    case T_handleWrite
    then show ?thesis using handleWrite_ok [OF i(1)] rp Cons i by (auto simp: run_pending_def run_task_def)
  next
    case T_forceClose
    then show ?thesis
      using rp Cons i handleClose_inv [OF i(1)]
      by (auto simp: run_pending_def run_task_def forceCloseInLoop_def split: if_splits)
  qed (use rp Cons i in \<open>auto simp: run_pending_def run_task_def\<close>)
qed (use inv rp in \<open>simp add: run_pending_def\<close>)

lemma connectDestroyed_ok:
  assumes "conn_inv c"
  shows "(\<exists>c'. connectDestroyed c = Inr c') \<longleftrightarrow>
      tc_state c = kConnected \<or> tc_state c \<noteq> kDisconnecting \<and> addedToLoop (tc_channel c)"
    "connectDestroyed c = Inr c' \<Longrightarrow> conn_inv c' \<and> stream c' = stream c"
proof -
  have none: "isNoneEvent (tc_channel c)" if "tc_state c \<noteq> kConnected" "tc_state c \<noteq> kDisconnecting"
    using that assms unfolding conn_inv_def is_open_def by blast
  have rd: "\<not> isNoneEvent (tc_channel c)" if "tc_state c = kDisconnecting"
    using that assms isNoneEvent_bits unfolding conn_inv_def is_open_def by blast
  show "(\<exists>c'. connectDestroyed c = Inr c') \<longleftrightarrow> tc_state c = kConnected \<or> tc_state c \<noteq> kDisconnecting \<and> addedToLoop (tc_channel c)"
    using none rd by (cases "tc_state c")
      (auto simp: connectDestroyed_def channel_remove_def set_channel_def emit_def disableAll_def channel_update_def isNoneEvent_def
        result_iff)
  assume cd: "connectDestroyed c = Inr c'"
  then have nd: "tc_state c \<noteq> kDisconnecting"
    using rd by (auto simp: connectDestroyed_def channel_remove_def)
  have none': "isNoneEvent (ch\<lparr>addedToLoop := False\<rparr>) = isNoneEvent ch" for ch
    by (simp add: isNoneEvent_def)
  show "conn_inv c' \<and> stream c' = stream c"
    using cd nd none assms unfolding conn_inv_def is_open_def
    by (cases "tc_state c")
      (auto simp: connectDestroyed_def channel_remove_def set_channel_def emit_def result_iff
        stream_def none')
qed

lemma reach_inv: "reach ms c \<Longrightarrow> conn_inv c \<and> stream c = ms"
proof (induction rule: reach.induct)
  case (hwm ms c n)
  then show ?case
    using conn_inv_cong [of "setHighWaterMarkCallback c n" c]
    by (simp add: setHighWaterMarkCallback_def stream_def)
next
  case (wcc ms c cb)
  then show ?case
    using conn_inv_cong [of "setWriteCompleteCallback cb c" c]
    by (simp add: setWriteCompleteCallback_def stream_def)
next
  case (send ms c d c')
  then show ?case
    using sendInLoop_ok [of c d] by (auto simp: send_conn_def split: if_splits)
next
  case (readable ms c d t c')
  then show ?case using handleRead_ok [of c d t c'] by simp
next
  case (unreadable ms c cb e t c')
  then have "c' = c\<lparr>tc_input := tc_input c, sk_errno := e\<rparr>"
    by (simp add: handleRead_def readFd_def)
  then show ?case using unreadable by simp
next
  case (writable ms c c')
  then show ?case using handleWrite_ok [of c] by auto
next
  case (destroyed ms c c')
  then show ?case using connectDestroyed_ok(2) [of c c'] by simp
qed (auto simp: fresh_ok dest: connectEstablished_ok shutdown_conn_ok forceClose_ok input_irrelevant(2)
    handleClose_inv run_pending_ok)

text \<open>
  C2 (invariant). In every reachable state of a connection the bytes the kernel has taken followed by
  the bytes in the output buffer are exactly the bytes of the accepted sends, in order: none is
  lost, doubled or reordered by partial writes, retries or buffering.  Write interest is registered
  exactly while an open connection has something to write, and the write end is shut down only
  after every accepted byte has been handed to the kernel.
\<close>

theorem connection_stream_invariant:
  assumes "reach ms c"
  shows "sk_wire c @ contents (tc_output c) = ms \<and>
         (tc_state c = kConnected \<or> tc_state c = kDisconnecting \<longrightarrow>
            (isWriting (tc_channel c) \<longleftrightarrow> contents (tc_output c) \<noteq> [])) \<and>
         (sk_shut c \<longrightarrow> sk_wire c = ms)"
  using reach_inv [OF assms] unfolding stream_def conn_inv_def is_open_def by auto

text \<open>A connection that is established and sends once.\<close>

lemma reach_one_send:
  fixes wc :: "'k option"
  assumes room: "8 + length d \<le> vec_max" and good: "\<forall>e. Write_Err e \<notin> set rs"
  shows "\<exists>c :: ('x, 'k) TcpConnection. reach d c \<and> tc_state c \<noteq> kConnecting"
proof -
  let ?c0 = "mkTcpConnection 5 wc rs :: ('x, 'k) TcpConnection"
  obtain c1 where c1: "connectEstablished ?c0 = Inr c1" "tc_state c1 = kConnected"
    "tc_output c1 = emptyBuffer" "sk_replies c1 = rs" "\<not> sk_shut c1"
    by (simp add: connectEstablished_def mkTcpConnection_def emit_def set_channel_def)
  have r: "reach [] c1" by (rule reach.established [OF reach.fresh c1(1)])
  have "sk_errno (snd (sys_write c1 d)) = EAGAIN" if "fst (sys_write c1 d) < 0"
    using that c1(4,5) good by (auto simp: sys_write_def split: list.splits write_reply.splits)
  then have g: "\<not> gives_up c1 d"
    by (auto simp: gives_up_def send_direct_def Let_def split: prod.splits)
  have u: "buf_used (tc_output c1) + length d \<le> vec_max" using room c1(3) by simp
  obtain c2 where c2: "sendInLoop c1 d = Inr c2" "tc_state c2 = kConnected \<or> tc_state c2 = kDisconnected"
    using sendInLoop_ok [OF reach_inv [OF r, THEN conjunct1] c1(2) u] by auto
  have "reach d c2"
    using reach.send [OF r u, of c2] c1(2) c2(1) g by (simp add: send_conn_def)
  with c2(2) show ?thesis by auto
qed

theorem connection_stream_invariant_witness:
  "\<exists>c :: (nat, nat) TcpConnection. reach ''response'' c \<and>
     sk_wire c @ contents (tc_output c) = ''response'' \<and> (sk_shut c \<longrightarrow> sk_wire c = ''response'')"
proof -
  obtain c :: "(nat, nat) TcpConnection" where c: "reach ''response'' c"
    using reach_one_send [of "''response''" "[Write_Ok 3]"] by (auto simp: vec_max_def)
  show ?thesis using connection_stream_invariant [OF c] c by blast
qed

section \<open>Registration\<close>

text \<open>A connection whose channel the poller has: it has been established and not destroyed.\<close>

definition registered :: "('x, 'k) TcpConnection \<Rightarrow> bool" where
  "registered c \<longleftrightarrow> tc_state c \<noteq> kConnecting \<and> addedToLoop (tc_channel c) \<and> Ev_remove \<notin> set (tc_log c)"

definition registration :: "('x, 'k) TcpConnection \<Rightarrow> bool" where
  "registration c \<longleftrightarrow> (is_open c \<longrightarrow> registered c) \<and> (tc_state c = kConnecting \<longrightarrow> \<not> addedToLoop (tc_channel c) \<and> Ev_remove \<notin> set (tc_log c)) \<and>
     (tc_state c = kDisconnected \<longrightarrow> (addedToLoop (tc_channel c) \<longleftrightarrow> Ev_remove \<notin> set (tc_log c)))"

lemma registered_registration: "registered c \<Longrightarrow> registration c"
  by (simp add: registered_def registration_def)

lemma registration_cong:
  assumes "tc_state c' = tc_state c" and "tc_channel c' = tc_channel c" and "tc_log c' = tc_log c"
  shows "registration c' = registration c" "registered c' = registered c"
  unfolding registration_def registered_def is_open_def assms by (rule refl)+

lemma registered_updates [simp]:
  "registered (emit evs c) \<longleftrightarrow> registered c \<and> Ev_remove \<notin> set evs"
  "registered (queueInLoop f c) = registered c"
  "registered (c\<lparr>sk_shut := b\<rparr>) = registered c" "registered (c\<lparr>tc_output := ob\<rparr>) = registered c" "registered (c\<lparr>tc_pending := fs\<rparr>) = registered c"
  "registered (shutdownInLoop c) = registered c"
  by (auto simp: registered_def emit_def queueInLoop_def set_channel_def shutdownInLoop_def)

lemma registered_set_channel [simp]: "registered c \<Longrightarrow> addedToLoop ch \<Longrightarrow> registered (set_channel ch c)"
  by (simp add: registered_def set_channel_def emit_def)

lemma updates_add [simp]:
  "addedToLoop (enableReading ch)" "addedToLoop (enableWriting ch)" "addedToLoop (disableWriting ch)" "addedToLoop (disableAll ch)"
  by (simp_all add: enableReading_def enableWriting_def disableWriting_def disableAll_def channel_update_def)

text \<open>An operation that, if it returns, returns a registered connection.\<close>

definition stays_registered :: "('x, 'k) TcpConnection result \<Rightarrow> bool" where
  "stays_registered r \<longleftrightarrow> (\<forall>c. r = Inr c \<longrightarrow> registered c)"

lemma stays_Inr [simp]: "stays_registered (Inr c) = registered c"
  by (simp add: stays_registered_def)

lemma stays_rbind: "(\<And>x. m = Inr x \<Longrightarrow> stays_registered (f x)) \<Longrightarrow> stays_registered (rbind m f)"
  by (cases m) (simp_all add: stays_registered_def)

lemma sys_write_registered [simp]: "registered (snd (sys_write c d)) = registered c"
  by (auto simp: sys_write_def registered_def split: list.split write_reply.split)

lemma handleClose_registered: "registered c \<Longrightarrow> stays_registered (handleClose c)"
  unfolding handleClose_def by (rule stays_rbind) (simp add: registered_def set_channel_def emit_def)

lemma registered_task: "registered c \<Longrightarrow> registered (case wc of None \<Rightarrow> c | Some cb \<Rightarrow> queueInLoop (T_writeComplete cb) c)"
  by (simp split: option.split)

lemma handleWrite_registered: "registered c \<Longrightarrow> stays_registered (handleWrite c)"
proof -
  assume r: "registered c"
  obtain n c1 where w: "sys_write c (out_bytes c) = (n, c1)" by fastforce
  have r1: "registered c1" using r sys_write_registered [of c "out_bytes c"] w by simp
  then have r2: "registered (c1\<lparr>tc_output := b\<rparr>)" for b by simp
  then have r3: "registered (set_channel (disableWriting ch) (c1\<lparr>tc_output := b\<rparr>))" for b ch by simp
  show ?thesis
    unfolding handleWrite_def w Let_def prod.case
    using r r1 r2 registered_task [OF r3] handleClose_registered [OF r1] by (auto intro!: stays_rbind)
qed

lemma send_direct_registered: "registered c \<Longrightarrow> registered (snd (snd (send_direct c d)))"
  by (simp add: send_direct_def Let_def split_def split: option.split)

lemma buffer_rest_registered: "registered c \<Longrightarrow> stays_registered (buffer_rest c d)"
  unfolding buffer_rest_def Let_def by (intro stays_rbind handleWrite_registered) simp

lemma sendInLoop_registered: "registered c \<Longrightarrow> stays_registered (sendInLoop c d)"
proof -
  assume r: "registered c"
  obtain n f c1 where d: "send_direct c d = (n, f, c1)" by (metis prod_cases3)
  have r1: "registered c1" using send_direct_registered [OF r, of d] d by simp
  then have "registered (note_high_water c1 k)" for k by (simp add: note_high_water_def Let_def)
  then show ?thesis using r r1 by (simp add: sendInLoop_def d Let_def buffer_rest_registered)
qed

lemma run_pending_registered: "registered c \<Longrightarrow> stays_registered (run_pending c)"
  by (auto simp: run_pending_def run_task_def forceCloseInLoop_def handleWrite_registered handleClose_registered split: list.split task.split)

text \<open>A connection that is not open has no write interest, so that the operations leave it alone.\<close>

lemma closed_write: "conn_inv c \<Longrightarrow> \<not> is_open c \<Longrightarrow> handleWrite c = Inr c"
  using inv_writing [of c] by (auto simp: handleWrite_def)

lemma closed_pending:
  assumes "conn_inv c" "\<not> is_open c" "registration c" "run_pending c = Inr c'"
  shows "registration c'"
proof (cases "tc_pending c")
  case (Cons f fs)
  let ?c = "c\<lparr>tc_pending := fs\<rparr>"
  have "conn_inv ?c" "\<not> is_open ?c" using assms(1,2) by (simp_all add: is_open_def)
  then have "handleWrite ?c = Inr ?c" "forceCloseInLoop ?c = Inr ?c" by (simp_all add: closed_write forceCloseInLoop_def is_open_def)
  then have "\<exists>evs. c' = emit evs ?c \<and> Ev_remove \<notin> set evs"
    using assms(4) Cons by (cases f) (auto simp: run_pending_def run_task_def intro: exI [of _ "[]"] simp: emit_def)
  then show ?thesis using assms(3) by (auto simp: registration_def registered_def is_open_def emit_def)
qed (use assms in \<open>simp add: run_pending_def\<close>)

lemma open_or_closed:
  assumes "conn_inv c" "registration c" "registered c \<Longrightarrow> stays_registered r" "\<not> is_open c \<Longrightarrow> r = Inr c" "r = Inr c'"
  shows "registration c'"
  using assms by (cases "is_open c") (auto simp: registration_def [of c] stays_registered_def intro: registered_registration)

lemma shutdown_registration: "registration c \<Longrightarrow> registration (shutdown_conn c)"
  using registered_registration [of "shutdownInLoop (c\<lparr>tc_state := kDisconnecting\<rparr>)"]
  by (auto simp: shutdown_conn_def registration_def [of c] registered_def is_open_def shutdownInLoop_def)

lemma forceClose_registration: "registration c \<Longrightarrow> registration (forceClose c)"
  by (auto simp: forceClose_def registration_def registered_def is_open_def queueInLoop_def)

lemma destroyed_registration:
  assumes "conn_inv c" "registration c" "connectDestroyed c = Inr c'"
  shows "registration c'"
proof -
  have "tc_state c = kConnected \<or> tc_state c \<noteq> kDisconnecting \<and> addedToLoop (tc_channel c)"
    using connectDestroyed_ok(1) [OF assms(1)] assms(3) by blast
  then have "tc_state c = kConnected \<or> tc_state c = kDisconnected"
    using assms(2) by (cases "tc_state c") (auto simp: registration_def)
  then have "tc_state c' = kDisconnected \<and> \<not> addedToLoop (tc_channel c') \<and> Ev_remove \<in> set (tc_log c')"
    using assms(3) by (auto simp: connectDestroyed_def channel_remove_def Let_def result_iff emit_def set_channel_def)
  then show ?thesis by (simp add: registration_def is_open_def)
qed

lemma handleClose_registration: "registration c \<Longrightarrow> handleClose c = Inr c' \<Longrightarrow> registration c'"
  using handleClose_registered [of c]
  by (auto simp: registration_def [of c] stays_registered_def handleClose_def result_iff is_open_def intro: registered_registration)

lemma reach_registration: "reach ms c \<Longrightarrow> registration c"
proof (induction rule: reach.induct)
  case (fresh fd wc replies)
  then show ?case by (simp add: registration_def is_open_def mkTcpConnection_def mkChannel_def)
next
  case (hwm ms c n)
  then show ?case using registration_cong(1) [of "setHighWaterMarkCallback c n" c] by (simp add: setHighWaterMarkCallback_def)
next
  case (wcc ms c cb)
  then show ?case using registration_cong(1) [of "setWriteCompleteCallback cb c" c] by (simp add: setWriteCompleteCallback_def)
next
  case (established ms c c')
  then show ?case
    by (intro registered_registration)
      (auto simp: connectEstablished_def result_iff registration_def registered_def set_channel_def emit_def)
next
  case (send ms c d c')
  have s: "registered c \<Longrightarrow> stays_registered (send_conn c d)" by (simp add: send_conn_def sendInLoop_registered)
  show ?case
    by (rule open_or_closed [OF _ send.IH s _ send.hyps(3)]) (use reach_inv [OF send.hyps(1)] in \<open>auto simp: send_conn_def is_open_def\<close>)
next
  case (readable ms c d t c')
  have "buf_ok (tc_input c)" using reach_inv [OF readable.hyps(1)] by (simp add: conn_inv_def)
  from readFd_ok [OF this readable.hyps(3,2), of 0] obtain b where "readFd (tc_input c) 0 (Read_Bytes d) = Inr (int (length d), 0, b)" by auto
  then have "c' = c\<lparr>tc_input := b\<rparr> \<or> handleClose (c\<lparr>tc_input := b\<rparr>) = Inr c'"
    using readable.hyps(4) by (cases "d = []") (auto simp: handleRead_def)
  moreover have "registration (c\<lparr>tc_input := b\<rparr>)"
    using readable.IH registration_cong(1) [of "c\<lparr>tc_input := b\<rparr>" c] by simp
  ultimately show ?case using handleClose_registration by blast
next
  case (unreadable ms c cb e t c')
  then have "c' = c\<lparr>tc_input := tc_input c, sk_errno := e\<rparr>" by (simp add: handleRead_def readFd_def)
  then show ?case using unreadable.IH registration_cong(1) [of c' c] by simp
next
  case (parsed ms c b x)
  then show ?case using registration_cong(1) [of "c\<lparr>tc_input := b, tc_context := x\<rparr>" c] by simp
next
  case (writable ms c c')
  show ?case
    using open_or_closed [OF _ writable.IH handleWrite_registered closed_write writable.hyps(2)] reach_inv [OF writable.hyps(1)] by simp
next
  case (hangup ms c c')
  then show ?case using handleClose_registration by blast
next
  case (pending ms c c')
  then show ?case
    using closed_pending [of c c'] reach_inv [OF pending.hyps(1)] run_pending_registered [of c]
    by (cases "is_open c") (auto simp: registration_def [of c] stays_registered_def intro: registered_registration)
next
  case (destroyed ms c c')
  then show ?case using destroyed_registration reach_inv by blast
qed (auto intro: shutdown_registration forceClose_registration)

text \<open>
  C27 (safety). Which operation of a reachable connection can fail an assertion, and when.  Sending (given the memory), handling writability
  and the queued functors never do.  \<^verbatim>\<open>connectEstablished\<close> returns exactly on a new connection, \<^verbatim>\<open>handleClose\<close> exactly on an open one, and
  \<^verbatim>\<open>handleRead\<close> (its message callback aside) on an open one or when bytes arrive; on a closed connection the end of the stream aborts.
  \<^verbatim>\<open>connectDestroyed\<close> returns exactly on a connected or closed connection that it has not been called on before: on one that is shutting
  down (the destructor of \<^verbatim>\<open>TcpServer\<close> calls it in any state) it aborts in \<^verbatim>\<open>Channel::remove\<close>, and on a new one or for the
  second time in \<^verbatim>\<open>Poller::removeChannel\<close>.
\<close>

theorem connection_operations_total:
  assumes "reach ms c"
  shows "(buf_used (tc_output c) + length d \<le> vec_max \<longrightarrow> (\<exists>c'. send_conn c d = Inr c')) \<and>
         (\<exists>c'. handleWrite c = Inr c') \<and> (\<exists>c'. run_pending c = Inr c') \<and>
         ((\<exists>c'. connectEstablished c = Inr c') \<longleftrightarrow> tc_state c = kConnecting) \<and>
         ((\<exists>c'. handleClose c = Inr c') \<longleftrightarrow> tc_state c = kConnected \<or> tc_state c = kDisconnecting) \<and>
         (length (buffer (tc_input c)) + length d \<le> vec_max \<longrightarrow> length d \<le> readv_capacity (tc_input c) \<longrightarrow>
            ((\<exists>c'. handleRead (\<lambda>c t. Some (Inr c)) c (Read_Bytes d) t = Some (Inr c')) \<longleftrightarrow>
               d \<noteq> [] \<or> tc_state c = kConnected \<or> tc_state c = kDisconnecting)) \<and>
         (\<exists>c'. handleRead cb c (Read_Error e) t = Some (Inr c')) \<and>
         ((\<exists>c'. connectDestroyed c = Inr c') \<longleftrightarrow>
            tc_state c = kConnected \<or> tc_state c = kDisconnected \<and> Ev_remove \<notin> set (tc_log c))"
proof -
  have inv: "conn_inv c" using reach_inv [OF assms] by simp
  have closes: "(\<exists>c'. handleClose c = Inr c') \<longleftrightarrow> tc_state c = kConnected \<or> tc_state c = kDisconnecting" for c :: "('a, 'b) TcpConnection"
    by (auto simp: handleClose_def result_iff)
  have 1: "\<exists>c'. send_conn c d = Inr c'" if "buf_used (tc_output c) + length d \<le> vec_max"
    using sendInLoop_ok [OF inv _ that] by (cases "tc_state c = kConnected") (auto simp: send_conn_def)
  have 2: "\<exists>c'. handleWrite c = Inr c'" using handleWrite_ok [OF inv] by auto
  have 3: "\<exists>c'. run_pending c = Inr c'"
  proof (cases "tc_pending c")
    case (Cons f fs)
    have i: "conn_inv (c\<lparr>tc_pending := fs\<rparr>)" using inv by simp
    show ?thesis
      using Cons handleWrite_ok [OF i] handleClose_ok [OF i]
      by (cases f) (auto simp: run_pending_def run_task_def forceCloseInLoop_def is_open_def)
  qed (simp add: run_pending_def)
  have 4: "(\<exists>c'. connectEstablished c = Inr c') \<longleftrightarrow> tc_state c = kConnecting" by (auto simp: connectEstablished_def result_iff)
  have 5: "(\<exists>c'. handleRead (\<lambda>c t. Some (Inr c)) c (Read_Bytes d) t = Some (Inr c')) \<longleftrightarrow>
      d \<noteq> [] \<or> tc_state c = kConnected \<or> tc_state c = kDisconnecting"
    if "length (buffer (tc_input c)) + length d \<le> vec_max" "length d \<le> readv_capacity (tc_input c)"
  proof -
    have "buf_ok (tc_input c)" using inv by (simp add: conn_inv_def)
    from readFd_ok [OF this that(2,1), of 0] obtain b where "readFd (tc_input c) 0 (Read_Bytes d) = Inr (int (length d), 0, b)" by auto
    then show ?thesis using closes [of "c\<lparr>tc_input := b\<rparr>"] by (cases "d = []") (simp_all add: handleRead_def)
  qed
  have 6: "(\<exists>c'. connectDestroyed c = Inr c') \<longleftrightarrow> tc_state c = kConnected \<or> tc_state c = kDisconnected \<and> Ev_remove \<notin> set (tc_log c)"
    using connectDestroyed_ok(1) [OF inv] reach_registration [OF assms] by (cases "tc_state c") (auto simp: registration_def)
  have 7: "\<exists>c'. handleRead cb c (Read_Error e) t = Some (Inr c')" by (simp add: handleRead_def readFd_def)
  show ?thesis using 1 2 3 4 5 6 7 closes by blast
qed

text \<open>A connection that is established and closed by the peer, and then destroyed.\<close>

theorem connection_operations_total_witness:
  "\<exists>c c' :: (nat, nat) TcpConnection. reach [] c \<and> tc_state c = kDisconnected \<and> (\<exists>c1. handleWrite c = Inr c1) \<and>
     \<not> (\<exists>c1. handleClose c = Inr c1) \<and> connectDestroyed c = Inr c' \<and> \<not> (\<exists>c1. connectDestroyed c' = Inr c1)"
proof -
  let ?c0 = "mkTcpConnection 5 None [] :: (nat, nat) TcpConnection"
  obtain c1 where c1: "connectEstablished ?c0 = Inr c1" "tc_state c1 = kConnected" "Ev_remove \<notin> set (tc_log c1)"
    by (simp add: connectEstablished_def mkTcpConnection_def emit_def set_channel_def)
  obtain c where c: "handleClose c1 = Inr c" "tc_state c = kDisconnected" "Ev_remove \<notin> set (tc_log c)"
    using c1(2,3) by (simp add: handleClose_def emit_def set_channel_def)
  have r: "reach [] c" by (rule reach.hangup [OF reach.established [OF reach.fresh c1(1)] c(1)])
  note total = connection_operations_total [OF r, of "[]" 0 "\<lambda>c t. None" 0]
  then obtain c' where c': "connectDestroyed c = Inr c'" using c(2,3) by blast
  then have "tc_state c' = kDisconnected" "Ev_remove \<in> set (tc_log c')"
    using c(2) by (auto simp: connectDestroyed_def result_iff emit_def)
  then have "\<not> (\<exists>c1. connectDestroyed c' = Inr c1)"
    using connection_operations_total [OF reach.destroyed [OF r c'], of "[]" 0 "\<lambda>c t. None" 0] by simp
  then show ?thesis using total r c(2) c' by (intro exI [of _ c] exI [of _ c']) auto
qed

end
