(* ===== verification/Http_Server.thy ===== *)
theory Http_Server
  imports Http_Context Http_Response Tcp_Connection
begin

text \<open>
  \<^verbatim>\<open>HttpServer\<close> (\<^verbatim>\<open>src/network/http/HttpServer.cpp\<close>): what happens to a connection's input.  The HTTP
  callback is an argument: it gets the application's state \<open>'s\<close>, the connection (whose context holds
  the parsed request, which the callback may change) and the response, and tells whether it has
  finished the request; like the parser it may not return.
\<close>

type_synonym ('c, 'k) HttpConn = "('c HttpContext, 'k) TcpConnection"

type_synonym ('s, 'c, 'k) HttpCallback =
  "'s \<Rightarrow> ('c, 'k) HttpConn \<Rightarrow> HttpResponse \<Rightarrow> (bool \<times> 's \<times> ('c, 'k) HttpConn \<times> HttpResponse) result option"

section \<open>Definitions\<close>

definition defaultHttpCallback :: "('s, 'c, 'k) HttpCallback" where
  "defaultHttpCallback s conn resp =
     Some (Inr (True, s, conn,
       setCloseConnection True (setStatusMessage ''Not Found'' (setStatusCode k404NotFound resp))))"

definition http_onConnection :: "('c, 'k) HttpConn \<Rightarrow> ('c, 'k) HttpConn" where
  "http_onConnection conn = (if connected conn then conn\<lparr>tc_context := Some mkHttpContext\<rparr> else conn)"

text \<open>The request of the connection's context (the callers have checked that there is one).\<close>

definition conn_request :: "('c, 'k) HttpConn \<Rightarrow> HttpRequest" where
  "conn_request conn = (case tc_context conn of Some ctx \<Rightarrow> hc_request ctx | None \<Rightarrow> mkHttpRequest)"

definition wants_close :: "HttpRequest \<Rightarrow> bool" where
  "wants_close req \<longleftrightarrow>
     (let connection = getHeader req ''Connection''
      in connection = ''close'' \<or> rq_version req = kHttp10 \<and> connection \<noteq> ''Keep-Alive'')"

definition send_response :: "HttpResponse \<Rightarrow> ('c, 'k) HttpConn \<Rightarrow> ('c, 'k) HttpConn result" where
  "send_response response conn =
     rbind (appendToBuffer response emptyBuffer) (\<lambda>buf.
     rbind (send_buffer conn buf) (\<lambda>(conn', _).
     Inr (if rs_closeConnection response then shutdown_conn conn' else conn')))"

definition onRequest ::
  "('s, 'c, 'k) HttpCallback \<Rightarrow> 's \<Rightarrow> ('c, 'k) HttpConn \<Rightarrow> (bool \<times> 's \<times> ('c, 'k) HttpConn) result option" where
  "onRequest httpCallback s conn =
     (case httpCallback s conn (mkHttpResponse (wants_close (conn_request conn))) of
        None \<Rightarrow> None
      | Some (Inl e) \<Rightarrow> Some (Inl e)
      | Some (Inr (syncProcessed, s', conn', response)) \<Rightarrow>
          Some (if syncProcessed
                then rbind (send_response response conn') (\<lambda>conn''. Inr (True, s', conn''))
                else Inr (False, s', conn')))"

definition bad_request :: bytes where
  "bad_request = ''HTTP/1.1 400 Bad Request'' @ kCRLF @ kCRLF"

text \<open>A part of an upload that is large enough is handed to the callback before the request is complete.\<close>

definition is_upload_chunk :: "('c, 'k) HttpConn \<Rightarrow> bool" where
  "is_upload_chunk conn \<longleftrightarrow>
     (case tc_context conn of
        Some ctx \<Rightarrow> expectBody ctx \<and> rq_path (hc_request ctx) = ''/upload'' \<and>
                    rq_method (hc_request ctx) = kPost \<and> 1024 * 1024 \<le> length (rq_body (hc_request ctx))
      | None \<Rightarrow> False)"

definition reset_conn :: "('c, 'k) HttpConn \<Rightarrow> ('c, 'k) HttpConn" where
  "reset_conn conn = conn\<lparr>tc_context := map_option reset_context (tc_context conn)\<rparr>"

definition onMessage ::
  "('s, 'c, 'k) HttpCallback \<Rightarrow> 's \<Rightarrow> ('c, 'k) HttpConn \<Rightarrow> TimeStamp \<Rightarrow> ('s \<times> ('c, 'k) HttpConn) result option" where
  "onMessage httpCallback s conn receiveTime =
     (case tc_context conn of
        None \<Rightarrow> Some (Inr (s, conn))
      | Some ctx \<Rightarrow>
          (case parseRequest ctx (tc_input conn) receiveTime of
             None \<Rightarrow> None
           | Some (Inl e) \<Rightarrow> Some (Inl e)
           | Some (Inr (result, ctx', buf)) \<Rightarrow>
               let conn1 = conn\<lparr>tc_input := buf, tc_context := Some ctx'\<rparr>
               in if result = kError
                  then Some (rbind (send_conn conn1 bad_request) (\<lambda>conn2. Inr (s, shutdown_conn conn2)))
                  else if result = kHeadersComplete
                  then if is_upload_chunk conn1
                       then (case httpCallback s conn1 (mkHttpResponse False) of
                               None \<Rightarrow> None
                             | Some (Inl e) \<Rightarrow> Some (Inl e)
                             | Some (Inr (syncProcessed, s', conn2, _)) \<Rightarrow> Some (Inr (s', conn2)))
                       else Some (Inr (s, conn1))
                  else if result = kGotRequest
                  then (case onRequest httpCallback s conn1 of
                          None \<Rightarrow> None
                        | Some (Inl e) \<Rightarrow> Some (Inl e)
                        | Some (Inr (syncProcessed, s', conn2)) \<Rightarrow>
                            Some (Inr (s', if syncProcessed then reset_conn conn2 else conn2)))
                  else Some (Inr (s, conn1))))"


section \<open>Answering\<close>

lemma send_buffer_ok:
  assumes "conn_inv c" and "tc_state c = kConnected" and ok: "buf_ok b"
    and "buf_used (tc_output c) + length (contents b) \<le> vec_max" and "\<not> gives_up c (contents b)"
  shows "\<exists>c'. send_buffer c b = Inr (c', retrieveAll b) \<and> conn_inv c' \<and>
           stream c' = stream c @ contents b \<and> (tc_state c' = kConnected \<or> tc_state c' = kDisconnected)"
proof -
  have "chunk (peek b) (readableBytes b) (buffer b) = contents b"
    using contents_prefix [OF ok, of "length (contents b)"] readable_contents [OF ok] by simp
  then show ?thesis
    using sendInLoop_ok [OF assms(1,2,4)] assms(2,5) by (auto simp: send_buffer_def)
qed

lemma send_response_ok:
  assumes "conn_inv c" and "tc_state c = kConnected"
    and room: "8 + length (response_bytes r) \<le> vec_max"
    and "buf_used (tc_output c) + length (response_bytes r) \<le> vec_max"
    and "\<not> gives_up c (response_bytes r)"
  shows "\<exists>c'. send_response r c = Inr c' \<and> conn_inv c' \<and> stream c' = stream c @ response_bytes r \<and>
           (rs_closeConnection r \<longrightarrow> tc_state c' \<noteq> kConnected)"
proof -
  obtain b where b: "appendToBuffer r emptyBuffer = Inr b" "buf_ok b" "contents b = response_bytes r"
    using appends_response [of r, unfolded appends_def, rule_format, of emptyBuffer] room by auto
  obtain c1 where c1: "send_buffer c b = Inr (c1, retrieveAll b)" "conn_inv c1"
    "stream c1 = stream c @ response_bytes r" "tc_state c1 = kConnected \<or> tc_state c1 = kDisconnected"
    using send_buffer_ok [of c b] assms b by auto
  then show ?thesis
    using b(1) shutdown_conn_ok [OF c1(2)]
    by (auto simp: send_response_def shutdown_conn_def shutdownInLoop_def)
qed

lemma parsed_inv:
  "conn_inv c \<Longrightarrow> buf_ok b \<Longrightarrow> conn_inv (c\<lparr>tc_input := b, tc_context := x\<rparr>) \<and>
     stream (c\<lparr>tc_input := b, tc_context := x\<rparr>) = stream c"
  by (rule input_irrelevant(2))

lemma gives_up_parsed: "gives_up (c\<lparr>tc_input := b, tc_context := x\<rparr>) d = gives_up c d"
  by (auto simp: gives_up_def send_direct_def sys_write_def Let_def queueInLoop_def
      split: prod.splits list.splits write_reply.splits)

text \<open>
  C11 (functional). End to end: when a complete well-formed request is in the input buffer of a connected
  client and the callback finishes it synchronously with a response \<open>f\<close> of the request, then the bytes
  of exactly this response are appended to the stream of the connection (the socket and the output buffer),
  behind everything sent before; the connection starts closing when the response asks for it, the
  bytes behind the request stay in the input buffer, and the parser is ready for the next request.
\<close>

theorem onMessage_answers_request:
  fixes f :: "HttpRequest \<Rightarrow> HttpResponse \<Rightarrow> HttpResponse"
  assumes resp_def: "resp = (\<lambda>req. f req (mkHttpResponse (wants_close req)))
                               (hc_request (body_fed rest (after_headers ctx t m target v hs)))"
    and inv: "conn_inv conn" "tc_state conn = kConnected" "tc_context conn = Some ctx"
    and req: "fresh_context ctx" "wf_line m target v" "list_all wf_header hs"
      "contents (tc_input conn) = render_line m target v @ render_headers hs @ kCRLF @ rest"
      "\<not> isChunked (after_headers ctx t m target v hs)"
      "contentLength (after_headers ctx t m target v hs) \<le> length rest"
    and cb: "\<And>c r. httpCallback s c r = Some (Inr (True, s', c, f (conn_request c) r))"
    and room: "8 + length (response_bytes resp) \<le> vec_max"
      "buf_used (tc_output conn) + length (response_bytes resp) \<le> vec_max"
    and up: "\<not> gives_up conn (response_bytes resp)"
  shows "\<exists>conn'. onMessage httpCallback s conn t = Some (Inr (s', conn')) \<and> conn_inv conn' \<and>
           stream conn' = stream conn @ response_bytes resp \<and>
           (rs_closeConnection resp \<longrightarrow> tc_state conn' \<noteq> kConnected)"
proof -
  let ?n = "contentLength (after_headers ctx t m target v hs)"
  have ok: "buf_ok (tc_input conn)" using inv(1) by (simp add: conn_inv_def)
  let ?ctx = "body_fed rest (after_headers ctx t m target v hs)"
  obtain b where p: "parseRequest ctx (tc_input conn) t = Some (Inr (kGotRequest, ?ctx, b))"
    "buf_ok b" "contents b = drop ?n rest"
    using parseRequest_complete [OF ok req] by blast
  let ?c1 = "conn\<lparr>tc_input := b, tc_context := Some ?ctx\<rparr>"
  have c1: "conn_inv ?c1" "stream ?c1 = stream conn" "tc_state ?c1 = kConnected"
    using parsed_inv [OF inv(1) p(2), of "Some ?ctx"] inv(2) by simp_all
  have u: "\<not> gives_up ?c1 (response_bytes resp)" using up by (simp add: gives_up_parsed)
  obtain c2 where c2: "send_response resp ?c1 = Inr c2" "conn_inv c2"
    "stream c2 = stream conn @ response_bytes resp" "rs_closeConnection resp \<longrightarrow> tc_state c2 \<noteq> kConnected"
    using send_response_ok [OF c1(1,3) room(1) _ u] room(2) c1(2) by auto
  have "onMessage httpCallback s conn t = Some (Inr (s', reset_conn c2))"
    using inv(3) p(1) c2(1) cb
    by (simp add: onMessage_def onRequest_def Let_def conn_request_def resp_def)
  moreover have "conn_inv (reset_conn c2)" "stream (reset_conn c2) = stream c2"
    "tc_state (reset_conn c2) = tc_state c2"
    using c2(2) conn_inv_cong [of "reset_conn c2" c2] by (simp_all add: reset_conn_def stream_def)
  ultimately show ?thesis using c2 by auto
qed

text \<open>A connected client whose input buffer holds the given bytes.\<close>

definition client_with :: "bytes \<Rightarrow> write_reply list \<Rightarrow> (nat, nat) HttpConn" where
  "client_with d replies = (mkTcpConnection 5 None replies)
     \<lparr>tc_state := kConnected, tc_channel := enableReading (mkChannel 5), tc_input := buffer_of d,
      tc_context := Some mkHttpContext\<rparr>"

lemma client_with_inv: "kCheapPrepend + length d \<le> vec_max \<Longrightarrow> conn_inv (client_with d rs)"
  unfolding conn_inv_def is_open_def
  by (simp add: client_with_def mkTcpConnection_def buffer_of_ok)

theorem onMessage_answers_request_witness:
  "\<exists>conn'. onMessage (defaultHttpCallback :: (unit, nat, nat) HttpCallback) ()
       (client_with (render_line ''GET'' ''/none'' kHttp11 @ render_headers [] @ kCRLF @ []) [Write_Ok 10]) 3 =
         Some (Inr ((), conn')) \<and>
     stream conn' = ''HTTP/1.1 404 Not Found'' @ kCRLF @ ''Connection: close'' @ kCRLF @ kCRLF \<and>
     tc_state conn' \<noteq> kConnected"
proof -
  let ?f = "\<lambda>(_ :: HttpRequest) r. setCloseConnection True (setStatusMessage ''Not Found'' (setStatusCode k404NotFound r))"
  let ?d = "render_line ''GET'' ''/none'' kHttp11 @ render_headers [] @ kCRLF @ []"
  let ?c = "client_with ?d [Write_Ok 10]"
  have d: "length ?d = 22"
    by (simp add: render_line_def version_string_def render_headers_def kCRLF_def)
  have inv: "conn_inv ?c" "tc_state ?c = kConnected" "tc_context ?c = Some mkHttpContext"
    "contents (tc_input ?c) = ?d"
    using client_with_inv [of ?d "[Write_Ok 10]"] d
    by (simp_all add: vec_max_def kCheapPrepend_def client_with_def)
  have ah: "after_headers (mkHttpContext :: nat HttpContext) 3 ''GET'' ''/none'' kHttp11 [] =
      mkHttpContext\<lparr>hc_request := mkHttpRequest\<lparr>rq_method := kGet, rq_version := kHttp11,
        rq_path := ''/none'', rq_receiveTime := 3\<rparr>, hc_state := kExpectBody\<rparr>"
    by (simp add: after_headers_def with_line_def Let_def parse_method_def std_find_def mkHttpContext_def
        mkHttpRequest_def)
  have rb: "response_bytes (?f r (mkHttpResponse w)) =
      ''HTTP/1.1 404 Not Found'' @ kCRLF @ ''Connection: close'' @ kCRLF @ kCRLF" for r w
    by (simp add: response_bytes_def header_bytes_def setCloseConnection_def setStatusMessage_def
        setStatusCode_def mkHttpResponse_def nat_to_string.simps)
  have wf: "fresh_context (mkHttpContext :: nat HttpContext)" "wf_line ''GET'' ''/none'' kHttp11"
    "list_all wf_header []"
    by (simp_all add: fresh_context_def mkHttpContext_def mkHttpRequest_def wf_line_def parse_method_def CR_def)
  have out: "tc_output ?c = emptyBuffer" by (simp add: client_with_def mkTcpConnection_def)
  have up: "\<not> gives_up ?c x" for x
    by (simp add: gives_up_def send_direct_def client_with_def mkTcpConnection_def sys_write_def Let_def)
  have cl: "rs_closeConnection (?f r (mkHttpResponse w))" for r w by (simp add: setCloseConnection_def)
  have st: "stream ?c = []" by (simp add: stream_def client_with_def mkTcpConnection_def)
  have nch: "\<not> isChunked (after_headers (mkHttpContext :: nat HttpContext) 3 ''GET'' ''/none'' kHttp11 [])"
    "contentLength (after_headers (mkHttpContext :: nat HttpContext) 3 ''GET'' ''/none'' kHttp11 []) \<le> length ([] :: bytes)"
    unfolding ah by (simp_all add: mkHttpContext_def)
  have cb: "(defaultHttpCallback :: (unit, nat, nat) HttpCallback) () c r = Some (Inr (True, (), c, ?f (conn_request c) r))"
    for c r by (simp add: defaultHttpCallback_def)
  have len: "length (''HTTP/1.1 404 Not Found'' @ kCRLF @ ''Connection: close'' @ kCRLF @ kCRLF) = 45"
    by (simp add: kCRLF_def)
  have room: "8 + length (response_bytes (?f r (mkHttpResponse w))) \<le> vec_max"
    "buf_used (tc_output ?c) + length (response_bytes (?f r (mkHttpResponse w))) \<le> vec_max" for r w
    unfolding rb len out by (simp_all add: vec_max_def)
  show ?thesis
    using onMessage_answers_request [where f = ?f and httpCallback = defaultHttpCallback and s = "()",
        OF refl inv(1,2,3) wf inv(4) nch cb room up] cl
    unfolding rb st append_Nil by blast
qed

lemma send_conn_ok:
  assumes "conn_inv c" and "tc_state c = kConnected" and "buf_used (tc_output c) + length d \<le> vec_max"
    and "\<not> gives_up c d"
  shows "\<exists>c'. send_conn c d = Inr c' \<and> conn_inv c' \<and> stream c' = stream c @ d \<and>
           (tc_state c' = kConnected \<or> tc_state c' = kDisconnected)"
  using sendInLoop_ok [OF assms(1-3)] assms(2,4) by (auto simp: send_conn_def)

text \<open>
  A complete first line that is not a request line is answered with a bare 400 response and
  the connection stops being connected, so that nothing more is ever sent on it; the callback is
  not called and the application's state does not change.
\<close>

theorem onMessage_rejects_bad_line:
  assumes inv: "conn_inv conn" "tc_state conn = kConnected" "tc_context conn = Some ctx"
    and req: "fresh_context ctx" "contents (tc_input conn) = l @ kCRLF @ rest" "CR \<notin> set l"
      "\<nexists>m target v. l = m @ CHR '' '' # target @ CHR '' '' # version_string v \<and>
         parse_method m \<noteq> kInvalid \<and> CHR '' '' \<notin> set target \<and> v \<noteq> kUnknown"
    and room: "buf_used (tc_output conn) + length bad_request \<le> vec_max"
    and up: "\<not> gives_up conn bad_request"
  shows "\<exists>conn'. onMessage httpCallback s conn t = Some (Inr (s, conn')) \<and> conn_inv conn' \<and>
           stream conn' = stream conn @ bad_request \<and> tc_state conn' \<noteq> kConnected"
proof -
  have ok: "buf_ok (tc_input conn)" using inv(1) by (simp add: conn_inv_def)
  obtain ctx' where p: "parseRequest ctx (tc_input conn) t = Some (Inr (kError, ctx', tc_input conn))"
    using parse_bad_line [OF ok req] by blast
  let ?c1 = "conn\<lparr>tc_input := tc_input conn, tc_context := Some ctx'\<rparr>"
  have c1: "conn_inv ?c1 \<and> stream ?c1 = stream conn" by (rule parsed_inv [OF inv(1) ok])
  have "\<not> gives_up ?c1 bad_request" using up by (subst gives_up_parsed)
  then obtain c2 where c2: "send_conn ?c1 bad_request = Inr c2" "conn_inv c2"
    "stream c2 = stream conn @ bad_request" "tc_state c2 = kConnected \<or> tc_state c2 = kDisconnected"
    using send_conn_ok [of ?c1 bad_request] c1 inv(2) room by auto
  have "onMessage httpCallback s conn t = Some (Inr (s, shutdown_conn c2))"
    using inv(3) p c2(1) by (simp add: onMessage_def)
  moreover have "tc_state (shutdown_conn c2) \<noteq> kConnected"
    by (simp add: shutdown_conn_def shutdownInLoop_def)
  ultimately show ?thesis
    using shutdown_conn_ok [OF c2(2)] c2(3) by auto
qed

theorem onMessage_rejects_bad_line_witness:
  "\<exists>conn'. onMessage (defaultHttpCallback :: (nat, nat, nat) HttpCallback) 4
       (client_with (''BREW'' @ kCRLF @ []) []) 0 = Some (Inr (4, conn')) \<and>
     stream conn' = bad_request \<and> tc_state conn' \<noteq> kConnected"
proof -
  let ?c = "client_with (''BREW'' @ kCRLF @ []) []"
  have inv: "conn_inv ?c"
    by (rule client_with_inv) (simp add: vec_max_def kCheapPrepend_def kCRLF_def)
  have c: "tc_state ?c = kConnected" "tc_context ?c = Some mkHttpContext" "tc_output ?c = emptyBuffer"
    "contents (tc_input ?c) = ''BREW'' @ kCRLF @ []" "stream ?c = []"
    by (simp_all add: client_with_def mkTcpConnection_def stream_def)
  have fresh: "fresh_context (mkHttpContext :: nat HttpContext)" "CR \<notin> set ''BREW''"
    by (simp_all add: fresh_context_def mkHttpContext_def mkHttpRequest_def CR_def)
  have bad: "\<nexists>m target v. ''BREW'' = m @ CHR '' '' # target @ CHR '' '' # version_string v \<and>
      parse_method m \<noteq> kInvalid \<and> CHR '' '' \<notin> set target \<and> v \<noteq> kUnknown"
    by (auto simp: Cons_eq_append_conv)
  have room: "buf_used (tc_output ?c) + length bad_request \<le> vec_max"
    unfolding c(3) by (simp add: bad_request_def vec_max_def kCRLF_def)
  have up: "\<not> gives_up ?c bad_request"
    by (simp add: gives_up_def send_direct_def client_with_def mkTcpConnection_def sys_write_def Let_def
        EAGAIN_def EWOULDBLOCK_def EPIPE_def ECONNRESET_def)
  show ?thesis
    using onMessage_rejects_bad_line [OF inv c(1,2) fresh(1) c(4) fresh(2) bad room up, of defaultHttpCallback 4 0] c(5) by auto
qed

end
