(* ===== verification/File_Contexts.thy ===== *)
theory File_Contexts
  imports Prelude
begin

text \<open>
  \<^verbatim>\<open>FileUploadContext\<close> (\<^verbatim>\<open>app/FileUploadContext.hpp\<close>) and \<^verbatim>\<open>FileDownContext\<close>
  (\<^verbatim>\<open>app/FileDownloadContext.hpp\<close>): the state of a file transfer of one connection.  The stream of an
  upload writes to its path in the file system, which the caller passes and gets back; the stream of
  a download reads the bytes the file had when it was opened.  Exceptions are the left values.
\<close>

section \<open>Definitions\<close>

type_synonym files = "bytes \<rightharpoonup> bytes"

datatype UploadState = kUpHeaders | kUpContent | kUpBoundary | kUpComplete

record FileUploadContext =
  uc_filename :: bytes
  uc_originalFilename :: bytes
  uc_totalBytes :: nat
  uc_state :: UploadState
  uc_boundary :: bytes

text \<open>\<open>can_write path\<close>: the stream on that path can be opened and written.\<close>

definition mkFileUploadContext ::
  "(bytes \<Rightarrow> bool) \<Rightarrow> files \<Rightarrow> bytes \<Rightarrow> bytes \<Rightarrow> bytes + (FileUploadContext \<times> files)" where
  "mkFileUploadContext can_write fs filename originalFilename =
     (if can_write filename
      then Inr (\<lparr>uc_filename = filename, uc_originalFilename = originalFilename, uc_totalBytes = 0,
                 uc_state = kUpHeaders, uc_boundary = []\<rparr>, fs(filename \<mapsto> []))
      else Inl (''Failed to open file: '' @ filename))"

definition writeData ::
  "(bytes \<Rightarrow> bool) \<Rightarrow> files \<Rightarrow> FileUploadContext \<Rightarrow> bytes \<Rightarrow> bytes + (FileUploadContext \<times> files)" where
  "writeData can_write fs u data =
     (if can_write (uc_filename u)
      then Inr (u\<lparr>uc_totalBytes := sz_add (uc_totalBytes u) (length data)\<rparr>,
                fs(uc_filename u \<mapsto> (case fs (uc_filename u) of Some old \<Rightarrow> old @ data | None \<Rightarrow> data)))
      else Inl (''Failed to write to file: '' @ uc_filename u))"

record FileDownContext =
  dc_filepath :: bytes
  dc_originalFilename :: bytes
  dc_data :: bytes
  dc_fileSize :: nat
  dc_currentPosition :: nat
  dc_isComplete :: bool

definition mkFileDownContext :: "files \<Rightarrow> bytes \<Rightarrow> bytes \<Rightarrow> bytes + FileDownContext" where
  "mkFileDownContext fs filepath originalFilename =
     (case fs filepath of
        None \<Rightarrow> Inl (''filesystem error: cannot get file size: No such file or directory ['' @ filepath @ '']'')
      | Some d \<Rightarrow> Inr \<lparr>dc_filepath = filepath, dc_originalFilename = originalFilename, dc_data = d,
                        dc_fileSize = length d, dc_currentPosition = 0, dc_isComplete = False\<rparr>)"

definition seekTo :: "FileDownContext \<Rightarrow> nat \<Rightarrow> FileDownContext" where
  "seekTo d position = d\<lparr>dc_currentPosition := position, dc_isComplete := False\<rparr>"

definition chunkSize :: nat where
  "chunkSize = 1024 * 1024"

text \<open>
  A read past the end leaves the rest of the zero-initialised vector as it is, and the stream
  failed: \<open>readNextChunk\<close> hands out the whole vector all the same.
\<close>

definition readNextChunk :: "FileDownContext \<Rightarrow> bytes option \<times> FileDownContext" where
  "readNextChunk d =
     (if dc_isComplete d then (None, d)
      else let remainingBytes = sz_sub (dc_fileSize d) (dc_currentPosition d);
               bytesToRead = min chunkSize remainingBytes
           in if bytesToRead = 0 then (None, d\<lparr>dc_isComplete := True\<rparr>)
              else let got = chunk (dc_currentPosition d) bytesToRead (dc_data d)
                   in (Some (got @ replicate (bytesToRead - length got) NUL),
                       d\<lparr>dc_currentPosition := sz_add (dc_currentPosition d) bytesToRead\<rparr>))"

section \<open>Reading a file in chunks\<close>

text \<open>All the chunks a context hands out, until it says that there are no more.\<close>

definition down_ok :: "FileDownContext \<Rightarrow> bool" where
  "down_ok d \<longleftrightarrow> \<not> dc_isComplete d \<and> dc_fileSize d = length (dc_data d) \<and>
     dc_currentPosition d \<le> dc_fileSize d \<and> dc_fileSize d < size_mod"

fun read_chunks :: "nat \<Rightarrow> FileDownContext \<Rightarrow> bytes list option" where
  "read_chunks 0 d = None"
| "read_chunks (Suc fuel) d =
     (case readNextChunk d of
        (None, _) \<Rightarrow> Some []
      | (Some c, d') \<Rightarrow> map_option (Cons c) (read_chunks fuel d'))"

lemma readNextChunk_step:
  assumes "down_ok d" and "dc_currentPosition d < dc_fileSize d"
  defines "n \<equiv> min chunkSize (dc_fileSize d - dc_currentPosition d)"
  shows "readNextChunk d = (Some (chunk (dc_currentPosition d) n (dc_data d)),
           d\<lparr>dc_currentPosition := dc_currentPosition d + n\<rparr>)"
    and "down_ok (d\<lparr>dc_currentPosition := dc_currentPosition d + n\<rparr>)"
    and "0 < n" and "dc_currentPosition d + n \<le> dc_fileSize d"
proof -
  show n: "0 < n" "dc_currentPosition d + n \<le> dc_fileSize d"
    using assms(2) by (auto simp: n_def chunkSize_def)
  have len: "length (chunk (dc_currentPosition d) n (dc_data d)) = n"
    using assms(1) n(2) by (simp add: length_chunk down_ok_def)
  have r: "sz_sub (dc_fileSize d) (dc_currentPosition d) = dc_fileSize d - dc_currentPosition d"
    using assms(2) by (simp add: sz_sub_exact)
  have a: "sz_add (dc_currentPosition d) n = dc_currentPosition d + n"
    using n(2) assms(1) by (intro sz_add_exact) (simp add: down_ok_def)
  show "readNextChunk d = (Some (chunk (dc_currentPosition d) n (dc_data d)),
      d\<lparr>dc_currentPosition := dc_currentPosition d + n\<rparr>)"
    using assms(1) n(1) len unfolding readNextChunk_def Let_def r n_def [symmetric] a
    by (simp add: down_ok_def)
  show "down_ok (d\<lparr>dc_currentPosition := dc_currentPosition d + n\<rparr>)"
    using assms(1) n(2) by (simp add: down_ok_def)
qed

lemma readNextChunk_end:
  "down_ok d \<Longrightarrow> dc_currentPosition d = dc_fileSize d \<Longrightarrow>
     readNextChunk d = (None, d\<lparr>dc_isComplete := True\<rparr>)"
  by (simp add: readNextChunk_def down_ok_def)

lemma read_chunks_all:
  assumes "down_ok d" and "dc_fileSize d - dc_currentPosition d < fuel"
  shows "\<exists>cs. read_chunks fuel d = Some cs \<and> concat cs = drop (dc_currentPosition d) (dc_data d) \<and>
           (\<forall>c \<in> set cs. c \<noteq> [] \<and> length c \<le> chunkSize)"
  using assms
proof (induction fuel arbitrary: d)
  case (Suc fuel)
  show ?case
  proof (cases "dc_currentPosition d < dc_fileSize d")
    case False
    then have "dc_currentPosition d = dc_fileSize d" using Suc.prems(1) by (simp add: down_ok_def)
    then show ?thesis
      using readNextChunk_end [OF Suc.prems(1)] Suc.prems(1) by (simp add: down_ok_def)
  next
    case True
    define n where "n = min chunkSize (dc_fileSize d - dc_currentPosition d)"
    note s = readNextChunk_step [OF Suc.prems(1) True, folded n_def]
    let ?d = "d\<lparr>dc_currentPosition := dc_currentPosition d + n\<rparr>"
    have "dc_fileSize ?d - dc_currentPosition ?d < fuel"
      using Suc.prems(2) s(3) True by simp
    from Suc.IH [OF s(2) this] obtain cs where cs: "read_chunks fuel ?d = Some cs"
      "concat cs = drop (dc_currentPosition d + n) (dc_data d)"
      "\<forall>c \<in> set cs. c \<noteq> [] \<and> length c \<le> chunkSize" by auto
    have len: "length (chunk (dc_currentPosition d) n (dc_data d)) = n"
      using Suc.prems(1) s(4) by (simp add: length_chunk down_ok_def)
    have "chunk (dc_currentPosition d) n (dc_data d) @ drop (dc_currentPosition d + n) (dc_data d) =
        drop (dc_currentPosition d) (dc_data d)"
      by (simp add: chunk_def add.commute flip: drop_drop)
    moreover have "n \<le> chunkSize" by (simp add: n_def)
    moreover have "chunk (dc_currentPosition d) n (dc_data d) \<noteq> []"
      using len s(3) by auto
    ultimately show ?thesis
      using s(1) cs len by (intro exI [of _ "chunk (dc_currentPosition d) n (dc_data d) # cs"]) auto
  qed
qed simp

text \<open>
  Reading a file of any size in chunks from any position terminates and hands out,
  in chunks of at most one megabyte and none of them empty, exactly the bytes of the file from that
  position to its end.
\<close>

theorem download_chunks_are_the_file:
  assumes "mkFileDownContext fs path name = Inr d" and "length (dc_data d) < size_mod"
    and "start \<le> length (dc_data d)"
  shows "\<exists>fuel cs. read_chunks fuel (seekTo d start) = Some cs \<and>
           fs path = Some (dc_data d) \<and> concat cs = drop start (dc_data d) \<and>
           (\<forall>c \<in> set cs. c \<noteq> [] \<and> length c \<le> chunkSize)"
proof -
  have d: "fs path = Some (dc_data d)" "down_ok (seekTo d start)"
    using assms by (auto simp: mkFileDownContext_def down_ok_def seekTo_def split: option.splits)
  have "dc_fileSize (seekTo d start) - dc_currentPosition (seekTo d start) < Suc (dc_fileSize d)"
    by (simp add: seekTo_def)
  moreover have "dc_currentPosition (seekTo d start) = start" "dc_data (seekTo d start) = dc_data d"
    by (simp_all add: seekTo_def)
  ultimately show ?thesis
    using read_chunks_all [OF d(2)] d(1) by metis
qed

theorem download_chunks_are_the_file_witness:
  "\<exists>d. mkFileDownContext [''f'' \<mapsto> ''abcdef''] ''f'' ''n'' = Inr d \<and>
     (\<exists>fuel cs. read_chunks fuel (seekTo d 2) = Some cs \<and> concat cs = ''cdef'')"
proof -
  let ?d = "\<lparr>dc_filepath = ''f'', dc_originalFilename = ''n'', dc_data = ''abcdef'', dc_fileSize = 6,
             dc_currentPosition = 0, dc_isComplete = False\<rparr>"
  have d: "mkFileDownContext [''f'' \<mapsto> ''abcdef''] ''f'' ''n'' = Inr ?d"
    by (simp add: mkFileDownContext_def)
  have "length (dc_data ?d) < size_mod" "(2 :: nat) \<le> length (dc_data ?d)"
    by (simp_all add: size_mod_def)
  from download_chunks_are_the_file [OF d this] d show ?thesis by auto
qed

end
