(* ===== verification/Messages.thy ===== *)
theory Messages
  imports Prelude
begin

text \<open>
  The non-ASCII messages of the application's responses (\<^verbatim>\<open>app/HttpUploader.hpp\<close>), as the UTF-8 bytes
  the source file has.
\<close>

definition utf8 :: "nat list \<Rightarrow> bytes" where
  "utf8 ns = map char_of ns"

definition msg_not_logged_in :: bytes where
  "msg_not_logged_in = utf8
     [230, 156, 170, 231, 153, 187, 229, 189, 149, 230, 136, 150, 228, 188, 154, 232,
      175, 157, 229, 183, 178, 232, 191, 135, 230, 156, 159]"

definition msg_login_first :: bytes where
  "msg_login_first = utf8
     [232, 175, 183, 229, 133, 136, 231, 153, 187, 229, 189, 149]"

definition msg_upload_ok :: bytes where
  "msg_upload_ok = utf8
     [228, 184, 138, 228, 188, 160, 230, 136, 144, 229, 138, 159]"

definition msg_need_extract_code :: bytes where
  "msg_need_extract_code = utf8
     [233, 156, 128, 232, 166, 129, 230, 173, 163, 231, 161, 174, 231, 154, 132, 230,
      143, 144, 229, 143, 150, 231, 160, 129]"

definition msg_no_access :: bytes where
  "msg_no_access = utf8
     [230, 130, 168, 230, 178, 161, 230, 156, 137, 230, 157, 131, 233, 153, 144, 232,
      174, 191, 233, 151, 174, 230, 173, 164, 230, 150, 135, 228, 187, 182]"

definition msg_cannot_delete :: bytes where
  "msg_cannot_delete = utf8
     [230, 150, 135, 228, 187, 182, 228, 184, 141, 229, 173, 152, 229, 156, 168, 230,
      136, 150, 230, 130, 168, 230, 178, 161, 230, 156, 137, 230, 157, 131, 233, 153,
      144, 229, 136, 160, 233, 153, 164, 230, 173, 164, 230, 150, 135, 228, 187, 182]"

definition msg_delete_record_failed :: bytes where
  "msg_delete_record_failed = utf8
     [229, 136, 160, 233, 153, 164, 230, 150, 135, 228, 187, 182, 232, 174, 176, 229,
      189, 149, 229, 164, 177, 232, 180, 165]"

definition msg_credentials_empty :: bytes where
  "msg_credentials_empty = utf8
     [231, 148, 168, 230, 136, 183, 229, 144, 141, 229, 146, 140, 229, 175, 134, 231,
      160, 129, 228, 184, 141, 232, 131, 189, 228, 184, 186, 231, 169, 186]"

definition msg_user_exists :: bytes where
  "msg_user_exists = utf8
     [231, 148, 168, 230, 136, 183, 229, 144, 141, 229, 183, 178, 229, 173, 152, 229,
      156, 168]"

definition msg_register_retry :: bytes where
  "msg_register_retry = utf8
     [230, 179, 168, 229, 134, 140, 229, 164, 177, 232, 180, 165, 239, 188, 140, 232,
      175, 183, 231, 168, 141, 229, 144, 142, 233, 135, 141, 232, 175, 149]"

definition msg_register_ok :: bytes where
  "msg_register_ok = utf8
     [230, 179, 168, 229, 134, 140, 230, 136, 144, 229, 138, 159]"

definition msg_register_failed :: bytes where
  "msg_register_failed = utf8
     [230, 179, 168, 229, 134, 140, 229, 164, 177, 232, 180, 165, 58, 32]"

definition msg_bad_credentials :: bytes where
  "msg_bad_credentials = utf8
     [231, 148, 168, 230, 136, 183, 229, 144, 141, 230, 136, 150, 229, 175, 134, 231,
      160, 129, 233, 148, 153, 232, 175, 175]"

definition msg_login_ok :: bytes where
  "msg_login_ok = utf8
     [231, 153, 187, 229, 189, 149, 230, 136, 144, 229, 138, 159]"

definition msg_login_failed :: bytes where
  "msg_login_failed = utf8
     [231, 153, 187, 229, 189, 149, 229, 164, 177, 232, 180, 165, 58, 32]"

definition msg_keyword_empty :: bytes where
  "msg_keyword_empty = utf8
     [230, 144, 156, 231, 180, 162, 229, 133, 179, 233, 148, 174, 232, 175, 141, 228,
      184, 141, 232, 131, 189, 228, 184, 186, 231, 169, 186]"

definition msg_cannot_share :: bytes where
  "msg_cannot_share = utf8
     [230, 130, 168, 230, 178, 161, 230, 156, 137, 230, 157, 131, 233, 153, 144, 229,
      136, 134, 228, 186, 171, 230, 173, 164, 230, 150, 135, 228, 187, 182]"

definition msg_made_private :: bytes where
  "msg_made_private = utf8
     [230, 150, 135, 228, 187, 182, 232, 174, 190, 231, 189, 174, 228, 184, 186, 231,
      167, 129, 230, 156, 137, 230, 136, 144, 229, 138, 159]"

definition msg_already_shared :: bytes where
  "msg_already_shared = utf8
     [229, 183, 178, 231, 187, 143, 229, 136, 134, 228, 186, 171, 231, 187, 153, 232,
      175, 165, 231, 148, 168, 230, 136, 183]"

definition msg_share_create_failed :: bytes where
  "msg_share_create_failed = utf8
     [229, 136, 155, 229, 187, 186, 229, 136, 134, 228, 186, 171, 229, 164, 177, 232,
      180, 165]"

definition msg_share_ok :: bytes where
  "msg_share_ok = utf8
     [229, 136, 134, 228, 186, 171, 230, 136, 144, 229, 138, 159]"

definition msg_share_failed :: bytes where
  "msg_share_failed = utf8
     [229, 136, 134, 228, 186, 171, 229, 164, 177, 232, 180, 165, 58, 32]"

definition msg_bad_share_link :: bytes where
  "msg_bad_share_link = utf8
     [230, 151, 160, 230, 149, 136, 231, 154, 132, 229, 136, 134, 228, 186, 171, 233,
      147, 190, 230, 142, 165]"

definition msg_bad_code_format :: bytes where
  "msg_bad_code_format = utf8
     [230, 151, 160, 230, 149, 136, 231, 154, 132, 229, 136, 134, 228, 186, 171, 231,
      160, 129, 230, 160, 188, 229, 188, 143]"

definition msg_bad_code_chars :: bytes where
  "msg_bad_code_chars = utf8
     [229, 136, 134, 228, 186, 171, 231, 160, 129, 229, 140, 133, 229, 144, 171, 233,
      157, 158, 230, 179, 149, 229, 173, 151, 231, 172, 166]"

definition msg_share_gone :: bytes where
  "msg_share_gone = utf8
     [229, 136, 134, 228, 186, 171, 233, 147, 190, 230, 142, 165, 229, 183, 178, 229,
      164, 177, 230, 149, 136, 230, 136, 150, 228, 184, 141, 229, 173, 152, 229, 156,
      168]"

end
