(* ===== verification/App_Base.thy ===== *)
theory App_Base
  imports Http_Server File_Contexts Messages
begin

text \<open>
  The common part of \<^verbatim>\<open>HttpUploadHandler\<close> (\<^verbatim>\<open>app/HttpUploader.hpp\<close>): its state, the access to the
  database, error responses, sessions, random names, file types and the file name mapping.  What the
  class calls in code outside the repository (MySQL's client library, the JSON library, the hash of
  the standard library, the clock and the random device) is the record \<open>Env\<close>, an argument of every
  definition; the database is an opaque state the query function transforms.  A handler is a
  computation on the state of the application, the connection and the response that returns or
  throws.
\<close>

section \<open>Environment and state\<close>

type_synonym db_row = "bytes option list"

text \<open>The answer to a statement: an error, or success with the rows of a result set if it has one.\<close>

datatype db_reply = Db_error | Db_ok "db_row list option"

datatype json =
  JNull | JBool bool | JInt int | JStr bytes | JArr "json list" | JObj "(bytes \<times> json) list"

record 'd Env =
  env_query :: "'d \<Rightarrow> bytes \<Rightarrow> db_reply \<times> 'd"
  env_insert_id :: "'d \<Rightarrow> int"
  env_escape :: "bytes \<Rightarrow> bytes"
  env_parse :: "bytes \<Rightarrow> bytes + json"
  env_get_str :: "json \<Rightarrow> bytes \<Rightarrow> bytes + bytes"
  env_get_int :: "json \<Rightarrow> bytes \<Rightarrow> bytes + int"
  env_value_str :: "json \<Rightarrow> bytes \<Rightarrow> bytes \<Rightarrow> bytes + bytes"
  env_has :: "json \<Rightarrow> bytes \<Rightarrow> bool"
  env_is_null :: "json \<Rightarrow> bytes \<Rightarrow> bytes + bool"
  env_get_map :: "json \<Rightarrow> bytes + bytes smap"
  env_dump :: "json \<Rightarrow> bytes + bytes"
  env_dump_indented :: "json \<Rightarrow> bytes + bytes"
  env_hash :: "bytes \<Rightarrow> nat"
  env_random :: "nat \<Rightarrow> nat"
  env_now_ms :: "nat \<Rightarrow> int"
  env_can_write :: "bytes \<Rightarrow> bool"
  env_root :: bytes
  env_junk :: "nat \<Rightarrow> char"
  env_null_what :: bytes
  env_freed :: "db_row \<Rightarrow> db_row"

text \<open>What \<^verbatim>\<open>setContext\<close> stores; a download context is shared with the write callback, by reference.\<close>

datatype app_context = Upload_Ctx FileUploadContext | Down_Ctx nat

datatype write_cb = Cb_shutdown | Cb_download nat

type_synonym Conn = "(app_context, write_cb) HttpConn"

text \<open>
  \<open>ap_mysql\<close>: the handle is not null.  \<open>ap_issued\<close> records the statements sent to the server, and
  \<open>ap_ticks\<close> counts the draws from the clock and the random device.
\<close>

record 'd App =
  ap_db :: 'd
  ap_mysql :: bool
  ap_files :: files
  ap_mapping :: "bytes smap"
  ap_downs :: "FileDownContext list"
  ap_ticks :: nat
  ap_issued :: "bytes list"

record 'd HState =
  h_app :: "'d App"
  h_conn :: Conn
  h_resp :: HttpResponse

text \<open>\<open>Exception\<close> with its \<^verbatim>\<open>what()\<close>; \<open>Crash\<close> is undefined behaviour.\<close>

datatype exn = Exception bytes | Crash

type_synonym ('d, 'a) hm = "'d HState \<Rightarrow> (exn + 'a) \<times> 'd HState"

definition hret :: "'a \<Rightarrow> ('d, 'a) hm" where
  "hret x s = (Inr x, s)"

definition hthrow :: "exn \<Rightarrow> ('d, 'a) hm" where
  "hthrow e s = (Inl e, s)"

definition hbind :: "('d, 'a) hm \<Rightarrow> ('a \<Rightarrow> ('d, 'b) hm) \<Rightarrow> ('d, 'b) hm" where
  "hbind m f s = (case m s of (Inl e, s') \<Rightarrow> (Inl e, s') | (Inr x, s') \<Rightarrow> f x s')"

definition hthen :: "('d, unit) hm \<Rightarrow> ('d, 'b) hm \<Rightarrow> ('d, 'b) hm" where
  "hthen m k = hbind m (\<lambda>_. k)"

text \<open>\<^verbatim>\<open>try \<dots> catch (const std::exception &e)\<close>.\<close>

definition hcatch :: "('d, 'a) hm \<Rightarrow> (bytes \<Rightarrow> ('d, 'a) hm) \<Rightarrow> ('d, 'a) hm" where
  "hcatch m h s = (case m s of (Inl (Exception w), s') \<Rightarrow> h w s' | r \<Rightarrow> r)"

definition hget :: "('d HState \<Rightarrow> 'a) \<Rightarrow> ('d, 'a) hm" where
  "hget f s = (Inr (f s), s)"

definition hof :: "exn + 'a \<Rightarrow> ('d, 'a) hm" where
  "hof r s = (r, s)"

text \<open>A library call that may throw.\<close>

definition hlib :: "bytes + 'a \<Rightarrow> ('d, 'a) hm" where
  "hlib r s = (case r of Inl w \<Rightarrow> Inl (Exception w) | Inr x \<Rightarrow> Inr x, s)"

definition upd_app :: "('d App \<Rightarrow> 'd App) \<Rightarrow> ('d, unit) hm" where
  "upd_app f s = (Inr (), s\<lparr>h_app := f (h_app s)\<rparr>)"

definition upd_conn :: "(Conn \<Rightarrow> Conn) \<Rightarrow> ('d, unit) hm" where
  "upd_conn f s = (Inr (), s\<lparr>h_conn := f (h_conn s)\<rparr>)"

definition upd_resp :: "(HttpResponse \<Rightarrow> HttpResponse) \<Rightarrow> ('d, unit) hm" where
  "upd_resp f s = (Inr (), s\<lparr>h_resp := f (h_resp s)\<rparr>)"

lemma hm_simps [simp]:
  "hret x s = (Inr x, s)" "hthrow e s = (Inl e, s)" "hget f s = (Inr (f s), s)" "hof r s = (r, s)"
  "upd_app fa s = (Inr (), s\<lparr>h_app := fa (h_app s)\<rparr>)"
  "upd_conn fc s = (Inr (), s\<lparr>h_conn := fc (h_conn s)\<rparr>)"
  "upd_resp fr s = (Inr (), s\<lparr>h_resp := fr (h_resp s)\<rparr>)"
  "hthen m k s = hbind m (\<lambda>_. k) s"
  by (simp_all add: hret_def hthrow_def hget_def hof_def upd_app_def upd_conn_def upd_resp_def hthen_def)

lemma hbind_val: "m s = (Inr x, s') \<Longrightarrow> hbind m f s = f x s'"
  by (simp add: hbind_def)

lemma hbind_exn: "m s = (Inl e, s') \<Longrightarrow> hbind m f s = (Inl e, s')"
  by (simp add: hbind_def)

lemma hbind_simps [simp]:
  "hbind (hret x) f s = f x s" "hbind (hget g) f s = f (g s) s" "hbind (hthrow e) f s = (Inl e, s)"
  "hbind (upd_app fa) k s = k () (s\<lparr>h_app := fa (h_app s)\<rparr>)"
  "hbind (upd_conn fc) k s = k () (s\<lparr>h_conn := fc (h_conn s)\<rparr>)"
  "hbind (upd_resp fr) k s = k () (s\<lparr>h_resp := fr (h_resp s)\<rparr>)"
  "hbind (hof (Inr x)) f s = f x s" "hbind (hof (Inl e)) f s = (Inl e, s)"
  by (simp_all add: hbind_def)

section \<open>Conversions of the standard library\<close>

text \<open>\<^verbatim>\<open>std::stoi\<close> and \<^verbatim>\<open>std::stoull\<close> (which takes a minus sign and wraps).\<close>

definition num_prefix :: "bytes \<Rightarrow> bool \<times> bytes" where
  "num_prefix s =
     (let t = dropWhile isspace (c_str s);
          neg = starts_with ''-'' t
      in (neg, takeWhile isdigit (if neg \<or> starts_with ''+'' t then tl t else t)))"

definition stoi :: "bytes \<Rightarrow> exn + int" where
  "stoi s =
     (let (neg, ds) = num_prefix s; v = (if neg then - int (dec_val ds) else int (dec_val ds))
      in if ds = [] \<or> v < - (2 ^ 31) \<or> 2 ^ 31 \<le> v then Inl (Exception ''stoi'') else Inr v)"

definition stoull :: "bytes \<Rightarrow> exn + nat" where
  "stoull s =
     (let (neg, ds) = num_prefix s; v = dec_val ds
      in if ds = [] \<or> 2 ^ 64 \<le> v then Inl (Exception ''stoull'')
         else Inr (if neg then sz_sub 0 v mod 2 ^ 64 else v))"

text \<open>\<^verbatim>\<open>static_cast<int>\<close> of a 64 bit number.\<close>

definition int_of_u64 :: "int \<Rightarrow> int" where
  "int_of_u64 v = to_int32 v"

text \<open>Cells of a row: a column that is not there, a null, a C string.\<close>

definition cell :: "db_row \<Rightarrow> nat \<Rightarrow> exn + bytes option" where
  "cell row k = (if k < length row then Inr (map_option c_str (row ! k)) else Inl Crash)"

definition str_cell :: "'d Env \<Rightarrow> db_row \<Rightarrow> nat \<Rightarrow> exn + bytes" where
  "str_cell env row k = (case cell row k of
       Inl e \<Rightarrow> Inl e | Inr (Some v) \<Rightarrow> Inr v | Inr None \<Rightarrow> Inl (Exception (env_null_what env)))"

definition cell_or :: "db_row \<Rightarrow> nat \<Rightarrow> bytes \<Rightarrow> exn + bytes" where
  "cell_or row k d = (case cell row k of
       Inl e \<Rightarrow> Inl e | Inr (Some v) \<Rightarrow> Inr v | Inr None \<Rightarrow> Inr d)"

definition int_cell :: "'d Env \<Rightarrow> db_row \<Rightarrow> nat \<Rightarrow> exn + int" where
  "int_cell env row k = (case str_cell env row k of Inl e \<Rightarrow> Inl e | Inr v \<Rightarrow> stoi v)"

definition int_cell_or0 :: "db_row \<Rightarrow> nat \<Rightarrow> exn + int" where
  "int_cell_or0 row k = (case cell row k of
       Inl e \<Rightarrow> Inl e | Inr (Some v) \<Rightarrow> stoi v | Inr None \<Rightarrow> Inr 0)"

definition size_cell :: "'d Env \<Rightarrow> db_row \<Rightarrow> nat \<Rightarrow> exn + nat" where
  "size_cell env row k = (case str_cell env row k of Inl e \<Rightarrow> Inl e | Inr v \<Rightarrow> stoull v)"

definition size_cell_or0 :: "db_row \<Rightarrow> nat \<Rightarrow> exn + nat" where
  "size_cell_or0 row k = (case cell row k of
       Inl e \<Rightarrow> Inl e | Inr (Some v) \<Rightarrow> stoull v | Inr None \<Rightarrow> Inr 0)"

section \<open>The database\<close>

definition initDatabase :: "bool \<Rightarrow> bool \<Rightarrow> bool \<Rightarrow> 'd App \<Rightarrow> bool \<times> 'd App" where
  "initDatabase init_ok connect_ok charset_ok a =
     (if \<not> init_ok then (False, a\<lparr>ap_mysql := False\<rparr>)
      else if \<not> connect_ok then (False, a\<lparr>ap_mysql := False\<rparr>)
      else (charset_ok, a\<lparr>ap_mysql := True\<rparr>))"

definition closeDatabase :: "'d App \<Rightarrow> 'd App" where
  "closeDatabase a = (if ap_mysql a then a\<lparr>ap_mysql := False\<rparr> else a)"

text \<open>One statement: the server sees it as a C string.\<close>

definition run_query :: "'d Env \<Rightarrow> bytes \<Rightarrow> 'd App \<Rightarrow> db_reply \<times> 'd App" where
  "run_query env query a =
     (if \<not> ap_mysql a then (Db_error, a)
      else let (reply, db) = env_query env (ap_db a) (c_str query)
           in (reply, a\<lparr>ap_db := db, ap_issued := ap_issued a @ [c_str query]\<rparr>))"

definition executeQuery :: "'d Env \<Rightarrow> bytes \<Rightarrow> ('d, bool) hm" where
  "executeQuery env query s =
     (let (reply, a) = run_query env query (h_app s)
      in (Inr (reply \<noteq> Db_error), s\<lparr>h_app := a\<rparr>))"

definition executeQueryWithResult :: "'d Env \<Rightarrow> bytes \<Rightarrow> ('d, db_row list option) hm" where
  "executeQueryWithResult env query s =
     (let (reply, a) = run_query env query (h_app s)
      in (Inr (case reply of Db_error \<Rightarrow> None | Db_ok rows \<Rightarrow> rows), s\<lparr>h_app := a\<rparr>))"

definition mysql_insert_id :: "'d Env \<Rightarrow> ('d, int) hm" where
  "mysql_insert_id env =
     hbind (hget h_app) (\<lambda>a. if ap_mysql a then hret (int_of_u64 (env_insert_id env (ap_db a))) else hthrow Crash)"

definition escapeString :: "'d Env \<Rightarrow> bytes \<Rightarrow> ('d, bytes) hm" where
  "escapeString env str =
     hbind (hget h_app) (\<lambda>a. hret (if ap_mysql a then c_str (env_escape env str) else str))"

section \<open>Responses\<close>

definition respond :: "HttpStatusCode \<Rightarrow> bytes \<Rightarrow> bytes \<Rightarrow> HttpResponse \<Rightarrow> HttpResponse" where
  "respond st message contentType r =
     addRespHeader ''Connection'' ''close'' (setContentType contentType
       (setStatusMessage message (setStatusCode st r)))"

definition shutdown_when_written :: "('d, unit) hm" where
  "shutdown_when_written = upd_conn (setWriteCompleteCallback Cb_shutdown)"

definition sendError :: "'d Env \<Rightarrow> bytes \<Rightarrow> HttpStatusCode \<Rightarrow> ('d, unit) hm" where
  "sendError env message st =
     hthen (upd_resp (respond st message ''application/json''))
     (hbind (hlib (env_dump env (JObj [(''code'', JInt (int (status_code st))), (''message'', JStr message)])))
     (\<lambda>body. hthen (upd_resp (setBody body)) shutdown_when_written))"

text \<open>\<^verbatim>\<open>sendError(\<dots>); return true;\<close>\<close>

definition fail :: "'d Env \<Rightarrow> bytes \<Rightarrow> HttpStatusCode \<Rightarrow> ('d, bool) hm" where
  "fail env message st = hthen (sendError env message st) (hret True)"

text \<open>The successful end that most handlers share.\<close>

definition send_json :: "'d Env \<Rightarrow> json \<Rightarrow> ('d, bool) hm" where
  "send_json env response =
     hthen (upd_resp (respond k200Ok ''OK'' ''application/json''))
     (hbind (hlib (env_dump env response)) (\<lambda>body.
      hthen (upd_resp (setBody body)) (hthen shutdown_when_written (hret True))))"

definition handleNotFound :: "'d Env \<Rightarrow> ('d, bool) hm" where
  "handleNotFound env =
     hthen (upd_resp (respond k404NotFound ''Not Found'' ''application/json''))
     (hbind (hlib (env_dump env (JObj [(''code'', JInt 404), (''message'', JStr ''Not Found'')])))
     (\<lambda>body. hthen (upd_resp (setBody body)) (hthen shutdown_when_written (hret True))))"

section \<open>Sessions\<close>

definition request_of :: "'d HState \<Rightarrow> HttpRequest" where
  "request_of s = conn_request (h_conn s)"

definition header :: "bytes \<Rightarrow> ('d, bytes) hm" where
  "header field = hget (\<lambda>s. getHeader (request_of s) field)"

definition query_param :: "'d Env \<Rightarrow> bytes \<Rightarrow> bytes \<Rightarrow> ('d, bytes) hm" where
  "query_param env key d = hget (\<lambda>s. getQuery (env_junk env) (request_of s) key d)"

definition path_param :: "bytes \<Rightarrow> ('d, bytes) hm" where
  "path_param name = hget (\<lambda>s. getPathParam (request_of s) name)"

text \<open>A string literal of SQL.\<close>

definition quoted :: "bytes \<Rightarrow> bytes" where
  "quoted v = CHR 0x27 # v @ [CHR 0x27]"

definition session_select :: "bytes \<Rightarrow> bytes" where
  "session_select sid =
     ''SELECT user_id, username FROM sessions WHERE session_id = '' @ quoted sid @
     '' AND expire_time > NOW()''"

definition session_extend :: "bytes \<Rightarrow> bytes" where
  "session_extend sid =
     ''UPDATE sessions SET expire_time = DATE_ADD(NOW(), INTERVAL 30 MINUTE) '' @
     ''WHERE session_id = '' @ quoted sid"

text \<open>The user's id and name, when the session is valid.\<close>

definition validateSession :: "'d Env \<Rightarrow> bytes \<Rightarrow> ('d, (int \<times> bytes) option) hm" where
  "validateSession env sessionId =
     (if sessionId = [] then hret None
      else hbind (escapeString env sessionId) (\<lambda>sid.
           hbind (executeQueryWithResult env (session_select sid)) (\<lambda>result.
           case result of
             None \<Rightarrow> hret None
           | Some [] \<Rightarrow> hret None
           | Some (row # _) \<Rightarrow>
               hbind (hof (int_cell env row 0)) (\<lambda>userId.
               hbind (hof (str_cell env row 1)) (\<lambda>username.
               hbind (escapeString env sessionId) (\<lambda>sid.
               hbind (executeQuery env (session_extend sid)) (\<lambda>_.
               hret (Some (userId, username)))))))))"

text \<open>The beginning of every handler that needs a session.\<close>

definition with_session :: "'d Env \<Rightarrow> (int \<Rightarrow> ('d, bool) hm) \<Rightarrow> ('d, bool) hm" where
  "with_session env body =
     hbind (header ''X-Session-ID'') (\<lambda>sessionId.
     hbind (validateSession env sessionId) (\<lambda>session.
     case session of
       None \<Rightarrow> fail env msg_not_logged_in k401Unauthorized
     | Some (userId, _) \<Rightarrow> body userId))"

definition session_insert :: "bytes \<Rightarrow> int \<Rightarrow> bytes \<Rightarrow> bytes" where
  "session_insert sid userId uname =
     ''INSERT INTO sessions (session_id, user_id, username, expire_time) '' @ ''VALUES ('' @ quoted sid @
     '', '' @ int_to_string userId @ '', '' @ quoted uname @ '', '' @
     ''DATE_ADD(NOW(), INTERVAL 30 MINUTE))''"

definition saveSession :: "'d Env \<Rightarrow> bytes \<Rightarrow> int \<Rightarrow> bytes \<Rightarrow> ('d, unit) hm" where
  "saveSession env sessionId userId username =
     hbind (escapeString env sessionId) (\<lambda>sid.
     hbind (escapeString env username) (\<lambda>uname.
     hbind (executeQuery env (session_insert sid userId uname)) (\<lambda>_. hret ())))"

definition endSession :: "'d Env \<Rightarrow> bytes \<Rightarrow> ('d, unit) hm" where
  "endSession env sessionId =
     (if sessionId = [] then hret ()
      else hbind (escapeString env sessionId) (\<lambda>sid.
           hbind (executeQuery env (''DELETE FROM sessions WHERE session_id = '' @ quoted sid)) (\<lambda>_. hret ())))"

section \<open>Random names\<close>

text \<open>\<^verbatim>\<open>std::uniform_int_distribution<>(lo, hi)\<close> on the random device.\<close>

definition draw :: "'d Env \<Rightarrow> nat \<Rightarrow> nat \<Rightarrow> ('d, nat) hm" where
  "draw env lo hi =
     hbind (hget (\<lambda>s. ap_ticks (h_app s))) (\<lambda>k.
     hthen (upd_app (\<lambda>a. a\<lparr>ap_ticks := Suc k\<rparr>))
     (hret (lo + env_random env k mod (hi - lo + 1))))"

fun draw_chars :: "'d Env \<Rightarrow> bytes \<Rightarrow> nat \<Rightarrow> ('d, bytes) hm" where
  "draw_chars env chars 0 = hret []"
| "draw_chars env chars (Suc n) =
     hbind (draw env 0 35) (\<lambda>k.
     hbind (draw_chars env chars n) (\<lambda>rest. hret (chars ! k # rest)))"

definition lower_alphabet :: bytes where
  "lower_alphabet = ''abcdefghijklmnopqrstuvwxyz0123456789''"

definition upper_alphabet :: bytes where
  "upper_alphabet = ''0123456789ABCDEFGHIJKLMNOPQRSTUVWXYZ''"

definition generateSessionId :: "'d Env \<Rightarrow> ('d, bytes) hm" where
  "generateSessionId env = draw_chars env lower_alphabet 32"

definition generateShareCode :: "'d Env \<Rightarrow> ('d, bytes) hm" where
  "generateShareCode env = draw_chars env lower_alphabet 32"

definition generateExtractCode :: "'d Env \<Rightarrow> ('d, bytes) hm" where
  "generateExtractCode env = draw_chars env upper_alphabet 6"

definition generateUniqueFilename :: "'d Env \<Rightarrow> bytes \<Rightarrow> ('d, bytes) hm" where
  "generateUniqueFilename env prefix =
     hbind (hget (\<lambda>s. env_now_ms env (ap_ticks (h_app s)))) (\<lambda>timestamp.
     hbind (draw env 1000 9999) (\<lambda>k.
     hret (prefix @ ''_'' @ int_to_string timestamp @ ''_'' @ nat_to_string k)))"

text \<open>\<^verbatim>\<open>sha256\<close> is \<^verbatim>\<open>std::hash\<close> in hexadecimal.\<close>

fun nat_to_hex :: "nat \<Rightarrow> bytes" where
  "nat_to_hex n =
     (if n < 16 then [tolower (hex_digit n)] else nat_to_hex (n div 16) @ [tolower (hex_digit (n mod 16))])"

declare nat_to_hex.simps [simp del]

definition sha256 :: "'d Env \<Rightarrow> bytes \<Rightarrow> bytes" where
  "sha256 env input = nat_to_hex (env_hash env input mod 2 ^ 64)"

section \<open>File types and names\<close>

definition find_last :: "char \<Rightarrow> bytes \<Rightarrow> nat option" where
  "find_last c s = (if c \<in> set s then Some (length s - 1 - std_find c (rev s)) else None)"

definition getFileType :: "bytes \<Rightarrow> bytes" where
  "getFileType filename =
     (case find_last CHR ''.'' filename of
        None \<Rightarrow> ''unknown''
      | Some dotPos \<Rightarrow>
          if dotPos < length filename - 1
          then let extension = map tolower (drop (Suc dotPos) filename)
               in if extension \<in> {''jpg'', ''jpeg'', ''png'', ''gif''} then ''image''
                  else if extension \<in> {''mp4'', ''avi'', ''mov'', ''wmv''} then ''video''
                  else if extension = ''pdf'' then ''pdf''
                  else if extension \<in> {''doc'', ''docx''} then ''word''
                  else if extension \<in> {''xls'', ''xlsx''} then ''excel''
                  else if extension \<in> {''ppt'', ''pptx''} then ''powerpoint''
                  else if extension \<in> {''txt'', ''csv''} then ''text''
                  else ''other''
          else ''unknown'')"

text \<open>
  The application's own \<^verbatim>\<open>urlDecode\<close>: \<open>ii\<close> is the low byte of its variable, which keeps its value when
  \<^verbatim>\<open>sscanf\<close> stores nothing, and which is not initialised.
\<close>

fun app_urlDecode_loop :: "char \<Rightarrow> bytes \<Rightarrow> bytes" where
  "app_urlDecode_loop ii [] = []"
| "app_urlDecode_loop ii (c # cs) =
     (if c \<noteq> CHR ''%''
      then (if c = CHR ''+'' then CHR '' '' else c) # app_urlDecode_loop ii cs
      else let ii' = (case sscanf_x (take 2 cs) of Some ch \<Rightarrow> ch | None \<Rightarrow> ii)
           in ii' # app_urlDecode_loop ii' (drop 2 cs))"

definition app_urlDecode :: "'d Env \<Rightarrow> bytes \<Rightarrow> bytes" where
  "app_urlDecode env encoded = app_urlDecode_loop (env_junk env 0) encoded"

section \<open>The file name mapping\<close>

definition uploadDir :: bytes where
  "uploadDir = ''uploads''"

definition mappingFile :: bytes where
  "mappingFile = ''uploads/filename_mapping.json''"

definition loadFilenameMapping :: "'d Env \<Rightarrow> 'd App \<Rightarrow> 'd App" where
  "loadFilenameMapping env a =
     (case ap_files a mappingFile of
        None \<Rightarrow> a
      | Some d \<Rightarrow>
          (case env_parse env d of
             Inl _ \<Rightarrow> a
           | Inr j \<Rightarrow> (case env_get_map env j of Inl _ \<Rightarrow> a | Inr m \<Rightarrow> a\<lparr>ap_mapping := m\<rparr>)))"

text \<open>The stream is opened, and the file emptied, before the dump that may throw.\<close>

definition json_of_mapping :: "bytes smap \<Rightarrow> json" where
  "json_of_mapping m = JObj (map (\<lambda>(k, v). (k, JStr v)) m)"

definition saveFilenameMapping :: "'d Env \<Rightarrow> 'd App \<Rightarrow> 'd App" where
  "saveFilenameMapping env a =
     (if env_can_write env mappingFile
      then a\<lparr>ap_files := (ap_files a)(mappingFile \<mapsto>
               (case env_dump_indented env (json_of_mapping (ap_mapping a)) of Inl _ \<Rightarrow> [] | Inr d \<Rightarrow> d))\<rparr>
      else a)"

definition addFilenameMapping :: "'d Env \<Rightarrow> bytes \<Rightarrow> bytes \<Rightarrow> 'd App \<Rightarrow> 'd App" where
  "addFilenameMapping env serverFilename originalFilename a =
     (let a1 = loadFilenameMapping env a
      in saveFilenameMapping env (a1\<lparr>ap_mapping := map_put serverFilename originalFilename (ap_mapping a1)\<rparr>))"

definition eraseFilenameMapping :: "'d Env \<Rightarrow> bytes \<Rightarrow> 'd App \<Rightarrow> 'd App" where
  "eraseFilenameMapping env filename a =
     (let a1 = loadFilenameMapping env a
      in saveFilenameMapping env (a1\<lparr>ap_mapping := map_erase filename (ap_mapping a1)\<rparr>))"

definition getOriginalFilename :: "'d Env \<Rightarrow> bytes \<Rightarrow> 'd App \<Rightarrow> bytes \<times> 'd App" where
  "getOriginalFilename env serverFilename a =
     (let a1 = loadFilenameMapping env a
      in (case map_of (ap_mapping a1) serverFilename of Some v \<Rightarrow> v | None \<Rightarrow> serverFilename, a1))"

definition getAllFileMappings :: "'d Env \<Rightarrow> 'd App \<Rightarrow> bytes smap \<times> 'd App" where
  "getAllFileMappings env a = (let a1 = loadFilenameMapping env a in (ap_mapping a1, a1))"

section \<open>Statements and responses\<close>

lemma request_of_update [simp]:
  "request_of (s\<lparr>h_app := a\<rparr>) = request_of s" "request_of (s\<lparr>h_resp := r\<rparr>) = request_of s"
  by (simp_all add: request_of_def)

lemma executeQuery_off: "\<not> ap_mysql (h_app s) \<Longrightarrow> executeQuery env q s = (Inr False, s)"
  by (simp add: executeQuery_def run_query_def)

lemma executeQuery_on:
  assumes "ap_mysql (h_app s)" and "env_query env (ap_db (h_app s)) (c_str q) = (reply, db)"
  shows "executeQuery env q s = (Inr (reply \<noteq> Db_error),
           s\<lparr>h_app := (h_app s)\<lparr>ap_db := db, ap_issued := ap_issued (h_app s) @ [c_str q]\<rparr>\<rparr>)"
  using assms by (simp add: executeQuery_def run_query_def)

lemma executeQueryWithResult_on:
  assumes "ap_mysql (h_app s)" and "env_query env (ap_db (h_app s)) (c_str q) = (reply, db)"
  shows "executeQueryWithResult env q s = (Inr (case reply of Db_error \<Rightarrow> None | Db_ok rows \<Rightarrow> rows),
           s\<lparr>h_app := (h_app s)\<lparr>ap_db := db, ap_issued := ap_issued (h_app s) @ [c_str q]\<rparr>\<rparr>)"
  using assms by (simp add: executeQueryWithResult_def run_query_def)

lemma escapeString_on:
  "ap_mysql (h_app s) \<Longrightarrow> escapeString env v s = (Inr (c_str (env_escape env v)), s)"
  by (simp add: escapeString_def)

definition error_json :: "HttpStatusCode \<Rightarrow> bytes \<Rightarrow> json" where
  "error_json st message = JObj [(''code'', JInt (int (status_code st))), (''message'', JStr message)]"

lemma fail_eq:
  assumes "env_dump env (error_json st message) = Inr body"
  shows "fail env message st s =
    (Inr True, s\<lparr>h_resp := setBody body (respond st message ''application/json'' (h_resp s)),
                 h_conn := setWriteCompleteCallback Cb_shutdown (h_conn s)\<rparr>)"
  using assms
  by (simp add: fail_def sendError_def hbind_def hthen_def upd_resp_def upd_conn_def hlib_def
      error_json_def shutdown_when_written_def hret_def)

lemma respond_fields [simp]:
  "rs_statusCode (respond st m ct r) = st" "rs_closeConnection (respond st m ct r) = rs_closeConnection r"
  "rs_statusCode (setBody b r) = rs_statusCode r" "rs_body (setBody b r) = b"
  by (simp_all add: respond_def addRespHeader_def setContentType_def setStatusMessage_def
      setStatusCode_def setBody_def)

section \<open>Requests without a session\<close>

text \<open>The session of the request is not valid: there is no id, no handle, or no such row.\<close>

definition no_session :: "'d Env \<Rightarrow> 'd HState \<Rightarrow> bool" where
  "no_session env s \<longleftrightarrow>
     (let sid = getHeader (request_of s) ''X-Session-ID''
      in sid = [] \<or> \<not> ap_mysql (h_app s) \<or>
         (let (reply, _) = env_query env (ap_db (h_app s)) (c_str (session_select (c_str (env_escape env sid))))
          in reply = Db_error \<or> reply = Db_ok None \<or> reply = Db_ok (Some [])))"

lemma validateSession_none:
  assumes "no_session env s"
  shows "\<exists>db iss. validateSession env (getHeader (request_of s) ''X-Session-ID'') s =
           (Inr None, s\<lparr>h_app := (h_app s)\<lparr>ap_db := db, ap_issued := ap_issued (h_app s) @ iss\<rparr>\<rparr>) \<and>
         set iss \<subseteq> {c_str (session_select (c_str (env_escape env (getHeader (request_of s) ''X-Session-ID''))))}"
proof -
  let ?sid = "getHeader (request_of s) ''X-Session-ID''"
  have same: "s = s\<lparr>h_app := (h_app s)\<lparr>ap_db := ap_db (h_app s), ap_issued := ap_issued (h_app s) @ []\<rparr>\<rparr>"
    by simp
  consider (empty) "?sid = []" | (off) "?sid \<noteq> []" "\<not> ap_mysql (h_app s)"
    | (on) "?sid \<noteq> []" "ap_mysql (h_app s)" by blast
  then show ?thesis
  proof cases
    case empty
    then have "validateSession env ?sid s = (Inr None, s)" by (simp add: validateSession_def)
    with same show ?thesis by (metis empty_set empty_subsetI)
  next
    case off
    then have "validateSession env ?sid s = (Inr None, s)"
      by (simp add: validateSession_def hbind_def escapeString_def executeQueryWithResult_def run_query_def)
    with same show ?thesis by (metis empty_set empty_subsetI)
  next
    case on
    let ?q = "session_select (c_str (env_escape env ?sid))"
    obtain reply db where r: "env_query env (ap_db (h_app s)) (c_str ?q) = (reply, db)"
      by (cases "env_query env (ap_db (h_app s)) (c_str ?q)")
    have "reply = Db_error \<or> reply = Db_ok None \<or> reply = Db_ok (Some [])"
      using assms on r by (auto simp: no_session_def Let_def)
    then have "validateSession env ?sid s =
        (Inr None, s\<lparr>h_app := (h_app s)\<lparr>ap_db := db, ap_issued := ap_issued (h_app s) @ [c_str ?q]\<rparr>\<rparr>)"
      using on(1) escapeString_on [OF on(2)] executeQueryWithResult_on [OF on(2) r]
      by (auto simp: validateSession_def hbind_def)
    then show ?thesis by (intro exI conjI) auto
  qed
qed

lemma with_session_none:
  assumes "no_session env s" and "env_dump env (error_json k401Unauthorized msg_not_logged_in) = Inr body"
  shows "\<exists>db iss s'. with_session env k s = (Inr True, s') \<and>
           h_app s' = (h_app s)\<lparr>ap_db := db, ap_issued := ap_issued (h_app s) @ iss\<rparr> \<and>
           set iss \<subseteq> {c_str (session_select (c_str (env_escape env (getHeader (request_of s) ''X-Session-ID''))))} \<and>
           rs_statusCode (h_resp s') = k401Unauthorized \<and> rs_body (h_resp s') = body"
proof -
  obtain db iss where v: "validateSession env (getHeader (request_of s) ''X-Session-ID'') s =
      (Inr None, s\<lparr>h_app := (h_app s)\<lparr>ap_db := db, ap_issued := ap_issued (h_app s) @ iss\<rparr>\<rparr>)"
    "set iss \<subseteq> {c_str (session_select (c_str (env_escape env (getHeader (request_of s) ''X-Session-ID''))))}"
    using validateSession_none [OF assms(1)] by blast
  have "with_session env k s = fail env msg_not_logged_in k401Unauthorized
      (s\<lparr>h_app := (h_app s)\<lparr>ap_db := db, ap_issued := ap_issued (h_app s) @ iss\<rparr>\<rparr>)"
    using v(1) by (simp add: with_session_def header_def hbind_def)
  then show ?thesis
    using fail_eq [OF assms(2)] v(2) by (intro exI conjI) auto
qed

section \<open>What statements leave alone\<close>

text \<open>Only the database and the list of statements differ.\<close>

definition db_only :: "'d HState \<Rightarrow> 'd HState \<Rightarrow> bool" where
  "db_only s s' \<longleftrightarrow> (\<exists>db iss. s' = s\<lparr>h_app := (h_app s)\<lparr>ap_db := db, ap_issued := ap_issued (h_app s) @ iss\<rparr>\<rparr>)"

lemma db_only_refl [simp, intro]: "db_only s s"
  unfolding db_only_def by (intro exI [of _ "ap_db (h_app s)"] exI [of _ "[]"]) simp

lemma db_only_trans: "db_only s s' \<Longrightarrow> db_only s' s'' \<Longrightarrow> db_only s s''"
  by (fastforce simp: db_only_def)

lemma db_only_fields:
  assumes "db_only s s'"
  shows "h_conn s' = h_conn s" "h_resp s' = h_resp s" "ap_mysql (h_app s') = ap_mysql (h_app s)"
    "ap_files (h_app s') = ap_files (h_app s)" "ap_downs (h_app s') = ap_downs (h_app s)"
    "ap_mapping (h_app s') = ap_mapping (h_app s)" "ap_ticks (h_app s') = ap_ticks (h_app s)"
    "request_of s' = request_of s"
  using assms by (auto simp: db_only_def request_of_def)

lemma run_query_db_only: "run_query env q (h_app s) = (r, a) \<Longrightarrow> db_only s (s\<lparr>h_app := a\<rparr>)"
proof (cases "ap_mysql (h_app s)")
  case True
  moreover assume "run_query env q (h_app s) = (r, a)"
  ultimately show ?thesis by (auto simp: run_query_def db_only_def split: prod.splits)
next
  case False
  moreover assume "run_query env q (h_app s) = (r, a)"
  ultimately have "a = h_app s" by (simp add: run_query_def)
  then show ?thesis by simp
qed

lemma executeQuery_db_only: "executeQuery env q s = (r, s') \<Longrightarrow> db_only s s'"
  by (auto simp: executeQuery_def run_query_db_only split: prod.splits)

lemma executeQueryWithResult_db_only: "executeQueryWithResult env q s = (r, s') \<Longrightarrow> db_only s s'"
  by (auto simp: executeQueryWithResult_def run_query_db_only split: prod.splits)

text \<open>The text of a value in a statement.\<close>

definition esc :: "'d Env \<Rightarrow> 'd HState \<Rightarrow> bytes \<Rightarrow> bytes" where
  "esc env s v = (if ap_mysql (h_app s) then c_str (env_escape env v) else v)"

lemma escapeString_eq: "escapeString env v s = (Inr (esc env s v), s)"
  by (simp add: escapeString_def esc_def)

lemma esc_db_only: "db_only s s' \<Longrightarrow> esc env s' v = esc env s v"
  by (simp add: esc_def db_only_fields)

lemma hbind_Inr_iff [result_iff]:
  "hbind m f s = (Inr y, s') \<longleftrightarrow> (\<exists>x s1. m s = (Inr x, s1) \<and> f x s1 = (Inr y, s'))"
  by (auto simp: hbind_def split: prod.splits sum.splits)

lemma hof_Inr_iff [result_iff]: "hof r s = (Inr x, s') \<longleftrightarrow> r = Inr x \<and> s' = s"
  by auto

lemma hcatch_Inr_iff [result_iff]:
  "hcatch m h s = (Inr y, s') \<longleftrightarrow>
     m s = (Inr y, s') \<or> (\<exists>w s1. m s = (Inl (Exception w), s1) \<and> h w s1 = (Inr y, s'))"
  by (auto simp: hcatch_def split: prod.splits sum.splits exn.splits)

lemma hlib_Inr_iff [result_iff]: "hlib r s = (Inr x, s') \<longleftrightarrow> r = Inr x \<and> s' = s"
  by (auto simp: hlib_def split: sum.splits)

lemma fail_status: "fail env message st s = (Inr b, s') \<Longrightarrow> rs_statusCode (h_resp s') = st"
  by (auto simp: fail_def sendError_def hthen_def result_iff hlib_def shutdown_when_written_def
      upd_resp_def upd_conn_def split: sum.splits)

lemma send_json_Inr:
  assumes "send_json env j s = (Inr b, s')"
  shows "b" "h_app s' = h_app s" "rs_statusCode (h_resp s') = k200Ok" "env_dump env j = Inr (rs_body (h_resp s'))"
  using assms
  by (auto simp: send_json_def result_iff shutdown_when_written_def)

text \<open>The statements a computation issued.\<close>

lemma executeQueryWithResult_issued:
  "executeQueryWithResult env q s = (r, s') \<Longrightarrow>
     ap_issued (h_app s') = ap_issued (h_app s) @ (if ap_mysql (h_app s) then [c_str q] else [])"
  by (auto simp: executeQueryWithResult_def run_query_def split: prod.splits if_splits)

lemma executeQuery_issued:
  "executeQuery env q s = (r, s') \<Longrightarrow>
     ap_issued (h_app s') = ap_issued (h_app s) @ (if ap_mysql (h_app s) then [c_str q] else [])"
  by (auto simp: executeQuery_def run_query_def split: prod.splits if_splits)

text \<open>Random strings: their length and their characters; only the draws are used up.\<close>

definition drawn :: "'d Env \<Rightarrow> bytes \<Rightarrow> nat \<Rightarrow> nat \<Rightarrow> bytes" where
  "drawn env chars k n = map (\<lambda>i. chars ! (env_random env i mod 36)) [k..<k + n]"

lemma draw_chars_eq:
  "draw_chars env chars n s = (Inr (drawn env chars (ap_ticks (h_app s)) n),
     s\<lparr>h_app := (h_app s)\<lparr>ap_ticks := ap_ticks (h_app s) + n\<rparr>\<rparr>)"
proof (induction n arbitrary: s)
  case (Suc n)
  have "[k..<Suc (k + n)] = k # [Suc k..<Suc k + n]" for k by (simp add: upt_conv_Cons)
  then show ?case using Suc by (simp add: draw_def hbind_def drawn_def)
qed (simp add: drawn_def)

lemma drawn_chars: "length chars = 36 \<Longrightarrow> length (drawn env chars k n) = n \<and> set (drawn env chars k n) \<subseteq> set chars"
  by (auto simp: drawn_def intro!: nth_mem)

lemma alphabets: "length lower_alphabet = 36" "length upper_alphabet = 36"
  by (simp_all add: lower_alphabet_def upper_alphabet_def)

text \<open>\<open>answered env q row s\<close>: the server answers the statement in that state with a first row.\<close>

definition answered :: "'d Env \<Rightarrow> bytes \<Rightarrow> db_row \<Rightarrow> 'd HState \<Rightarrow> bool" where
  "answered env q row s \<longleftrightarrow> ap_mysql (h_app s) \<and>
     (\<exists>rows db. env_query env (ap_db (h_app s)) (c_str q) = (Db_ok (Some (row # rows)), db))"

lemma executeQueryWithResult_row:
  "executeQueryWithResult env q s = (Inr (Some (row # rows)), s') \<Longrightarrow> answered env q row s"
  by (auto simp: executeQueryWithResult_def run_query_def answered_def split: if_splits prod.splits
      db_reply.splits)

text \<open>A valid session: the row of the session table that has the user.\<close>

definition session_of :: "'d Env \<Rightarrow> bytes \<Rightarrow> 'd HState \<Rightarrow> int \<Rightarrow> bytes \<Rightarrow> bool" where
  "session_of env sid s userId username \<longleftrightarrow> sid \<noteq> [] \<and>
     (\<exists>row. answered env (session_select (esc env s sid)) row s \<and> int_cell env row 0 = Inr userId \<and>
            str_cell env row 1 = Inr username)"

text \<open>The two parts of \<^verbatim>\<open>validateSession\<close>: the select, and what follows from its rows.\<close>

definition session_rows :: "'d Env \<Rightarrow> bytes \<Rightarrow> db_row list option \<Rightarrow> ('d, (int \<times> bytes) option) hm" where
  "session_rows env sessionId result = (case result of
       None \<Rightarrow> hret None
     | Some [] \<Rightarrow> hret None
     | Some (row # _) \<Rightarrow>
         hbind (hof (int_cell env row 0)) (\<lambda>userId.
         hbind (hof (str_cell env row 1)) (\<lambda>username.
         hbind (escapeString env sessionId) (\<lambda>sid.
         hbind (executeQuery env (session_extend sid)) (\<lambda>_.
         hret (Some (userId, username)))))))"

lemma validateSession_parts:
  assumes "sid \<noteq> []"
  shows "validateSession env sid s =
    hbind (executeQueryWithResult env (session_select (esc env s sid))) (session_rows env sid) s"
  using assms by (simp add: validateSession_def session_rows_def [abs_def] escapeString_eq hbind_val)

lemma session_rows_Inr:
  assumes "session_rows env sid result s = (Inr v, s')"
  shows "db_only s s'"
    and "v = Some (u, n) \<Longrightarrow> \<exists>row rows. result = Some (row # rows) \<and> int_cell env row 0 = Inr u \<and>
           str_cell env row 1 = Inr n"
  using assms
  by (auto simp: session_rows_def result_iff escapeString_eq split: option.splits list.splits
      dest: executeQuery_db_only)

lemma validateSession_db_only:
  assumes "validateSession env sid s = (Inr v, s')"
  shows "db_only s s'"
proof (cases "sid = []")
  case True with assms show ?thesis by (simp add: validateSession_def)
next
  case False
  with assms show ?thesis
    by (auto simp: validateSession_parts result_iff
        intro: db_only_trans [OF executeQueryWithResult_db_only session_rows_Inr(1)])
qed

lemma validateSession_user:
  assumes "validateSession env sid s = (Inr (Some (u, n)), s')"
  shows "session_of env sid s u n"
proof -
  from assms have sid: "sid \<noteq> []" by (auto simp: validateSession_def)
  with assms obtain result s1 where
    1: "executeQueryWithResult env (session_select (esc env s sid)) s = (Inr result, s1)"
    and 2: "session_rows env sid result s1 = (Inr (Some (u, n)), s')"
    by (auto simp: validateSession_parts result_iff)
  from session_rows_Inr(2) [OF 2] 1 sid show ?thesis
    by (auto simp: session_of_def dest!: executeQueryWithResult_row)
qed

section \<open>A concrete environment\<close>

text \<open>Simple instances of the parameters, to evaluate handlers on.\<close>

definition simple_env :: "('d \<Rightarrow> bytes \<Rightarrow> db_reply \<times> 'd) \<Rightarrow> 'd Env" where
  "simple_env query =
     \<lparr>env_query = query, env_insert_id = (\<lambda>_. 7), env_escape = (\<lambda>v. v), env_parse = (\<lambda>_. Inr JNull),
      env_get_str = (\<lambda>_ k. Inr k), env_get_int = (\<lambda>_ _. Inr 1), env_value_str = (\<lambda>_ _ d. Inr d),
      env_has = (\<lambda>_ _. False), env_is_null = (\<lambda>_ _. Inr True), env_get_map = (\<lambda>_. Inr []),
      env_dump = (\<lambda>_. Inr ''{}''), env_dump_indented = (\<lambda>_. Inr ''{}''), env_hash = length,
      env_random = (\<lambda>k. k), env_now_ms = (\<lambda>_. 1000), env_can_write = (\<lambda>_. True), env_root = ''app'',
      env_junk = (\<lambda>_. NUL), env_null_what = ''null'', env_freed = (\<lambda>row. row)\<rparr>"

definition simple_state :: "'d \<Rightarrow> files \<Rightarrow> HttpRequest \<Rightarrow> 'd HState" where
  "simple_state db fs req =
     \<lparr>h_app = \<lparr>ap_db = db, ap_mysql = True, ap_files = fs, ap_mapping = [], ap_downs = [], ap_ticks = 0,
               ap_issued = []\<rparr>,
      h_conn = (mkTcpConnection 5 None [])\<lparr>tc_context := Some (mkHttpContext\<lparr>hc_request := req\<rparr>)\<rparr>,
      h_resp = mkHttpResponse False\<rparr>"

lemma simple_env_simps [simp]:
  "env_query (simple_env q) = q" "env_escape (simple_env q) v = v" "env_dump (simple_env q) j = Inr ''{}''"
  "env_can_write (simple_env q) path" "env_junk (simple_env q) k = NUL" "env_random (simple_env q) k = k"
  "env_null_what (simple_env q) = ''null''" "env_root (simple_env q) = ''app''"
  "env_insert_id (simple_env q) db = 7" "env_now_ms (simple_env q) k = 1000"
  by (simp_all add: simple_env_def)

lemma simple_state_simps [simp]:
  "h_app (simple_state db fs req) = \<lparr>ap_db = db, ap_mysql = True, ap_files = fs, ap_mapping = [], ap_downs = [],
     ap_ticks = 0, ap_issued = []\<rparr>"
  "request_of (simple_state db fs req) = req" "h_resp (simple_state db fs req) = mkHttpResponse False"
  "tc_context (h_conn (simple_state db fs req)) = Some (mkHttpContext\<lparr>hc_request := req\<rparr>)"
  by (simp_all add: simple_state_def request_of_def conn_request_def mkHttpContext_def)

end
