(* ===== verification/App_Upload.thy ===== *)
theory App_Upload
  imports App_Base
begin

text \<open>
  \<^verbatim>\<open>HttpUploadHandler::handleFileUpload\<close> (\<^verbatim>\<open>app/HttpUploader.hpp\<close>): a multipart upload that arrives in one
  or more parts.  The two regular expressions of the handler are search functions; the state of the
  upload lives in the context of the connection.
\<close>

section \<open>Definitions\<close>

definition not_line_end :: "char \<Rightarrow> bool" where
  "not_line_end c \<longleftrightarrow> c \<noteq> CHR 0x0A \<and> c \<noteq> CHR 0x0D"

text \<open>\<^verbatim>\<open>regex_search\<close> for \<^verbatim>\<open>boundary=(.+)$\<close>.\<close>

fun find_boundary :: "bytes \<Rightarrow> bytes option" where
  "find_boundary [] = None"
| "find_boundary (c # cs) =
     (if starts_with ''boundary='' (c # cs) \<and> drop 9 (c # cs) \<noteq> [] \<and>
         list_all not_line_end (drop 9 (c # cs))
      then Some (drop 9 (c # cs)) else find_boundary cs)"

text \<open>\<^verbatim>\<open>regex_search\<close> for \<^verbatim>\<open>Content-Disposition:.*filename="([^"]+)"\<close>, whose \<^verbatim>\<open>.*\<close> is greedy.\<close>

definition filename_at :: "bytes \<Rightarrow> nat \<Rightarrow> bytes option" where
  "filename_at r q =
     (let after = drop (q + 10) r; val = takeWhile (\<lambda>c. c \<noteq> CHR 0x22) after
      in if starts_with (''filename='' @ [CHR 0x22]) (drop q r) \<and> val \<noteq> [] \<and> length val < length after
         then Some val else None)"

fun filename_upto :: "bytes \<Rightarrow> nat \<Rightarrow> bytes option" where
  "filename_upto r 0 = filename_at r 0"
| "filename_upto r (Suc q) =
     (case filename_at r (Suc q) of Some v \<Rightarrow> Some v | None \<Rightarrow> filename_upto r q)"

fun find_disposition :: "bytes \<Rightarrow> bytes option" where
  "find_disposition [] = None"
| "find_disposition (c # cs) =
     (if starts_with ''Content-Disposition:'' (c # cs)
      then case filename_upto (drop 20 (c # cs)) (length (takeWhile not_line_end (drop 20 (c # cs)))) of
             Some v \<Rightarrow> Some v
           | None \<Rightarrow> find_disposition cs
      else find_disposition cs)"

definition blank_line :: bytes where
  "blank_line = kCRLF @ kCRLF"

definition put_upload :: "FileUploadContext \<Rightarrow> ('d, unit) hm" where
  "put_upload u = upd_conn (\<lambda>c. c\<lparr>tc_context :=
     map_option (\<lambda>ctx. setContext ctx (Some (Upload_Ctx u))) (tc_context c)\<rparr>)"

definition clear_body :: "('d, unit) hm" where
  "clear_body = upd_conn (\<lambda>c. c\<lparr>tc_context :=
     map_option (\<lambda>ctx. ctx\<lparr>hc_request := (hc_request ctx)\<lparr>rq_body := []\<rparr>\<rparr>) (tc_context c)\<rparr>)"

text \<open>\<^verbatim>\<open>uploadContext->writeData\<close>, with the file system and the shared context updated.\<close>

definition upload_write :: "'d Env \<Rightarrow> FileUploadContext \<Rightarrow> bytes \<Rightarrow> ('d, FileUploadContext) hm" where
  "upload_write env u data =
     hbind (hget (\<lambda>s. ap_files (h_app s))) (\<lambda>fs.
     hbind (hlib (writeData (env_can_write env) fs u data)) (\<lambda>(u', fs').
     hthen (upd_app (\<lambda>a. a\<lparr>ap_files := fs'\<rparr>)) (hthen (put_upload u') (hret u'))))"

definition set_upload_state :: "UploadState \<Rightarrow> FileUploadContext \<Rightarrow> ('d, FileUploadContext) hm" where
  "set_upload_state st u = (let u' = u\<lparr>uc_state := st\<rparr> in hthen (put_upload u') (hret u'))"

text \<open>The name the client gives; without a header an empty body ends the request.\<close>

definition upload_name :: "'d Env \<Rightarrow> ('d, bytes option) hm" where
  "upload_name env =
     hbind (header ''X-File-Name'') (\<lambda>headerFilename.
     if headerFilename \<noteq> [] then hret (Some (app_urlDecode env headerFilename))
     else hbind (hget (\<lambda>s. rq_body (request_of s))) (\<lambda>body.
          if body = [] then hret None
          else hret (Some (case find_disposition body of Some v \<Rightarrow> v | None \<Rightarrow> ''unknown_file''))))"

text \<open>
  The first part: the content begins behind the part header.  When the end boundary lies before
  that, the length \<^verbatim>\<open>endPos - pos\<close> wraps around and the write leaves the string.
\<close>

definition upload_first_part :: "'d Env \<Rightarrow> FileUploadContext \<Rightarrow> bytes \<Rightarrow> ('d, FileUploadContext) hm" where
  "upload_first_part env u body =
     (case str_find blank_line body of
        None \<Rightarrow> hret u
      | Some p \<Rightarrow>
          let pos = p + 4
          in case str_find (uc_boundary u @ ''--'') body of
               Some endPos \<Rightarrow>
                 hbind (if 0 < endPos
                        then if endPos < pos then hthrow Crash
                             else upload_write env u (chunk pos (endPos - pos) body)
                        else hret u) (set_upload_state kUpComplete)
             | None \<Rightarrow>
                 hbind (if pos < length body then upload_write env u (drop pos body) else hret u)
                   (set_upload_state kUpBoundary))"

definition upload_start :: "'d Env \<Rightarrow> bytes \<Rightarrow> ('d, FileUploadContext option) hm" where
  "upload_start env boundary =
     hbind (upload_name env) (\<lambda>name.
     case name of
       None \<Rightarrow> hthen (sendError env ''Request body is empty'' k400BadRequest) (hret None)
     | Some originalFilename \<Rightarrow>
         hbind (generateUniqueFilename env ''upload'') (\<lambda>filename.
         hbind (hget (\<lambda>s. ap_files (h_app s))) (\<lambda>fs.
         hbind (hlib (mkFileUploadContext (env_can_write env) fs (uploadDir @ ''/'' @ filename)
                        originalFilename)) (\<lambda>(u, fs').
         hthen (upd_app (\<lambda>a. a\<lparr>ap_files := fs'\<rparr>))
         (let u1 = u\<lparr>uc_boundary := boundary\<rparr>
          in hthen (put_upload u1)
             (hbind (hget (\<lambda>s. rq_body (request_of s))) (\<lambda>body.
              hbind (upload_first_part env u1 body) (\<lambda>u2.
              hthen clear_body (hret (Some u2))))))))))"

text \<open>The later parts, by the state of the upload.\<close>

definition upload_next_part :: "'d Env \<Rightarrow> FileUploadContext \<Rightarrow> bytes \<Rightarrow> ('d, FileUploadContext) hm" where
  "upload_next_part env u body =
     (if body = [] then hret u
      else case uc_state u of
        kUpBoundary \<Rightarrow>
          (case str_find (uc_boundary u @ ''--'') body of
             Some endPos \<Rightarrow>
               hbind (if 0 < endPos then upload_write env u (take endPos body) else hret u)
                 (set_upload_state kUpComplete)
           | None \<Rightarrow>
               (case str_find (uc_boundary u) body of
                  Some boundaryPos \<Rightarrow>
                    (case str_find_from blank_line body boundaryPos of
                       Some contentStart \<Rightarrow>
                         hbind (if 0 < boundaryPos then upload_write env u (take boundaryPos body) else hret u)
                           (set_upload_state kUpContent)
                     | None \<Rightarrow> hret u)
                | None \<Rightarrow> upload_write env u body))
      | kUpContent \<Rightarrow>
          (case str_find (uc_boundary u) body of
             Some boundaryPos \<Rightarrow>
               hbind (upload_write env u (take boundaryPos body)) (set_upload_state kUpBoundary)
           | None \<Rightarrow> upload_write env u body)
      | kUpComplete \<Rightarrow> hret u
      | kUpHeaders \<Rightarrow> hret u)"

definition path_filename :: "bytes \<Rightarrow> bytes" where
  "path_filename path = (case find_last CHR ''/'' path of Some p \<Rightarrow> drop (Suc p) path | None \<Rightarrow> path)"

definition upload_insert :: "bytes \<Rightarrow> bytes \<Rightarrow> nat \<Rightarrow> bytes \<Rightarrow> int \<Rightarrow> bytes" where
  "upload_insert server original len ftype userId =
     ''INSERT INTO files (filename, original_filename, file_size, '' @ ''file_type, user_id) VALUES ('' @
     quoted server @ '', '' @ quoted original @ '', '' @ nat_to_string len @ '', '' @ quoted ftype @
     '', '' @ int_to_string userId @ '')''"

definition upload_finish :: "'d Env \<Rightarrow> int \<Rightarrow> FileUploadContext \<Rightarrow> ('d, bool) hm" where
  "upload_finish env userId u =
     (let serverFilename = path_filename (uc_filename u);
          originalFilename = uc_originalFilename u;
          fileSize = uc_totalBytes u
      in hbind (escapeString env serverFilename) (\<lambda>sname.
         hbind (escapeString env originalFilename) (\<lambda>oname.
         hbind (escapeString env (getFileType originalFilename)) (\<lambda>ftype.
         hbind (executeQuery env (upload_insert sname oname fileSize ftype userId)) (\<lambda>_.
         hbind (mysql_insert_id env) (\<lambda>fileId.
         hbind (send_json env (JObj [(''code'', JInt 0), (''message'', JStr msg_upload_ok),
                  (''fileId'', JInt fileId), (''filename'', JStr serverFilename),
                  (''originalFilename'', JStr originalFilename), (''size'', JInt (int fileSize))])) (\<lambda>_.
         hthen (upd_conn (\<lambda>c. c\<lparr>tc_context := map_option (\<lambda>ctx. setContext ctx None) (tc_context c)\<rparr>))
         (hret True))))))))"

text \<open>What the handler does once the upload has its context.\<close>

definition upload_done :: "'d Env \<Rightarrow> int \<Rightarrow> FileUploadContext \<Rightarrow> ('d, bool) hm" where
  "upload_done env userId u =
     hthen clear_body
     (hbind (hget (\<lambda>s. case tc_context (h_conn s) of Some ctx \<Rightarrow> gotAll ctx | None \<Rightarrow> False)) (\<lambda>all.
      if uc_state u = kUpComplete \<or> all then upload_finish env userId u else hret False))"

definition handleFileUpload :: "'d Env \<Rightarrow> ('d, bool) hm" where
  "handleFileUpload env =
     with_session env (\<lambda>userId.
     hbind (hget (\<lambda>s. tc_context (h_conn s))) (\<lambda>httpContext.
     case httpContext of
       None \<Rightarrow> fail env ''Internal Server Error'' k500InternalServerError
     | Some ctx \<Rightarrow>
         (case getContext ctx of
            Some (Down_Ctx _) \<Rightarrow> hthrow Crash
          | None \<Rightarrow>
              hbind (header ''Content-Type'') (\<lambda>contentType.
              if contentType = [] then fail env ''Content-Type header is missing'' k400BadRequest
              else case find_boundary contentType of
                     None \<Rightarrow> fail env ''Invalid Content-Type'' k400BadRequest
                   | Some b \<Rightarrow>
                       hbind (hcatch (upload_start env (''--'' @ b))
                                (\<lambda>_. hthen (sendError env ''Failed to create file'' k500InternalServerError)
                                      (hret None))) (\<lambda>r.
                       case r of
                         Some u \<Rightarrow> upload_done env userId u
                       | None \<Rightarrow> hret True))
          | Some (Upload_Ctx u) \<Rightarrow>
              hbind (hget (\<lambda>s. rq_body (request_of s))) (\<lambda>body.
              hbind (hcatch (hbind (upload_next_part env u body) (\<lambda>u'. hret (Some u')))
                       (\<lambda>_. hthen (sendError env ''Failed to process data'' k500InternalServerError)
                             (hret None))) (\<lambda>r.
              case r of
                Some u' \<Rightarrow> upload_done env userId u'
              | None \<Rightarrow> hret True)))))"


section \<open>What is stored\<close>

definition stored :: "'d HState \<Rightarrow> bytes \<Rightarrow> bytes" where
  "stored s path = (case ap_files (h_app s) path of Some d \<Rightarrow> d | None \<Rightarrow> [])"

definition only_file :: "bytes \<Rightarrow> 'd HState \<Rightarrow> 'd HState \<Rightarrow> bool" where
  "only_file path s s' \<longleftrightarrow> (\<forall>p. p \<noteq> path \<longrightarrow> ap_files (h_app s') p = ap_files (h_app s) p) \<and>
     (ap_files (h_app s) path \<noteq> None \<longrightarrow> ap_files (h_app s') path \<noteq> None)"

text \<open>The outcome of writing: the upload grows by \<open>d\<close>, and so does its file; nothing else changes.\<close>

definition wrote :: "FileUploadContext \<Rightarrow> bytes \<Rightarrow> UploadState \<Rightarrow> 'd HState \<Rightarrow>
    (exn + FileUploadContext) \<times> 'd HState \<Rightarrow> bool" where
  "wrote u d st s r \<longleftrightarrow>
     (\<exists>u' s'. r = (Inr u', s') \<and> uc_filename u' = uc_filename u \<and> uc_boundary u' = uc_boundary u \<and>
        uc_state u' = st \<and> uc_totalBytes u' = sz_add (uc_totalBytes u) (length d) \<and>
        stored s' (uc_filename u) = stored s (uc_filename u) @ d \<and> only_file (uc_filename u) s s')"

lemma upload_write_ok:
  "env_can_write env (uc_filename u) \<Longrightarrow> wrote u d (uc_state u) s (upload_write env u d s)"
  by (auto simp: wrote_def upload_write_def hbind_def hlib_def writeData_def put_upload_def stored_def
      only_file_def split: option.splits)

lemma wrote_nothing: "uc_totalBytes u < size_mod \<Longrightarrow> wrote u [] (uc_state u) s (hret u s)"
  by (auto simp: wrote_def only_file_def sz_add_exact)

lemma wrote_then_state: "wrote u d st s (m s) \<Longrightarrow> wrote u d st' s (hbind m (set_upload_state st') s)"
  by (auto simp: wrote_def hbind_def set_upload_state_def put_upload_def Let_def stored_def only_file_def)

lemma write_then_state:
  "env_can_write env (uc_filename u) \<Longrightarrow>
     wrote u d st' s (hbind (upload_write env u d) (set_upload_state st') s)"
  by (rule wrote_then_state [where m = "upload_write env u d"]) (rule upload_write_ok)

lemma keep_then_state:
  "uc_totalBytes u < size_mod \<Longrightarrow> wrote u [] st' s (hbind (hret u) (set_upload_state st') s)"
  by (rule wrote_then_state [where m = "hret u"]) (rule wrote_nothing)

lemma wrote_trans:
  assumes "wrote u d st s (m s)"
    and "\<And>u' s'. uc_filename u' = uc_filename u \<Longrightarrow> uc_boundary u' = uc_boundary u \<Longrightarrow> uc_state u' = st \<Longrightarrow>
           uc_totalBytes u' = sz_add (uc_totalBytes u) (length d) \<Longrightarrow> wrote u' e st' s' (f u' s')"
  shows "wrote u (d @ e) st' s (hbind m f s)"
proof -
  obtain u1 s1 where 1: "m s = (Inr u1, s1)" "uc_filename u1 = uc_filename u"
    "uc_boundary u1 = uc_boundary u" "uc_state u1 = st"
    "uc_totalBytes u1 = sz_add (uc_totalBytes u) (length d)"
    "stored s1 (uc_filename u) = stored s (uc_filename u) @ d" "only_file (uc_filename u) s s1"
    using assms(1) by (auto simp: wrote_def)
  have "sz_add (sz_add (uc_totalBytes u) (length d)) (length e) = sz_add (uc_totalBytes u) (length (d @ e))"
    by (simp add: sz_add_def mod_add_left_eq add.assoc)
  with assms(2) [OF 1(2-5), of s1] 1 show ?thesis
    by (auto simp: wrote_def hbind_def only_file_def)
qed

lemma str_find_None_append: "str_find b d = None \<Longrightarrow> str_find (b @ e) d = None"
proof (induction d)
  case (Cons c d)
  then show ?case by (auto simp: starts_with_iff split: if_splits)
qed (auto split: if_splits)

lemma next_part_plain:
  assumes "env_can_write env (uc_filename u)" and "uc_state u = kUpBoundary" and "d \<noteq> []"
    and "str_find (uc_boundary u) d = None"
  shows "wrote u d kUpBoundary s (upload_next_part env u d s)"
  using upload_write_ok [OF assms(1), of d s] assms str_find_None_append [OF assms(4), of "''--''"]
  by (simp add: upload_next_part_def)

lemma next_part_last:
  assumes "env_can_write env (uc_filename u)" and "uc_state u = kUpBoundary"
    and "str_find (uc_boundary u @ ''--'') body = Some n" and "body \<noteq> []" and "uc_totalBytes u < size_mod"
  shows "wrote u (take n body) kUpComplete s (upload_next_part env u body s)"
proof (cases "0 < n")
  case True
  then show ?thesis
    using write_then_state [OF assms(1)] assms by (simp add: upload_next_part_def)
next
  case False
  then show ?thesis
    using keep_then_state [OF assms(5), of kUpComplete s] assms by (simp add: upload_next_part_def)
qed

fun upload_parts :: "'d Env \<Rightarrow> FileUploadContext \<Rightarrow> bytes list \<Rightarrow> ('d, FileUploadContext) hm" where
  "upload_parts env u [] = hret u"
| "upload_parts env u (p # ps) = hbind (upload_next_part env u p) (\<lambda>u'. upload_parts env u' ps)"

lemma upload_parts_ok:
  assumes "env_can_write env (uc_filename u)" and "uc_state u = kUpBoundary"
    and "\<forall>d \<in> set ds. d \<noteq> [] \<and> str_find (uc_boundary u) d = None"
    and "str_find (uc_boundary u @ ''--'') lst = Some n" and "lst \<noteq> []" and "uc_totalBytes u < size_mod"
  shows "wrote u (concat ds @ take n lst) kUpComplete s (upload_parts env u (ds @ [lst]) s)"
  using assms
proof (induction ds arbitrary: u s)
  case Nil
  have "wrote u (take n lst @ []) kUpComplete s
      (hbind (upload_next_part env u lst) (\<lambda>u'. upload_parts env u' []) s)"
  proof (rule wrote_trans [where m = "upload_next_part env u lst", OF next_part_last [OF Nil(1,2,4,5,6)]])
    fix u' :: FileUploadContext and s' :: "'a HState"
    assume "uc_state u' = kUpComplete" "uc_totalBytes u' = sz_add (uc_totalBytes u) (length (take n lst))"
    then show "wrote u' [] kUpComplete s' (upload_parts env u' [] s')"
      using wrote_nothing [of u' s'] by (simp add: sz_add_lt)
  qed
  then show ?case by simp
next
  case (Cons d ds)
  have "wrote u d kUpBoundary s (upload_next_part env u d s)"
    using next_part_plain [OF Cons.prems(1,2)] Cons.prems(3) by simp
  then have "wrote u (d @ concat ds @ take n lst) kUpComplete s
      (hbind (upload_next_part env u d) (\<lambda>u'. upload_parts env u' (ds @ [lst])) s)"
  proof (rule wrote_trans [where m = "upload_next_part env u d"])
    fix u' :: FileUploadContext and s' :: "'a HState"
    assume "uc_filename u' = uc_filename u" "uc_boundary u' = uc_boundary u" "uc_state u' = kUpBoundary"
      "uc_totalBytes u' = sz_add (uc_totalBytes u) (length d)"
    then show "wrote u' (concat ds @ take n lst) kUpComplete s' (upload_parts env u' (ds @ [lst]) s')"
      using Cons.prems by (intro Cons.IH) (auto simp: sz_add_lt)
  qed
  then show ?case by simp
qed

lemma first_part_open:
  assumes "env_can_write env (uc_filename u)" and "str_find blank_line body = Some p"
    and "str_find (uc_boundary u @ ''--'') body = None" and "uc_totalBytes u < size_mod"
  shows "wrote u (drop (p + 4) body) kUpBoundary s (upload_first_part env u body s)"
proof (cases "p + 4 < length body")
  case True
  then show ?thesis
    using write_then_state [OF assms(1)] assms by (simp add: upload_first_part_def)
next
  case False
  then show ?thesis
    using keep_then_state [OF assms(4), of kUpBoundary s] assms by (simp add: upload_first_part_def)
qed

lemma upload_wrote:
  assumes "env_can_write env (uc_filename u)" and "uc_totalBytes u = 0"
    and "str_find blank_line body = Some p" and "str_find (uc_boundary u @ ''--'') body = None"
    and "\<forall>d \<in> set ds. d \<noteq> [] \<and> str_find (uc_boundary u) d = None"
    and "str_find (uc_boundary u @ ''--'') lst = Some n" and "lst \<noteq> []"
  shows "wrote u (drop (p + 4) body @ concat ds @ take n lst) kUpComplete s
      (hbind (upload_first_part env u body) (\<lambda>u. upload_parts env u (ds @ [lst])) s)"
proof -
  have z: "uc_totalBytes u < size_mod" using assms(2) by (simp add: size_mod_def)
  show ?thesis
    by (rule wrote_trans [where m = "upload_first_part env u body", OF first_part_open [OF assms(1,3,4) z]],
        rule upload_parts_ok) (use assms in \<open>auto simp: sz_add_lt\<close>)
qed

text \<open>
  A message with one file part, as its parts arrive: \<open>header\<close>, a blank line, \<open>content\<close> and the end boundary are the beginning of the parts put together.
  The first part has the whole part header, and the end boundary lies in the last part, which may be the first one too; the blank line and the end
  boundary meant are the first ones.  The parts between them are not empty and have no boundary in them.
\<close>

definition upload_message :: "bytes \<Rightarrow> bytes \<Rightarrow> bytes \<Rightarrow> bytes list \<Rightarrow> bool" where
  "upload_message boundary hdr content parts \<longleftrightarrow>
     (let before = hdr @ blank_line @ content
      in parts \<noteq> [] \<and> starts_with before (concat parts) \<and>
         str_find blank_line (hd parts) = Some (length hdr) \<and>
         str_find (boundary @ ''--'') (concat parts) = Some (length before) \<and>
         length (concat (butlast parts)) \<le> length before \<and>
         list_all (\<lambda>d. d \<noteq> [] \<and> str_find boundary d = None) (butlast (tl parts)))"

lemma str_find_before: "str_find pat (xs @ ys) = Some k \<Longrightarrow> pat \<noteq> [] \<Longrightarrow> length xs \<le> k \<Longrightarrow> str_find pat xs = None"
proof (induction xs arbitrary: k)
  case (Cons x xs)
  then have "\<not> starts_with pat ((x # xs) @ ys)" by (auto split: if_splits)
  then have "\<not> starts_with pat (x # xs)" unfolding starts_with_iff by (metis append_assoc)
  then show ?case using Cons \<open>\<not> starts_with pat ((x # xs) @ ys)\<close> by auto
qed simp

lemma str_find_behind: "str_find pat (xs @ ys) = Some k \<Longrightarrow> length xs \<le> k \<Longrightarrow> str_find pat ys = Some (k - length xs)"
  by (induction xs arbitrary: k) (auto split: if_splits)

lemma message_whole:
  assumes "env_can_write env (uc_filename u)" and "upload_message (uc_boundary u) hdr content [body]"
  shows "wrote u content kUpComplete s (upload_first_part env u body s)"
proof -
  let ?before = "hdr @ blank_line @ content"
  have m: "starts_with ?before body" "str_find blank_line body = Some (length hdr)"
    "str_find (uc_boundary u @ ''--'') body = Some (length ?before)"
    using assms(2) by (simp_all add: upload_message_def Let_def)
  have l: "length blank_line = 4" by (simp add: blank_line_def kCRLF_def)
  from m(1) obtain rest where "body = ?before @ rest" by (auto simp: starts_with_iff)
  then have "chunk (length hdr + 4) (length content) body = content" by (simp add: chunk_def l)
  then show ?thesis
    using write_then_state [OF assms(1), of content kUpComplete s] m(2,3) by (simp add: upload_first_part_def l)
qed

lemma message_cut:
  assumes "upload_message boundary hdr content (body # ds @ [lst])"
  shows "str_find blank_line body = Some (length hdr)" and "str_find (boundary @ ''--'') body = None"
    and "\<forall>d \<in> set ds. d \<noteq> [] \<and> str_find boundary d = None"
    and "\<exists>n. str_find (boundary @ ''--'') lst = Some n \<and> content = drop (length hdr + 4) body @ concat ds @ take n lst" and "lst \<noteq> []"
proof -
  let ?before = "hdr @ blank_line @ content" and ?init = "body @ concat ds"
  have m: "starts_with ?before (?init @ lst)" "str_find (boundary @ ''--'') (?init @ lst) = Some (length ?before)"
    "length ?init \<le> length ?before"
    using assms by (simp_all add: upload_message_def Let_def butlast_append)
  show p: "str_find blank_line body = Some (length hdr)" and "\<forall>d \<in> set ds. d \<noteq> [] \<and> str_find boundary d = None"
    using assms by (simp_all add: upload_message_def Let_def butlast_append list_all_iff)
  show "str_find (boundary @ ''--'') body = None"
    using str_find_before [of "boundary @ ''--''" body "concat ds @ lst"] m(2,3) by simp
  have l: "length blank_line = 4" by (simp add: blank_line_def kCRLF_def)
  define n where "n = length ?before - length ?init"
  have n: "str_find (boundary @ ''--'') lst = Some n" unfolding n_def by (rule str_find_behind [OF m(2,3)])
  show "lst \<noteq> []" using n by auto
  have "take (length ?before) (?init @ lst) = ?before" using m(1) unfolding starts_with_iff by (metis append_eq_conv_conj)
  then have "?init @ take n lst = ?before" using m(3) by (simp add: n_def)
  moreover have "length hdr + 4 \<le> length body" using str_find_Some [OF p] l by auto
  ultimately have "drop (length hdr + 4) body @ concat ds @ take n lst = drop (length hdr + 4) ?before"
    by (metis append_assoc drop_append diff_is_0_eq drop0)
  also have "\<dots> = content" by (simp add: l)
  finally show "\<exists>n. str_find (boundary @ ''--'') lst = Some n \<and> content = drop (length hdr + 4) body @ concat ds @ take n lst"
    using n by blast
qed

lemma message_wrote:
  assumes "env_can_write env (uc_filename u)" and "uc_totalBytes u = 0" and m: "upload_message (uc_boundary u) hdr content (body # rest)"
  shows "wrote u content kUpComplete s (hbind (upload_first_part env u body) (\<lambda>u. upload_parts env u rest) s)"
proof (cases rest rule: rev_cases)
  case Nil
  have "wrote u (content @ []) kUpComplete s (hbind (upload_first_part env u body) (\<lambda>u. upload_parts env u rest) s)"
  proof (rule wrote_trans [where m = "upload_first_part env u body", OF message_whole [OF assms(1) m [unfolded Nil]]])
    fix u' :: FileUploadContext and s' :: "'a HState"
    assume "uc_state u' = kUpComplete" "uc_totalBytes u' = sz_add (uc_totalBytes u) (length content)"
    then show "wrote u' [] kUpComplete s' (upload_parts env u' rest s')"
      using wrote_nothing [of u' s'] by (simp add: Nil sz_add_lt)
  qed
  then show ?thesis by simp
next
  case (snoc ds lst)
  note c = message_cut [OF m [unfolded snoc]]
  obtain n where n: "str_find (uc_boundary u @ ''--'') lst = Some n" "content = drop (length hdr + 4) body @ concat ds @ take n lst"
    using c(4) by blast
  show ?thesis unfolding snoc n(2) by (rule upload_wrote [OF assms(1,2) c(1-3) n(1) c(5)])
qed

text \<open>
  C16 (functional). A multipart upload, in one part or in several, is stored as what lies between the part header and the end boundary, byte by byte, and the
  byte count agrees with it; the upload is complete and no other file changes.  What is stored includes the line end in front of the boundary,
  which is not part of the file.  No boundary may be cut by the border of two parts, and there is one file only.
\<close>

theorem upload_stores_content:
  assumes "env_can_write env (uc_filename u)" and "stored s (uc_filename u) = []" and "uc_totalBytes u = 0"
    and "upload_message (uc_boundary u) hdr content (body # rest)"
  shows "\<exists>u' s'. hbind (upload_first_part env u body) (\<lambda>u. upload_parts env u rest) s = (Inr u', s') \<and>
           uc_state u' = kUpComplete \<and> stored s' (uc_filename u) = content \<and> uc_totalBytes u' = length content mod size_mod \<and>
           (\<forall>path. path \<noteq> uc_filename u \<longrightarrow> ap_files (h_app s') path = ap_files (h_app s) path)"
  using message_wrote [OF assms(1,3,4), of s] assms(2,3) unfolding wrote_def only_file_def by (auto simp: sz_add_def)

text \<open>
  The file is \<^verbatim>\<open>hello\<close>, sent at once and in three parts; the line end in front of the end boundary, which belongs to the boundary
  (RFC 2046), is stored with it.
\<close>

definition hello_upload :: FileUploadContext where
  "hello_upload = \<lparr>uc_filename = ''f'', uc_originalFilename = ''n'', uc_totalBytes = 0, uc_state = kUpHeaders, uc_boundary = ''--b''\<rparr>"

lemma hello_messages:
  "upload_message ''--b'' ''--b'' (''hello'' @ kCRLF) [''--b'' @ blank_line @ ''hello'' @ kCRLF @ ''--b--'' @ kCRLF]"
  "upload_message ''--b'' ''--b'' (''hello'' @ kCRLF) [''--b'' @ blank_line @ ''he'', ''ll'', ''o'' @ kCRLF @ ''--b--'']"
  by (simp_all add: upload_message_def blank_line_def kCRLF_def)

theorem upload_stores_content_witness:
  "(\<exists>u' s'. hbind (upload_first_part (simple_env (\<lambda>db q. (Db_error, db))) hello_upload (''--b'' @ blank_line @ ''he''))
       (\<lambda>u. upload_parts (simple_env (\<lambda>db q. (Db_error, db))) u [''ll'', ''o'' @ kCRLF @ ''--b--''])
       (simple_state () Map.empty mkHttpRequest) = (Inr u', s') \<and>
     uc_state u' = kUpComplete \<and> stored s' ''f'' = ''hello'' @ kCRLF \<and> uc_totalBytes u' = 7) \<and>
   (\<exists>u' s'. hbind (upload_first_part (simple_env (\<lambda>db q. (Db_error, db))) hello_upload
         (''--b'' @ blank_line @ ''hello'' @ kCRLF @ ''--b--'' @ kCRLF))
       (\<lambda>u. upload_parts (simple_env (\<lambda>db q. (Db_error, db))) u []) (simple_state () Map.empty mkHttpRequest) = (Inr u', s') \<and>
     uc_state u' = kUpComplete \<and> stored s' ''f'' = ''hello'' @ kCRLF \<and> uc_totalBytes u' = 7)"
proof -
  let ?env = "simple_env (\<lambda>db q. (Db_error, db)) :: unit Env" and ?s = "simple_state () Map.empty mkHttpRequest"
  have h: "env_can_write ?env (uc_filename hello_upload)" "stored ?s (uc_filename hello_upload) = []" "uc_totalBytes hello_upload = 0"
    and f: "uc_filename hello_upload = ''f''" "uc_boundary hello_upload = ''--b''"
    by (simp_all add: stored_def hello_upload_def)
  have l: "length (''hello'' @ kCRLF) mod size_mod = 7" by (simp add: kCRLF_def size_mod_def)
  have "\<exists>u' s'. hbind (upload_first_part ?env hello_upload body) (\<lambda>u. upload_parts ?env u rest) ?s = (Inr u', s') \<and>
      uc_state u' = kUpComplete \<and> stored s' ''f'' = ''hello'' @ kCRLF \<and> uc_totalBytes u' = 7"
    if "upload_message ''--b'' ''--b'' (''hello'' @ kCRLF) (body # rest)" for body rest
    using upload_stores_content [OF h that [folded f(2)], unfolded l f(1)] by blast
  from this [OF hello_messages(1)] this [OF hello_messages(2)] show ?thesis by blast
qed

text \<open>
  In the first part of an upload, a part header that ends behind the end boundary (a file
  part header without content, or an end boundary inside the header) makes the length of the
  content wrap around, and the handler writes from memory outside the request: no exception is
  raised that the surrounding handler could catch.
\<close>

theorem upload_header_behind_boundary_overruns:
  assumes "str_find blank_line body = Some p" and "str_find (uc_boundary u @ ''--'') body = Some e"
    and "0 < e" and "e < p + 4"
  shows "hcatch (upload_first_part env u body) h s = (Inl Crash, s)"
  using assms by (simp add: upload_first_part_def hcatch_def)

theorem upload_header_behind_boundary_overruns_witness:
  "hcatch (upload_first_part (simple_env (\<lambda>db q. (Db_error, db)))
       \<lparr>uc_filename = ''f'', uc_originalFilename = ''n'', uc_totalBytes = 0, uc_state = kUpHeaders, uc_boundary = ''--b''\<rparr>
       (''X--b--'' @ blank_line)) (\<lambda>_. hthrow Crash) (simple_state () Map.empty mkHttpRequest) =
     (Inl Crash, simple_state () Map.empty mkHttpRequest)"
  by (rule upload_header_behind_boundary_overruns [where p = 6 and e = 1])
    (simp_all add: blank_line_def kCRLF_def)

end
