(* ===== verification/App_Download.thy ===== *)
theory App_Download
  imports App_Base
begin

text \<open>
  Downloads of \<^verbatim>\<open>HttpUploadHandler\<close> (\<^verbatim>\<open>app/HttpUploader.hpp\<close>): \<^verbatim>\<open>handleDownload\<close> and
  \<^verbatim>\<open>handleShareDownload\<close>, their access checks, the range header, and the write callback that sends the
  file chunk by chunk.  The second half of the two handlers is the same code, \<open>serve_file\<close>.
\<close>

section \<open>Definitions\<close>

text \<open>\<^verbatim>\<open>regex_search\<close> for \<^verbatim>\<open>bytes=(\d+)-(\d*)\<close>.\<close>

fun find_range :: "bytes \<Rightarrow> (bytes \<times> bytes) option" where
  "find_range [] = None"
| "find_range (c # cs) =
     (let r = drop 6 (c # cs); ds = takeWhile isdigit r; r2 = drop (length ds) r
      in if starts_with ''bytes='' (c # cs) \<and> ds \<noteq> [] \<and> starts_with ''-'' r2
         then Some (ds, takeWhile isdigit (tl r2)) else find_range cs)"

datatype range_result = No_Range nat nat | Bad_Range | Byte_Range nat nat

definition parse_range :: "bytes \<Rightarrow> nat \<Rightarrow> exn + range_result" where
  "parse_range rangeHeader fileSize =
     (let lastPos = sz_sub fileSize 1
      in if rangeHeader = [] then Inr (No_Range 0 lastPos)
         else case find_range rangeHeader of
                None \<Rightarrow> Inr (No_Range 0 lastPos)
              | Some (m1, m2) \<Rightarrow>
                  (case stoull m1 of
                     Inl e \<Rightarrow> Inl e
                   | Inr startPos \<Rightarrow>
                       (case (if m2 \<noteq> [] then stoull m2 else Inr lastPos) of
                          Inl e \<Rightarrow> Inl e
                        | Inr endPos \<Rightarrow>
                            if fileSize \<le> startPos then Inr Bad_Range
                            else Inr (Byte_Range startPos (if fileSize \<le> endPos then lastPos else endPos)))))"

definition put_down :: "nat \<Rightarrow> ('d, unit) hm" where
  "put_down k = upd_conn (\<lambda>c. c\<lparr>tc_context :=
     map_option (\<lambda>ctx. setContext ctx (Some (Down_Ctx k))) (tc_context c)\<rparr>)"

definition range_headers :: "range_result \<Rightarrow> nat \<Rightarrow> HttpResponse \<Rightarrow> HttpResponse" where
  "range_headers rng fileSize r = (case rng of
       Byte_Range startPos endPos \<Rightarrow>
         addRespHeader ''Content-Range''
           (''bytes '' @ nat_to_string startPos @ ''-'' @ nat_to_string endPos @ ''/'' @ nat_to_string fileSize)
           (setStatusMessage ''Partial Content'' (setStatusCode k206PartialContent r))
     | _ \<Rightarrow> setStatusMessage ''OK'' (setStatusCode k200Ok r))"

definition download_headers :: "bytes \<Rightarrow> HttpResponse \<Rightarrow> HttpResponse" where
  "download_headers originalFilename r =
     addRespHeader ''Connection'' ''keep-alive'' (addRespHeader ''Accept-Ranges'' ''bytes''
       (addRespHeader ''Content-Disposition''
         (''attachment; filename='' @ [CHR 0x22] @ originalFilename @ [CHR 0x22])
         (setContentType ''application/octet-stream'' r)))"

definition range_start :: "range_result \<Rightarrow> nat" where
  "range_start rng = (case rng of Byte_Range startPos _ \<Rightarrow> startPos | No_Range startPos _ \<Rightarrow> startPos
                                    | Bad_Range \<Rightarrow> 0)"

text \<open>A new download context, and the response headers that go with it.\<close>

definition start_download :: "bytes \<Rightarrow> bytes \<Rightarrow> range_result \<Rightarrow> nat \<Rightarrow> ('d, nat) hm" where
  "start_download filepath originalFilename rng fileSize =
     hbind (hget h_app) (\<lambda>a.
     hbind (hlib (mkFileDownContext (ap_files a) filepath originalFilename)) (\<lambda>d.
     hthen (upd_app (\<lambda>a. a\<lparr>ap_downs := ap_downs a @ [seekTo d (range_start rng)]\<rparr>))
     (hthen (put_down (length (ap_downs a)))
     (hthen (upd_resp (\<lambda>r. download_headers originalFilename (range_headers rng fileSize r)))
     (hret (length (ap_downs a)))))))"

definition send_file :: "'d Env \<Rightarrow> bytes \<Rightarrow> bytes \<Rightarrow> range_result \<Rightarrow> nat \<Rightarrow> ('d, bool) hm" where
  "send_file env filepath originalFilename rng fileSize =
     hbind (hget (\<lambda>s. tc_context (h_conn s))) (\<lambda>httpContext.
     case httpContext of
       None \<Rightarrow> fail env ''Internal Server Error'' k500InternalServerError
     | Some ctx \<Rightarrow>
         hbind (case getContext ctx of
                  None \<Rightarrow> start_download filepath originalFilename rng fileSize
                | Some (Down_Ctx k) \<Rightarrow> hret k
                | Some (Upload_Ctx _) \<Rightarrow> hthrow Crash) (\<lambda>k.
         hthen (upd_conn (setWriteCompleteCallback (Cb_download k))) (hret True)))"

definition head_response :: "nat \<Rightarrow> HttpResponse \<Rightarrow> HttpResponse" where
  "head_response fileSize r =
     addRespHeader ''Connection'' ''close'' (addRespHeader ''Accept-Ranges'' ''bytes''
       (addRespHeader ''Content-Length'' (nat_to_string fileSize)
         (setContentType ''application/octet-stream'' (setStatusMessage ''OK'' (setStatusCode k200Ok r)))))"

definition serve_file :: "'d Env \<Rightarrow> bytes \<Rightarrow> bytes \<Rightarrow> ('d, bool) hm" where
  "serve_file env serverFilename originalFilename =
     (let filepath = uploadDir @ ''/'' @ serverFilename
      in hcatch
           (hbind (hget (\<lambda>s. ap_files (h_app s) filepath)) (\<lambda>file.
            case file of
              None \<Rightarrow> fail env ''File not found'' k404NotFound
            | Some d \<Rightarrow>
                let fileSize = length d
                in hbind (hget (\<lambda>s. rq_method (request_of s))) (\<lambda>meth.
                   if meth = kHead
                   then hthen (upd_resp (head_response fileSize)) (hthen shutdown_when_written (hret True))
                   else hbind (header ''Range'') (\<lambda>rangeHeader.
                        hbind (hof (parse_range rangeHeader fileSize)) (\<lambda>rng.
                        if rng = Bad_Range
                        then fail env ''Range Not Satisfiable'' k416RangeNotSatisfiable
                        else send_file env filepath originalFilename rng fileSize)))))
           (\<lambda>_. fail env ''Download failed'' k500InternalServerError))"

text \<open>\<^verbatim>\<open>handleShareDownload\<close> has the same code once more.\<close>

definition serve_shared_file :: "'d Env \<Rightarrow> bytes \<Rightarrow> bytes \<Rightarrow> ('d, bool) hm" where
  "serve_shared_file env serverFilename originalFilename = serve_file env serverFilename originalFilename"

text \<open>Who may download: \<^verbatim>\<open>handleDownload\<close> first, \<^verbatim>\<open>handleShareDownload\<close> second.\<close>

definition share_grants :: "bytes \<Rightarrow> int option \<Rightarrow> int \<Rightarrow> bytes \<Rightarrow> bytes \<Rightarrow> bool" where
  "share_grants shareType user sharedWithId extractCode dbExtractCode \<longleftrightarrow>
     (if shareType = ''public'' then True
      else if shareType = ''protected'' then extractCode \<noteq> [] \<and> extractCode = dbExtractCode
      else if shareType = ''user'' then user = Some sharedWithId
      else False)"

definition download_permission ::
  "int option \<Rightarrow> int \<Rightarrow> bytes \<Rightarrow> bytes \<Rightarrow> int \<Rightarrow> bytes \<Rightarrow> bytes \<Rightarrow> bool" where
  "download_permission user fileOwnerId shareCode shareType sharedWithId extractCode dbExtractCode \<longleftrightarrow>
     (if user = Some fileOwnerId then True
      else if shareCode \<noteq> [] then share_grants shareType user sharedWithId extractCode dbExtractCode
      else user = Some fileOwnerId)"

definition share_permission ::
  "int option \<Rightarrow> int \<Rightarrow> bytes \<Rightarrow> int \<Rightarrow> bytes \<Rightarrow> bytes \<Rightarrow> bool" where
  "share_permission user fileOwnerId shareType sharedWithId extractCode dbExtractCode \<longleftrightarrow>
     (if user = Some fileOwnerId then True
      else share_grants shareType user sharedWithId extractCode dbExtractCode)"

definition deny :: "'d Env \<Rightarrow> bytes \<Rightarrow> bytes \<Rightarrow> bytes \<Rightarrow> ('d, bool) hm" where
  "deny env shareType extractCode dbExtractCode =
     (if shareType = ''protected'' \<and> (extractCode = [] \<or> extractCode \<noteq> dbExtractCode)
      then fail env msg_need_extract_code k403Forbidden
      else fail env msg_no_access k403Forbidden)"

definition shared_file_select :: "bytes \<Rightarrow> bytes \<Rightarrow> bytes" where
  "shared_file_select filename shareCode =
     ''SELECT f.id, f.filename, f.original_filename, f.user_id, '' @
     ''fs.share_type, fs.shared_with_id, fs.extract_code '' @ ''FROM files f '' @
     ''JOIN file_shares fs ON f.id = fs.file_id '' @ ''WHERE f.filename = '' @ quoted filename @ '' '' @
     ''AND fs.share_code = '' @ quoted shareCode @ '' '' @
     ''AND (fs.expire_time IS NULL OR fs.expire_time > NOW())''"

definition own_file_select :: "bytes \<Rightarrow> bytes" where
  "own_file_select filename =
     ''SELECT f.id, f.filename, f.original_filename, f.user_id, '' @
     ''NULL as share_type, NULL as shared_with_id, NULL as extract_code '' @
     ''FROM files f WHERE f.filename = '' @ quoted filename"

text \<open>The query of \<^verbatim>\<open>handleDownload\<close>; \<open>None\<close> when a login is missing.\<close>

definition download_query :: "'d Env \<Rightarrow> int option \<Rightarrow> bytes \<Rightarrow> bytes \<Rightarrow> ('d, bytes option) hm" where
  "download_query env user filename shareCode =
     (if shareCode \<noteq> []
      then hbind (escapeString env filename) (\<lambda>f.
           hbind (escapeString env shareCode) (\<lambda>c. hret (Some (shared_file_select f c))))
      else if user = None then hret None
      else hbind (escapeString env filename) (\<lambda>f. hret (Some (own_file_select f))))"

text \<open>What is read from the row, and what follows from it.\<close>

definition download_row :: "'d Env \<Rightarrow> int option \<Rightarrow> bytes \<Rightarrow> bytes \<Rightarrow> db_row \<Rightarrow> ('d, bool) hm" where
  "download_row env user shareCode extractCode row =
     hbind (hof (int_cell env row 0)) (\<lambda>fileId.
     hbind (hof (str_cell env row 1)) (\<lambda>serverFilename.
     hbind (hof (str_cell env row 2)) (\<lambda>originalFilename.
     hbind (hof (int_cell env row 3)) (\<lambda>fileOwnerId.
     hbind (hof (cell_or row 4 [])) (\<lambda>shareType.
     hbind (hof (int_cell_or0 row 5)) (\<lambda>sharedWithId.
     hbind (hof (cell_or row 6 [])) (\<lambda>dbExtractCode.
     if download_permission user fileOwnerId shareCode shareType sharedWithId extractCode dbExtractCode
     then serve_file env serverFilename originalFilename
     else deny env shareType extractCode dbExtractCode)))))))"

definition handleDownload :: "'d Env \<Rightarrow> ('d, bool) hm" where
  "handleDownload env =
     hbind (path_param ''filename'') (\<lambda>filename.
     if filename = [] then fail env ''Missing filename'' k400BadRequest
     else hbind (header ''X-Session-ID'') (\<lambda>sessionHeader.
          hbind (if sessionHeader = [] then query_param env ''sessionId'' [] else hret sessionHeader) (\<lambda>sessionId.
          hbind (validateSession env sessionId) (\<lambda>session.
          hbind (query_param env ''code'' []) (\<lambda>shareCode.
          hbind (query_param env ''extract_code'' []) (\<lambda>extractCode.
          hbind (download_query env (map_option fst session) filename shareCode) (\<lambda>query.
          case query of
            None \<Rightarrow> fail env msg_login_first k401Unauthorized
          | Some q \<Rightarrow>
              hbind (executeQueryWithResult env q) (\<lambda>result.
              case result of
                Some (row # _) \<Rightarrow> download_row env (map_option fst session) shareCode extractCode row
              | _ \<Rightarrow> fail env ''File not found'' k404NotFound))))))))"

definition share_download_select :: "bytes \<Rightarrow> bytes \<Rightarrow> bytes" where
  "share_download_select filename shareCode =
     ''SELECT f.id, f.filename, f.original_filename, f.user_id, '' @
     ''fs.share_type, fs.shared_with_id, fs.extract_code, '' @ ''fs.created_at, fs.expire_time '' @
     ''FROM files f '' @ ''JOIN file_shares fs ON f.id = fs.file_id '' @
     ''WHERE f.filename = '' @ quoted filename @ '' '' @ ''AND fs.share_code = '' @ quoted shareCode @ '' '' @
     ''AND (fs.expire_time IS NULL OR fs.expire_time > NOW())''"

definition share_download_row :: "'d Env \<Rightarrow> int option \<Rightarrow> bytes \<Rightarrow> db_row \<Rightarrow> ('d, bool) hm" where
  "share_download_row env user extractCode row =
     hbind (hof (str_cell env row 1)) (\<lambda>serverFilename.
     hbind (hof (str_cell env row 2)) (\<lambda>originalFilename.
     hbind (hof (int_cell env row 3)) (\<lambda>fileOwnerId.
     hbind (hof (str_cell env row 4)) (\<lambda>shareType.
     hbind (hof (int_cell_or0 row 5)) (\<lambda>sharedWithId.
     hbind (hof (cell_or row 6 [])) (\<lambda>dbExtractCode.
     hbind (hof (cell_or row 7 [])) (\<lambda>createdAt.
     hbind (hof (cell_or row 8 [])) (\<lambda>expireTime.
     if share_permission user fileOwnerId shareType sharedWithId extractCode dbExtractCode
     then serve_shared_file env serverFilename originalFilename
     else deny env shareType extractCode dbExtractCode))))))))"

definition handleShareDownload :: "'d Env \<Rightarrow> ('d, bool) hm" where
  "handleShareDownload env =
     hbind (path_param ''filename'') (\<lambda>filename.
     if filename = [] then fail env ''Missing filename'' k400BadRequest
     else hbind (query_param env ''code'' []) (\<lambda>shareCode.
          hbind (query_param env ''extract_code'' []) (\<lambda>extractCode.
          if shareCode = [] then fail env ''Missing share code'' k400BadRequest
          else hbind (header ''X-Session-ID'') (\<lambda>sessionId.
               hbind (validateSession env sessionId) (\<lambda>session.
               hbind (escapeString env filename) (\<lambda>f.
               hbind (escapeString env shareCode) (\<lambda>c.
               hbind (executeQueryWithResult env (share_download_select f c)) (\<lambda>result.
               case result of
                 Some (row # _) \<Rightarrow> share_download_row env (map_option fst session) extractCode row
               | _ \<Rightarrow> fail env ''Share not found or expired'' k404NotFound))))))))"

text \<open>The write callbacks: the shutdown of the other handlers, and the next chunk of a download.\<close>

definition on_write_complete :: "write_cb \<Rightarrow> 'd App \<Rightarrow> Conn \<Rightarrow> ('d App \<times> Conn) result" where
  "on_write_complete cb a conn = (case cb of
       Cb_shutdown \<Rightarrow> Inr (a, shutdown_conn conn)
     | Cb_download k \<Rightarrow>
         if k < length (ap_downs a)
         then case readNextChunk (ap_downs a ! k) of
                (Some data, d) \<Rightarrow>
                  rbind (send_conn conn data) (\<lambda>conn'. Inr (a\<lparr>ap_downs := (ap_downs a)[k := d]\<rparr>, conn'))
              | (None, d) \<Rightarrow> Inr (a\<lparr>ap_downs := (ap_downs a)[k := d]\<rparr>, shutdown_conn conn)
         else Inl Out_Of_Bounds)"


section \<open>The range header\<close>

lemma num_prefix_digits:
  assumes "list_all isdigit d" and "d \<noteq> []"
  shows "num_prefix d = (False, d)"
proof -
  have nz: "c \<noteq> NUL \<and> \<not> isspace c \<and> c \<noteq> CHR ''-'' \<and> c \<noteq> CHR ''+''" if "isdigit c" for c
    using that isspace_not_digit by (auto simp: isdigit_def code_def NUL_def)
  have c: "c_str d = d"
    unfolding c_str_def using assms(1) nz by (intro takeWhile_eq_all_conv [THEN iffD2]) (auto simp: list_all_iff)
  obtain x xs where d: "d = x # xs" using assms(2) by (cases d) auto
  with assms(1) have "isdigit x" by simp
  note x = nz [OF this]
  from x d have "dropWhile isspace d = d" "\<not> starts_with ''-'' d" "\<not> starts_with ''+'' d" by auto
  then show ?thesis
    using c assms(1) by (simp add: num_prefix_def list_all_iff takeWhile_eq_all_conv)
qed

lemma stoull_digits:
  assumes "n < 2 ^ 64"
  shows "stoull (nat_to_string n) = Inr n"
  using assms nat_to_string_digits [of n] num_prefix_digits [of "nat_to_string n"]
  by (auto simp: stoull_def dec_val_nat_to_string)

lemma find_range_rendered:
  "find_range (''bytes='' @ nat_to_string s @ ''-'' @ nat_to_string e) = Some (nat_to_string s, nat_to_string e)"
proof -
  have d: "\<And>x. x \<in> set (nat_to_string n) \<Longrightarrow> isdigit x" "nat_to_string n \<noteq> []" for n
    using nat_to_string_digits [of n] by (auto simp: list_all_iff)
  have m: "\<not> isdigit CHR ''-''" by (simp add: isdigit_def code_def)
  have "takeWhile isdigit (nat_to_string s @ CHR ''-'' # nat_to_string e) = nat_to_string s"
    using d m by (simp add: takeWhile_append)
  moreover have "takeWhile isdigit (nat_to_string e) = nat_to_string e"
    using d by (simp add: takeWhile_eq_all_conv)
  ultimately show ?thesis using d by (simp add: Let_def)
qed

text \<open>
  For a file with content, a range header that a client writes for two positions is
  answered with 416 exactly when the first position is not in the file; otherwise both ends of the
  range that is used lie in the file, the first being the one asked for and the last one cut to the
  last byte.  No position below \<^verbatim>\<open>2^64\<close> overflows the parser.
\<close>

theorem parse_range_exact:
  assumes "s < 2 ^ 64" and "e < 2 ^ 64" and "0 < n"
  shows "parse_range (''bytes='' @ nat_to_string s @ ''-'' @ nat_to_string e) n =
           Inr (if n \<le> s then Bad_Range else Byte_Range s (min e (n - 1)))"
  using find_range_rendered [of s e] nat_to_string_digits [of e] stoull_digits [OF assms(1)]
    stoull_digits [OF assms(2)] assms(3)
  by (auto simp: parse_range_def Let_def sz_sub_exact min_def simp del: find_range.simps)

theorem parse_range_exact_witness:
  "parse_range (''bytes='' @ nat_to_string 10 @ ''-'' @ nat_to_string 500) 100 = Inr (Byte_Range 10 99)"
  using parse_range_exact [of 10 500 100] by simp

section \<open>Who gets the file\<close>

text \<open>The access policy: the owner, and with a share code whom the share is for.\<close>

definition may_read_share :: "int option \<Rightarrow> bytes \<Rightarrow> int \<Rightarrow> bytes \<Rightarrow> bytes \<Rightarrow> bool" where
  "may_read_share user shareType sharedWithId extractCode dbExtractCode \<longleftrightarrow>
     shareType = ''public'' \<or>
     shareType = ''protected'' \<and> extractCode \<noteq> [] \<and> extractCode = dbExtractCode \<or>
     shareType = ''user'' \<and> user = Some sharedWithId"

lemma share_grants_iff: "share_grants ty user w x dbx \<longleftrightarrow> may_read_share user ty w x dbx"
  by (auto simp: share_grants_def may_read_share_def)

lemma download_permission_iff:
  "download_permission user owner code' ty w x dbx \<longleftrightarrow>
     user = Some owner \<or> code' \<noteq> [] \<and> may_read_share user ty w x dbx"
  by (auto simp: download_permission_def share_grants_iff)

lemma share_permission_iff:
  "share_permission user owner ty w x dbx \<longleftrightarrow> user = Some owner \<or> may_read_share user ty w x dbx"
  by (auto simp: share_permission_def share_grants_iff)

definition served :: "HttpStatusCode \<Rightarrow> bool" where
  "served st \<longleftrightarrow> st = k200Ok \<or> st = k206PartialContent"

lemma fail_not_served:
  "fail env message st s = (Inr b, s') \<Longrightarrow> served (rs_statusCode (h_resp s')) \<Longrightarrow> served st"
  by (simp add: fail_status)

lemma deny_not_served: "deny env ty x dbx s = (Inr b, s') \<Longrightarrow> \<not> served (rs_statusCode (h_resp s'))"
  by (auto simp: deny_def served_def split: if_splits dest: fail_status)

lemma download_row_allowed:
  assumes "download_row env user code' x row s = (Inr b, s')" and "served (rs_statusCode (h_resp s'))"
  shows "\<exists>owner ty w dbx. int_cell env row 3 = Inr owner \<and> cell_or row 4 [] = Inr ty \<and>
           int_cell_or0 row 5 = Inr w \<and> cell_or row 6 [] = Inr dbx \<and>
           (user = Some owner \<or> code' \<noteq> [] \<and> may_read_share user ty w x dbx)"
  using assms deny_not_served
  by (fastforce simp: download_row_def result_iff download_permission_iff split: if_splits)

lemma share_download_row_allowed:
  assumes "share_download_row env user x row s = (Inr b, s')" and "served (rs_statusCode (h_resp s'))"
  shows "\<exists>owner ty w dbx. int_cell env row 3 = Inr owner \<and> str_cell env row 4 = Inr ty \<and>
           int_cell_or0 row 5 = Inr w \<and> cell_or row 6 [] = Inr dbx \<and>
           (user = Some owner \<or> may_read_share user ty w x dbx)"
  using assms deny_not_served
  by (fastforce simp: share_download_row_def result_iff share_permission_iff split: if_splits)

text \<open>The session id \<^verbatim>\<open>handleDownload\<close> uses: the header, or the query parameter without one.\<close>

definition download_session_id :: "'d Env \<Rightarrow> HttpRequest \<Rightarrow> bytes" where
  "download_session_id env req =
     (let h = getHeader req ''X-Session-ID''
      in if h = [] then getQuery (env_junk env) req ''sessionId'' [] else h)"

text \<open>Its statement in a state, and what the caller may see of the answer.\<close>

definition download_statement :: "'d Env \<Rightarrow> 'd HState \<Rightarrow> bytes \<Rightarrow> bytes \<Rightarrow> bytes" where
  "download_statement env s filename shareCode =
     (if shareCode = [] then own_file_select (esc env s filename)
      else shared_file_select (esc env s filename) (esc env s shareCode))"

lemma download_query_eq:
  "download_query env user filename shareCode s =
     (Inr (if shareCode = [] \<and> user = None then None else Some (download_statement env s filename shareCode)), s)"
  by (simp add: download_query_def download_statement_def escapeString_eq hbind_def)

text \<open>
  C5 (safety). \<^verbatim>\<open>handleDownload\<close> answers with 200 or 206 only when the statement for the file named in
  the path (joined with the share of the code in the query, when there is one) has a row that allows
  it: a valid session of the request belongs to the file's owner, or a share code was given and the
  share is public, or protected and the right non-empty extract code was given, or meant for the user
  of a valid session.
\<close>

theorem handleDownload_authorised:
  assumes run: "handleDownload env s = (Inr b, s')" and ok: "served (rs_statusCode (h_resp s'))"
  shows "\<exists>session s1 row owner ty w dbx.
      (let code' = getQuery (env_junk env) (request_of s) ''code'' [];
           x = getQuery (env_junk env) (request_of s) ''extract_code'' [];
           user = map_option fst session
       in validateSession env (download_session_id env (request_of s)) s = (Inr session, s1) \<and>
          answered env (download_statement env s (getPathParam (request_of s) ''filename'') code') row s1 \<and>
          int_cell env row 3 = Inr owner \<and> cell_or row 4 [] = Inr ty \<and>
          int_cell_or0 row 5 = Inr w \<and> cell_or row 6 [] = Inr dbx \<and>
          (user = Some owner \<or> code' \<noteq> [] \<and> may_read_share user ty w x dbx))"
proof -
  have f: "\<not> fail env m st s0 = (Inr b, s')" if "st \<in> {k400BadRequest, k401Unauthorized, k404NotFound}" for m st s0
    using that ok fail_status [of env m st s0 b s'] by (auto simp: served_def)
  obtain session s1 where 1: "validateSession env (download_session_id env (request_of s)) s = (Inr session, s1)"
    and 2: "hbind (query_param env ''code'' []) (\<lambda>shareCode.
          hbind (query_param env ''extract_code'' []) (\<lambda>extractCode.
          hbind (download_query env (map_option fst session) (getPathParam (request_of s) ''filename'') shareCode) (\<lambda>query.
          case query of
            None \<Rightarrow> fail env msg_login_first k401Unauthorized
          | Some q \<Rightarrow>
              hbind (executeQueryWithResult env q) (\<lambda>result.
              case result of
                Some (row # _) \<Rightarrow> download_row env (map_option fst session) shareCode extractCode row
              | _ \<Rightarrow> fail env ''File not found'' k404NotFound)))) s1 = (Inr b, s')"
    using run f unfolding handleDownload_def
    by (auto simp: result_iff path_param_def header_def query_param_def download_session_id_def Let_def
        split: if_splits)
  note d = validateSession_db_only [OF 1]
  have e: "download_statement env s1 = download_statement env s"
    by (intro ext) (simp add: download_statement_def esc_db_only [OF d])
  let ?c = "getQuery (env_junk env) (request_of s) ''code'' []"
  let ?x = "getQuery (env_junk env) (request_of s) ''extract_code'' []"
  from 2 obtain result s3 where 3: "executeQueryWithResult env
        (download_statement env s (getPathParam (request_of s) ''filename'') ?c) s1 = (Inr result, s3)"
    and 4: "(case result of
         Some (row # _) \<Rightarrow> download_row env (map_option fst session) ?c ?x row
       | _ \<Rightarrow> fail env ''File not found'' k404NotFound) s3 = (Inr b, s')"
    using f by (auto simp: result_iff query_param_def download_query_eq db_only_fields [OF d] e split: if_splits)
  from 4 f obtain row rows where res: "result = Some (row # rows)"
    by (auto split: option.splits list.splits)
  from download_row_allowed [OF _ ok] 4 res obtain owner ty w dbx where
    "int_cell env row 3 = Inr owner" "cell_or row 4 [] = Inr ty" "int_cell_or0 row 5 = Inr w"
    "cell_or row 6 [] = Inr dbx"
    "map_option fst session = Some owner \<or> ?c \<noteq> [] \<and> may_read_share (map_option fst session) ty w ?x dbx"
    by fastforce
  moreover have "answered env (download_statement env s (getPathParam (request_of s) ''filename'') ?c) row s1"
    using 3 unfolding res by (rule executeQueryWithResult_row)
  ultimately show ?thesis
    using 1 unfolding Let_def by blast
qed

definition file_query :: "db_row \<Rightarrow> nat \<Rightarrow> bytes \<Rightarrow> db_reply \<times> nat" where
  "file_query row db q =
     (if starts_with ''SELECT f.id'' q then (Db_ok (Some [row]), db) else (Db_ok (Some []), db))"

definition shared_row :: db_row where
  "shared_row = [Some ''1'', Some ''srv'', Some ''a.txt'', Some ''5'', Some ''public'', None, None]"

definition shared_request :: HttpRequest where
  "shared_request = (mkHttpRequest\<lparr>rq_method := kHead, rq_pathParams := [''filename'' \<mapsto> ''srv''],
     rq_query := ''?code=abc''\<rparr>)"

lemma shared_request_simps:
  "getPathParam shared_request ''filename'' = ''srv''" "getHeader shared_request ''X-Session-ID'' = []"
  "getQuery (\<lambda>k. NUL) shared_request ''sessionId'' [] = []" "getQuery (\<lambda>k. NUL) shared_request ''code'' [] = ''abc''"
  "getQuery (\<lambda>k. NUL) shared_request ''extract_code'' [] = []" "rq_method shared_request = kHead"
  by code_simp+

lemma shared_row_simps:
  "int_cell e shared_row 0 = Inr 1" "str_cell e shared_row 1 = Inr ''srv''"
  "str_cell e shared_row 2 = Inr ''a.txt''" "int_cell e shared_row 3 = Inr 5"
  "cell_or shared_row 4 [] = Inr ''public''" "int_cell_or0 shared_row 5 = Inr 0" "cell_or shared_row 6 [] = Inr []"
  "str_cell e shared_row (Suc 0) = Inr ''srv''"
  by code_simp+

lemma shared_statement: "c_str (shared_file_select ''srv'' ''abc'') = shared_file_select ''srv'' ''abc''"
  "starts_with ''SELECT f.id'' (shared_file_select ''srv'' ''abc'')"
  by code_simp+

theorem handleDownload_authorised_witness:
  "\<exists>s'. handleDownload (simple_env (file_query shared_row))
          (simple_state 0 [''uploads/srv'' \<mapsto> ''data''] shared_request) = (Inr True, s') \<and>
        served (rs_statusCode (h_resp s')) \<and>
        (\<exists>row s1. answered (simple_env (file_query shared_row)) (shared_file_select ''srv'' ''abc'') row s1)"
proof -
  let ?e = "simple_env (file_query shared_row)"
  let ?s = "simple_state 0 [''uploads/srv'' \<mapsto> ''data''] shared_request"
  have q: "download_statement ?e ?s ''srv'' ''abc'' = shared_file_select ''srv'' ''abc''"
    by (simp add: download_statement_def esc_def c_str_def NUL_def)
  have j: "env_junk ?e = (\<lambda>k. NUL)" by (simp add: simple_env_def)
  have "\<exists>s'. handleDownload ?e ?s = (Inr True, s') \<and> served (rs_statusCode (h_resp s'))"
    by (simp add: handleDownload_def path_param_def header_def query_param_def download_query_eq q j
        validateSession_def hbind_def shared_request_simps shared_row_simps executeQueryWithResult_def run_query_def
        shared_statement serve_file_def hcatch_def uploadDir_def shutdown_when_written_def head_response_def served_def
        Let_def addRespHeader_def setContentType_def setStatusMessage_def setStatusCode_def
        download_permission_def share_grants_def
        file_query_def download_row_def)
  then obtain s' where r: "handleDownload ?e ?s = (Inr True, s')" and o: "served (rs_statusCode (h_resp s'))"
    by auto
  from handleDownload_authorised [OF r o] r o show ?thesis
    by (auto simp: Let_def q j shared_request_simps)
qed

text \<open>
  C6 (safety). \<^verbatim>\<open>handleShareDownload\<close> answers with 200 or 206 only when a share code was given, and the
  statement for the file joined with the unexpired share of that code has a row that allows it: a
  valid session belongs to the owner, or the share is public, or protected and the right non-empty
  extract code was given, or meant for the user of a valid session.
\<close>

theorem handleShareDownload_authorised:
  assumes run: "handleShareDownload env s = (Inr b, s')" and ok: "served (rs_statusCode (h_resp s'))"
  shows "\<exists>session s1 row owner ty w dbx.
      (let code' = getQuery (env_junk env) (request_of s) ''code'' [];
           x = getQuery (env_junk env) (request_of s) ''extract_code'' [];
           user = map_option fst session
       in code' \<noteq> [] \<and>
          validateSession env (getHeader (request_of s) ''X-Session-ID'') s = (Inr session, s1) \<and>
          answered env (share_download_select (esc env s (getPathParam (request_of s) ''filename''))
            (esc env s code')) row s1 \<and>
          int_cell env row 3 = Inr owner \<and> str_cell env row 4 = Inr ty \<and>
          int_cell_or0 row 5 = Inr w \<and> cell_or row 6 [] = Inr dbx \<and>
          (user = Some owner \<or> may_read_share user ty w x dbx))"
proof -
  have f: "\<not> fail env m st s0 = (Inr b, s')" if "st \<in> {k400BadRequest, k404NotFound}" for m st s0
    using that ok fail_status [of env m st s0 b s'] by (auto simp: served_def)
  let ?c = "getQuery (env_junk env) (request_of s) ''code'' []"
  let ?x = "getQuery (env_junk env) (request_of s) ''extract_code'' []"
  let ?n = "getPathParam (request_of s) ''filename''"
  obtain session s1 result s3 where c: "?c \<noteq> []"
    and 1: "validateSession env (getHeader (request_of s) ''X-Session-ID'') s = (Inr session, s1)"
    and 3: "executeQueryWithResult env (share_download_select (esc env s1 ?n) (esc env s1 ?c)) s1 = (Inr result, s3)"
    and 4: "(case result of
         Some (row # _) \<Rightarrow> share_download_row env (map_option fst session) ?x row
       | _ \<Rightarrow> fail env ''Share not found or expired'' k404NotFound) s3 = (Inr b, s')"
    using run f unfolding handleShareDownload_def
    by (auto simp: result_iff path_param_def header_def query_param_def escapeString_eq split: if_splits)
  note d = validateSession_db_only [OF 1]
  from 4 f obtain row rows where res: "result = Some (row # rows)"
    by (auto split: option.splits list.splits)
  from share_download_row_allowed [OF _ ok] 4 res obtain owner ty w dbx where
    "int_cell env row 3 = Inr owner" "str_cell env row 4 = Inr ty" "int_cell_or0 row 5 = Inr w"
    "cell_or row 6 [] = Inr dbx"
    "map_option fst session = Some owner \<or> may_read_share (map_option fst session) ty w ?x dbx"
    by fastforce
  moreover have "answered env (share_download_select (esc env s ?n) (esc env s ?c)) row s1"
    using 3 unfolding res esc_db_only [OF d] by (rule executeQueryWithResult_row)
  ultimately show ?thesis
    using 1 c unfolding Let_def by blast
qed

definition share_row :: db_row where
  "share_row = shared_row @ [Some ''now'', None]"

lemma share_row_simps:
  "str_cell e share_row 1 = Inr ''srv''" "str_cell e share_row (Suc 0) = Inr ''srv''"
  "str_cell e share_row 2 = Inr ''a.txt''" "int_cell e share_row 3 = Inr 5"
  "str_cell e share_row 4 = Inr ''public''" "int_cell_or0 share_row 5 = Inr 0" "cell_or share_row 6 [] = Inr []"
  "cell_or share_row 7 [] = Inr ''now''" "cell_or share_row 8 [] = Inr []"
  by code_simp+

lemma share_statement: "c_str (share_download_select ''srv'' ''abc'') = share_download_select ''srv'' ''abc''"
  "starts_with ''SELECT f.id'' (share_download_select ''srv'' ''abc'')"
  by code_simp+

theorem handleShareDownload_authorised_witness:
  "\<exists>s'. handleShareDownload (simple_env (file_query share_row))
          (simple_state 0 [''uploads/srv'' \<mapsto> ''data''] shared_request) = (Inr True, s') \<and>
        served (rs_statusCode (h_resp s')) \<and>
        (\<exists>row s1. answered (simple_env (file_query share_row)) (share_download_select ''srv'' ''abc'') row s1)"
proof -
  let ?e = "simple_env (file_query share_row)"
  let ?s = "simple_state 0 [''uploads/srv'' \<mapsto> ''data''] shared_request"
  have q: "esc ?e ?s ''srv'' = ''srv''" "esc ?e ?s ''abc'' = ''abc''"
    by (simp_all add: esc_def c_str_def NUL_def)
  have j: "env_junk ?e = (\<lambda>k. NUL)" by (simp add: simple_env_def)
  have "\<exists>s'. handleShareDownload ?e ?s = (Inr True, s') \<and> served (rs_statusCode (h_resp s'))"
    by (simp add: handleShareDownload_def path_param_def header_def query_param_def q j escapeString_eq
        validateSession_def hbind_def shared_request_simps share_row_simps executeQueryWithResult_def run_query_def
        share_statement serve_file_def hcatch_def uploadDir_def shutdown_when_written_def head_response_def served_def
        Let_def addRespHeader_def setContentType_def setStatusMessage_def setStatusCode_def
        share_permission_def share_grants_def file_query_def share_download_row_def serve_shared_file_def)
  then obtain s' where r: "handleShareDownload ?e ?s = (Inr True, s')" and o: "served (rs_statusCode (h_resp s'))"
    by auto
  from handleShareDownload_authorised [OF r o] r o show ?thesis
    by (auto simp: Let_def q j shared_request_simps)
qed

text \<open>
  The write callback of a download never loses or repeats a byte: when a chunk is
  accepted by the connection, the bytes sent so far followed by the rest of the file stay the same
  and the rest gets shorter; at the end of the file nothing is sent and the connection is shut
  down.  The callback cannot fail, given the memory for one chunk.
\<close>

theorem download_pump:
  assumes "reach ms conn" and "tc_state conn = kConnected"
    and "k < length (ap_downs a)" and "down_ok (ap_downs a ! k)"
    and "buf_used (tc_output conn) + chunkSize \<le> vec_max"
  defines "d \<equiv> ap_downs a ! k"
  shows "\<exists>a' conn'. on_write_complete (Cb_download k) a conn = Inr (a', conn') \<and>
     (if dc_currentPosition d < dc_fileSize d
      then down_ok (ap_downs a' ! k) \<and> dc_currentPosition d < dc_currentPosition (ap_downs a' ! k) \<and>
           (\<exists>c. reach (if gives_up conn c then ms else ms @ c) conn' \<and>
                c @ drop (dc_currentPosition (ap_downs a' ! k)) (dc_data (ap_downs a' ! k)) =
                  drop (dc_currentPosition d) (dc_data d))
      else reach ms conn' \<and> dc_isComplete (ap_downs a' ! k) \<and> tc_state conn' = kDisconnecting)"
proof (cases "dc_currentPosition d < dc_fileSize d")
  case True
  define n where "n = min chunkSize (dc_fileSize d - dc_currentPosition d)"
  note s = readNextChunk_step [OF assms(4) [folded d_def] True, folded n_def]
  let ?c = "chunk (dc_currentPosition d) n (dc_data d)"
  have len: "length ?c \<le> chunkSize" by (simp add: chunk_def n_def)
  then have room: "buf_used (tc_output conn) + length ?c \<le> vec_max" using assms(5) by simp
  obtain conn' where c': "send_conn conn ?c = Inr conn'"
    using sendInLoop_ok [OF _ assms(2) room] reach_inv [OF assms(1)] assms(2) by (auto simp: send_conn_def)
  from reach.send [OF assms(1) room c'] assms(2)
  have "reach (if gives_up conn ?c then ms else ms @ ?c) conn'" by (simp split: if_splits)
  moreover have "?c @ drop (dc_currentPosition d + n) (dc_data d) = drop (dc_currentPosition d) (dc_data d)"
    by (simp add: chunk_def add.commute flip: drop_drop)
  ultimately show ?thesis
    using True s c' assms(3) by (auto simp: on_write_complete_def d_def [symmetric] intro!: exI [of _ ?c] split: if_splits)
next
  case False
  then have "dc_currentPosition d = dc_fileSize d" using assms(4) by (simp add: down_ok_def d_def)
  from readNextChunk_end [OF assms(4) [folded d_def] this] show ?thesis
    using False assms(2,3) reach.shutdown [OF assms(1)]
    by (auto simp: on_write_complete_def d_def [symmetric] shutdown_conn_def shutdownInLoop_def)
qed

lemma reach_established:
  "\<exists>c :: ('x, 'k) TcpConnection. reach [] c \<and> tc_state c = kConnected \<and> tc_output c = emptyBuffer"
proof -
  let ?c0 = "mkTcpConnection 5 None [] :: ('x, 'k) TcpConnection"
  obtain c1 where c1: "connectEstablished ?c0 = Inr c1" "tc_state c1 = kConnected" "tc_output c1 = emptyBuffer"
    by (simp add: connectEstablished_def mkTcpConnection_def emit_def set_channel_def)
  from reach.established [OF reach.fresh c1(1)] c1 show ?thesis by auto
qed

theorem download_pump_witness:
  "\<exists>(conn :: Conn) d a' conn'. on_write_complete (Cb_download 0)
      (h_app (simple_state 0 Map.empty mkHttpRequest)\<lparr>ap_downs := [d]\<rparr>) conn = Inr (a', conn') \<and>
      dc_data d = ''abc'' \<and> dc_currentPosition d = 1 \<and> 1 < dc_currentPosition (ap_downs a' ! 0)"
proof -
  obtain conn :: Conn where c: "reach [] conn" "tc_state conn = kConnected" "tc_output conn = emptyBuffer"
    using reach_established by blast
  let ?d = "\<lparr>dc_filepath = ''f'', dc_originalFilename = ''n'', dc_data = ''abc'', dc_fileSize = 3,
             dc_currentPosition = 1, dc_isComplete = False\<rparr>"
  let ?a = "h_app (simple_state 0 Map.empty mkHttpRequest)\<lparr>ap_downs := [?d]\<rparr>"
  have "0 < length (ap_downs ?a)" "down_ok (ap_downs ?a ! 0)"
    "buf_used (tc_output conn) + chunkSize \<le> vec_max"
    unfolding c(3) by (simp_all add: down_ok_def size_mod_def chunkSize_def vec_max_def)
  from download_pump [OF c(1,2) this] show ?thesis
    by (intro exI [of _ conn] exI [of _ ?d]) (auto split: if_splits)
qed

text \<open>
  A satisfiable range is announced in \<^verbatim>\<open>Content-Range\<close> with both of its ends and the size
  of the file, under status 206; what the download then hands out are the bytes from the first
  position to the end of the file, wherever the range ends.
\<close>

theorem range_is_served_to_end_of_file:
  assumes "ap_files (h_app s) path = Some d" and "length d < size_mod" and "b < length d"
  shows "\<exists>k s' fuel cs. start_download path name (Byte_Range b e) (length d) s = (Inr k, s') \<and>
     rs_statusCode (h_resp s') = k206PartialContent \<and>
     map_of (rs_headers (h_resp s')) ''Content-Range'' =
       Some (''bytes '' @ nat_to_string b @ ''-'' @ nat_to_string e @ ''/'' @ nat_to_string (length d)) \<and>
     k < length (ap_downs (h_app s')) \<and>
     read_chunks fuel (ap_downs (h_app s') ! k) = Some cs \<and> concat cs = drop b d"
proof -
  define c where "c = seekTo \<lparr>dc_filepath = path, dc_originalFilename = name, dc_data = d,
     dc_fileSize = length d, dc_currentPosition = 0, dc_isComplete = False\<rparr> b"
  have m: "hlib (mkFileDownContext (ap_files (h_app s)) path name) s0 =
      (Inr \<lparr>dc_filepath = path, dc_originalFilename = name, dc_data = d,
        dc_fileSize = length d, dc_currentPosition = 0, dc_isComplete = False\<rparr>, s0)" for s0 :: "'a HState"
    using assms(1) by (simp add: mkFileDownContext_def hlib_def)
  have ok: "down_ok c" "dc_currentPosition c = b" "dc_data c = d"
    using assms(2,3) by (simp_all add: c_def seekTo_def down_ok_def)
  have fuel: "dc_fileSize c - dc_currentPosition c < Suc (length d)" by (simp add: c_def seekTo_def)
  obtain cs where cs: "read_chunks (Suc (length d)) c = Some cs" "concat cs = drop b d"
    using read_chunks_all [OF ok(1) fuel] ok(2,3) by auto
  show ?thesis
    using cs
    by (intro exI [of _ "length (ap_downs (h_app s))"])
      (simp add: start_download_def put_down_def m hbind_def [of "hlib (mkFileDownContext (ap_files (h_app s)) path name)"] range_start_def c_def [symmetric]
        download_headers_def range_headers_def addRespHeader_def setContentType_def setStatusMessage_def
        setStatusCode_def map_of_map_put del: read_chunks.simps, blast)
qed

theorem range_is_served_to_end_of_file_witness:
  "\<exists>k s' fuel cs. start_download ''f'' ''n'' (Byte_Range 1 2) (length ''abcdef'') (simple_state 0 [''f'' \<mapsto> ''abcdef''] mkHttpRequest) =
      (Inr k, s') \<and> rs_statusCode (h_resp s') = k206PartialContent \<and>
     read_chunks fuel (ap_downs (h_app s') ! k) = Some cs \<and> concat cs = ''bcdef''"
  using range_is_served_to_end_of_file [of "simple_state 0 [''f'' \<mapsto> ''abcdef''] mkHttpRequest" "''f''" "''abcdef''" 1 "''n''" 2]
  by (simp add: size_mod_def) blast

end
