(* ===== verification/App_Account.thy ===== *)
theory App_Account
  imports App_Base
begin

text \<open>
  The account handlers of \<^verbatim>\<open>HttpUploadHandler\<close> (\<^verbatim>\<open>app/HttpUploader.hpp\<close>): \<^verbatim>\<open>handleRegister\<close>,
  \<^verbatim>\<open>handleLogin\<close>, \<^verbatim>\<open>handleLogout\<close> and \<^verbatim>\<open>handleSearchUsers\<close>.  Lemmas: which rows a login needs and what
  it stores, and that a register never inserts over an existing name.
\<close>

section \<open>Definitions\<close>

definition username_select :: "bytes \<Rightarrow> bytes" where
  "username_select username = ''SELECT id FROM users WHERE username = '' @ quoted username"

definition user_insert :: "bytes \<Rightarrow> bytes \<Rightarrow> bytes option \<Rightarrow> bytes" where
  "user_insert username password email =
     ''INSERT INTO users (username, password, email) VALUES ('' @ quoted username @ '', '' @
     quoted password @ '', '' @ (case email of None \<Rightarrow> ''NULL'' | Some m \<Rightarrow> quoted m) @ '')''"

text \<open>The optional address of a new user, escaped.\<close>

definition escape_email :: "'d Env \<Rightarrow> bytes \<Rightarrow> ('d, bytes option) hm" where
  "escape_email env email =
     (if email = [] then hret None else hbind (escapeString env email) (\<lambda>m. hret (Some m)))"

definition register_user :: "'d Env \<Rightarrow> bytes \<Rightarrow> bytes \<Rightarrow> bytes \<Rightarrow> ('d, bool) hm" where
  "register_user env username password email =
     hbind (escapeString env username) (\<lambda>u.
     hbind (escapeString env (sha256 env password)) (\<lambda>p.
     hbind (escape_email env email) (\<lambda>m.
     hbind (executeQuery env (user_insert u p m)) (\<lambda>inserted.
     if \<not> inserted then fail env msg_register_retry k500InternalServerError
     else hbind (mysql_insert_id env) (\<lambda>userId.
          send_json env (JObj [(''code'', JInt 0), (''message'', JStr msg_register_ok),
                               (''userId'', JInt userId)]))))))"

definition body_json :: "'d Env \<Rightarrow> ('d, json) hm" where
  "body_json env = hbind (hget (\<lambda>s. rq_body (request_of s))) (\<lambda>body. hlib (env_parse env body))"

definition handleRegister :: "'d Env \<Rightarrow> ('d, bool) hm" where
  "handleRegister env =
     hcatch
       (hbind (body_json env) (\<lambda>requestData.
        hbind (hlib (env_get_str env requestData ''username'')) (\<lambda>username.
        hbind (hlib (env_get_str env requestData ''password'')) (\<lambda>password.
        hbind (hlib (env_value_str env requestData ''email'' [])) (\<lambda>email.
        if username = [] \<or> password = [] then fail env msg_credentials_empty k400BadRequest
        else hbind (escapeString env username) (\<lambda>u.
             hbind (executeQueryWithResult env (username_select u)) (\<lambda>result.
             case result of
               Some (_ # _) \<Rightarrow> fail env msg_user_exists k400BadRequest
             | _ \<Rightarrow> register_user env username password email)))))))
       (\<lambda>what. fail env (msg_register_failed @ what) k500InternalServerError)"

definition login_select :: "bytes \<Rightarrow> bytes \<Rightarrow> bytes" where
  "login_select username password =
     ''SELECT id, username FROM users WHERE username = '' @ quoted username @ '' AND password = '' @
     quoted password"

definition start_session :: "'d Env \<Rightarrow> db_row \<Rightarrow> ('d, bool) hm" where
  "start_session env row =
     hbind (hof (int_cell env row 0)) (\<lambda>userId.
     hbind (hof (str_cell env row 1)) (\<lambda>usernameFromDb.
     hbind (generateSessionId env) (\<lambda>sessionId.
     hbind (saveSession env sessionId userId usernameFromDb) (\<lambda>_.
     send_json env (JObj [(''code'', JInt 0), (''message'', JStr msg_login_ok), (''sessionId'', JStr sessionId),
                          (''userId'', JInt userId), (''username'', JStr usernameFromDb)])))))"

definition handleLogin :: "'d Env \<Rightarrow> ('d, bool) hm" where
  "handleLogin env =
     hcatch
       (hbind (body_json env) (\<lambda>requestData.
        hbind (hlib (env_get_str env requestData ''username'')) (\<lambda>username.
        hbind (hlib (env_get_str env requestData ''password'')) (\<lambda>password.
        if username = [] \<or> password = [] then fail env msg_credentials_empty k400BadRequest
        else hbind (escapeString env username) (\<lambda>u.
             hbind (escapeString env (sha256 env password)) (\<lambda>p.
             hbind (executeQueryWithResult env (login_select u p)) (\<lambda>result.
             case result of
               Some (row # _) \<Rightarrow> start_session env row
             | _ \<Rightarrow> fail env msg_bad_credentials k401Unauthorized)))))))
       (\<lambda>what. fail env (msg_login_failed @ what) k500InternalServerError)"

definition handleLogout :: "'d Env \<Rightarrow> ('d, bool) hm" where
  "handleLogout env =
     hbind (header ''X-Session-ID'') (\<lambda>sessionId.
     hbind (if sessionId \<noteq> [] then endSession env sessionId else hret ()) (\<lambda>_.
     send_json env (JObj [(''code'', JInt 0), (''message'', JStr ''Logout successful'')])))"

definition search_select :: "bytes \<Rightarrow> int \<Rightarrow> bytes" where
  "search_select keyword userId =
     ''SELECT id, username, email FROM users WHERE username LIKE '' @ quoted (''%'' @ keyword @ ''%'') @
     '' AND id != '' @ int_to_string userId @ '' LIMIT 10''"

definition user_json :: "'d Env \<Rightarrow> db_row \<Rightarrow> exn + json" where
  "user_json env row = (case int_cell env row 0 of
       Inl e \<Rightarrow> Inl e
     | Inr i \<Rightarrow> (case cell_or row 1 [] of
         Inl e \<Rightarrow> Inl e
       | Inr u \<Rightarrow> (case cell_or row 2 [] of
           Inl e \<Rightarrow> Inl e
         | Inr m \<Rightarrow> Inr (JObj [(''id'', JInt i), (''username'', JStr u), (''email'', JStr m)]))))"

text \<open>A loop over the rows of a result.\<close>

fun each_row :: "(db_row \<Rightarrow> ('d, 'a) hm) \<Rightarrow> db_row list \<Rightarrow> ('d, 'a list) hm" where
  "each_row f [] = hret []"
| "each_row f (row # rows) = hbind (f row) (\<lambda>x. hbind (each_row f rows) (\<lambda>xs. hret (x # xs)))"

definition result_rows :: "db_row list option \<Rightarrow> db_row list" where
  "result_rows result = (case result of None \<Rightarrow> [] | Some rows \<Rightarrow> rows)"

text \<open>The keyword: what follows \<^verbatim>\<open>keyword=\<close> at the beginning of the query string.\<close>

definition search_keyword :: "'d Env \<Rightarrow> bytes \<Rightarrow> bytes" where
  "search_keyword env query =
     (let q = (if starts_with ''?'' query then tl query else query)
      in if starts_with ''keyword='' q then app_urlDecode env (drop 8 q) else [])"

definition handleSearchUsers :: "'d Env \<Rightarrow> ('d, bool) hm" where
  "handleSearchUsers env = with_session env (\<lambda>userId.
     hbind (hget (\<lambda>s. search_keyword env (rq_query (request_of s)))) (\<lambda>keyword.
     if keyword = [] then fail env msg_keyword_empty k400BadRequest
     else hbind (escapeString env keyword) (\<lambda>k.
          hbind (executeQueryWithResult env (search_select k userId)) (\<lambda>result.
          hbind (each_row (\<lambda>row. hof (user_json env row)) (result_rows result)) (\<lambda>users.
          send_json env (JObj [(''code'', JInt 0), (''message'', JStr ''Success''), (''users'', JArr users)]))))))"

section \<open>Login\<close>

lemma start_session_Inr:
  assumes run: "start_session env row s = (Inr b, s')" and on: "ap_mysql (h_app s)"
  shows "\<exists>userId name sid. int_cell env row 0 = Inr userId \<and> str_cell env row 1 = Inr name \<and>
           length sid = 32 \<and> set sid \<subseteq> set lower_alphabet \<and>
           ap_issued (h_app s') = ap_issued (h_app s) @
             [c_str (session_insert (esc env s sid) userId (esc env s name))] \<and>
           env_dump env (JObj [(''code'', JInt 0), (''message'', JStr msg_login_ok), (''sessionId'', JStr sid),
             (''userId'', JInt userId), (''username'', JStr name)]) = Inr (rs_body (h_resp s'))"
proof -
  define sid where "sid = drawn env lower_alphabet (ap_ticks (h_app s)) 32"
  define s1 where "s1 = s\<lparr>h_app := (h_app s)\<lparr>ap_ticks := ap_ticks (h_app s) + 32\<rparr>\<rparr>"
  have dc: "draw_chars env lower_alphabet 32 s = (Inr sid, s1)"
    by (simp add: draw_chars_eq sid_def s1_def)
  from run obtain userId name s2 ok where r: "int_cell env row 0 = Inr userId" "str_cell env row 1 = Inr name"
    and 2: "executeQuery env (session_insert (esc env s1 sid) userId (esc env s1 name)) s1 = (Inr ok, s2)"
    and 3: "send_json env (JObj [(''code'', JInt 0), (''message'', JStr msg_login_ok), (''sessionId'', JStr sid),
             (''userId'', JInt userId), (''username'', JStr name)]) s2 = (Inr b, s')"
    by (auto simp: start_session_def result_iff generateSessionId_def saveSession_def escapeString_eq dc
        simp del: draw_chars.simps)
  have "ap_issued (h_app s2) = ap_issued (h_app s) @ [c_str (session_insert (esc env s sid) userId (esc env s name))]"
    using executeQuery_issued [OF 2] on by (simp add: esc_def s1_def)
  moreover have "length sid = 32" "set sid \<subseteq> set lower_alphabet"
    using drawn_chars [OF alphabets(1), of env "ap_ticks (h_app s)" 32] by (simp_all add: sid_def)
  ultimately show ?thesis
    using r send_json_Inr [OF 3] by (intro exI [of _ userId] exI [of _ name] exI [of _ sid]) simp
qed

text \<open>
  C18 (safety). A login succeeds only for non-empty credentials for which the users table has a row with
  the name and the hash of the password.  Exactly two statements are sent, the select and the insert
  of the new session, and the session id the client receives is the one that was stored for that
  user: 32 characters of the lower case alphabet.
\<close>

theorem handleLogin_needs_credentials:
  assumes run: "handleLogin env s = (Inr b, s')" and ok: "rs_statusCode (h_resp s') = k200Ok"
  shows "\<exists>j username password row userId name sid.
     env_parse env (rq_body (request_of s)) = Inr j \<and> env_get_str env j ''username'' = Inr username \<and>
     env_get_str env j ''password'' = Inr password \<and> username \<noteq> [] \<and> password \<noteq> [] \<and>
     answered env (login_select (esc env s username) (esc env s (sha256 env password))) row s \<and>
     int_cell env row 0 = Inr userId \<and> str_cell env row 1 = Inr name \<and>
     length sid = 32 \<and> set sid \<subseteq> set lower_alphabet \<and>
     ap_issued (h_app s') = ap_issued (h_app s) @
       [c_str (login_select (esc env s username) (esc env s (sha256 env password))),
        c_str (session_insert (esc env s sid) userId (esc env s name))] \<and>
     env_dump env (JObj [(''code'', JInt 0), (''message'', JStr msg_login_ok), (''sessionId'', JStr sid),
       (''userId'', JInt userId), (''username'', JStr name)]) = Inr (rs_body (h_resp s'))"
proof -
  have f: "\<not> fail env m st s0 = (Inr b, s')" if "st \<noteq> k200Ok" for m st s0
    using that ok fail_status [of env m st s0 b s'] by auto
  from run f obtain j username password result s1 where
    j: "env_parse env (rq_body (request_of s)) = Inr j" "env_get_str env j ''username'' = Inr username"
      "env_get_str env j ''password'' = Inr password" "username \<noteq> []" "password \<noteq> []"
    and 1: "executeQueryWithResult env (login_select (esc env s username) (esc env s (sha256 env password))) s = (Inr result, s1)"
    and 2: "(case result of Some (row # _) \<Rightarrow> start_session env row
             | _ \<Rightarrow> fail env msg_bad_credentials k401Unauthorized) s1 = (Inr b, s')"
    by (auto simp: handleLogin_def result_iff body_json_def escapeString_eq split: if_splits)
  from 2 f obtain row rows where res: "result = Some (row # rows)"
    by (auto split: option.splits list.splits)
  have a: "answered env (login_select (esc env s username) (esc env s (sha256 env password))) row s"
    using 1 unfolding res by (rule executeQueryWithResult_row)
  then have on: "ap_mysql (h_app s)" by (simp add: answered_def)
  note d = executeQueryWithResult_db_only [OF 1]
  have e: "esc env s1 = esc env s" by (rule ext) (rule esc_db_only [OF d])
  have "ap_mysql (h_app s1)" using on db_only_fields [OF d] by simp
  moreover have "start_session env row s1 = (Inr b, s')" using 2 res by simp
  moreover have "ap_issued (h_app s1) = ap_issued (h_app s) @ [c_str (login_select (esc env s username) (esc env s (sha256 env password)))]"
    using executeQueryWithResult_issued [OF 1] on by simp
  ultimately show ?thesis
    using start_session_Inr [of env row s1 b s'] j a unfolding e by (auto 0 4)
qed

text \<open>A database with one account, and a request to log in.\<close>

definition account_query :: "nat \<Rightarrow> bytes \<Rightarrow> db_reply \<times> nat" where
  "account_query db q =
     (if starts_with ''SELECT id, username'' q then (Db_ok (Some [[Some ''3'', Some ''ann'']]), db)
      else if starts_with ''SELECT'' q then (Db_ok (Some []), db)
      else (Db_ok None, Suc db))"

lemma account_query_simps:
  "account_query db (c_str (login_select u p)) = (Db_ok (Some [[Some ''3'', Some ''ann'']]), db)"
  "account_query db (c_str (session_insert sid i u)) = (Db_ok None, Suc db)"
  "account_query db (c_str (username_select u)) = (Db_ok (Some []), db)"
  "account_query db (c_str (user_insert u p m)) = (Db_ok None, Suc db)"
  by (simp_all add: account_query_def login_select_def session_insert_def username_select_def user_insert_def
      c_str_def NUL_def)

lemma simple_json [simp]:
  "env_parse (simple_env q) b = Inr JNull" "env_get_str (simple_env q) j k = Inr k"
  "env_value_str (simple_env q) j k d = Inr d" "env_get_int (simple_env q) j k = Inr 1"
  "env_has (simple_env q) j k = False"
  by (simp_all add: simple_env_def)

theorem handleLogin_needs_credentials_witness:
  "\<exists>s' sid. handleLogin (simple_env account_query) (simple_state 0 Map.empty mkHttpRequest) = (Inr True, s') \<and>
     rs_statusCode (h_resp s') = k200Ok \<and> length sid = (32 :: nat) \<and> set sid \<subseteq> set lower_alphabet"
proof -
  let ?e = "simple_env account_query" let ?s = "simple_state 0 Map.empty mkHttpRequest"
  have c: "int_cell ?e [Some ''3'', Some ''ann''] 0 = Inr 3" "str_cell ?e [Some ''3'', Some ''ann''] 1 = Inr ''ann''"
    "str_cell ?e [Some ''3'', Some ''ann''] (Suc 0) = Inr ''ann''"
    by code_simp+
  have "\<exists>s'. handleLogin ?e ?s = (Inr True, s') \<and> rs_statusCode (h_resp s') = k200Ok"
    by (simp add: handleLogin_def body_json_def hbind_def hlib_def hcatch_def escapeString_eq
        executeQueryWithResult_def executeQuery_def run_query_def Let_def account_query_simps start_session_def c
        generateSessionId_def draw_chars_eq saveSession_def send_json_def shutdown_when_written_def
        del: draw_chars.simps)
  then obtain s' where r: "handleLogin ?e ?s = (Inr True, s')" and o: "rs_statusCode (h_resp s') = k200Ok" by auto
  from handleLogin_needs_credentials [OF r o] r o show ?thesis by blast
qed

section \<open>Registration\<close>

text \<open>
  Registration succeeds only when the select for the name, escaped, found no row; it then
  sent exactly that select and one insert, which has the name, the hash of the password and not the
  password itself, and the address or \<^verbatim>\<open>NULL\<close>.
\<close>

theorem handleRegister_new_names_only:
  assumes run: "handleRegister env s = (Inr b, s')" and ok: "rs_statusCode (h_resp s') = k200Ok"
  shows "\<exists>j username password email.
     env_parse env (rq_body (request_of s)) = Inr j \<and> env_get_str env j ''username'' = Inr username \<and>
     env_get_str env j ''password'' = Inr password \<and> env_value_str env j ''email'' [] = Inr email \<and>
     username \<noteq> [] \<and> password \<noteq> [] \<and> ap_mysql (h_app s) \<and>
     (\<nexists>row. answered env (username_select (esc env s username)) row s) \<and>
     ap_issued (h_app s') = ap_issued (h_app s) @
       [c_str (username_select (esc env s username)),
        c_str (user_insert (esc env s username) (esc env s (sha256 env password))
          (if email = [] then None else Some (esc env s email)))]"
proof -
  have f: "\<not> fail env m st s0 = (Inr b, s')" if "st \<noteq> k200Ok" for m st s0
    using that ok fail_status [of env m st s0 b s'] by auto
  from run f obtain j username password email result s1 where
    j: "env_parse env (rq_body (request_of s)) = Inr j" "env_get_str env j ''username'' = Inr username"
      "env_get_str env j ''password'' = Inr password" "env_value_str env j ''email'' [] = Inr email"
      "username \<noteq> []" "password \<noteq> []"
    and 1: "executeQueryWithResult env (username_select (esc env s username)) s = (Inr result, s1)"
    and 2: "(case result of Some (_ # _) \<Rightarrow> fail env msg_user_exists k400BadRequest
             | _ \<Rightarrow> register_user env username password email) s1 = (Inr b, s')"
    by (auto simp: handleRegister_def result_iff body_json_def escapeString_eq split: if_splits)
  note d = executeQueryWithResult_db_only [OF 1]
  have e: "esc env s1 = esc env s" by (rule ext) (rule esc_db_only [OF d])
  let ?m = "if email = [] then None else Some (esc env s email)"
  have "register_user env username password email s1 = (Inr b, s')"
    using 2 f by (auto split: option.splits list.splits)
  then obtain s2 i where
    3: "executeQuery env (user_insert (esc env s username) (esc env s (sha256 env password)) ?m) s1 = (Inr True, s2)"
    and 4: "send_json env (JObj [(''code'', JInt 0), (''message'', JStr msg_register_ok), (''userId'', JInt i)]) s2 = (Inr b, s')"
    using f by (auto simp: register_user_def result_iff escapeString_eq escape_email_def e mysql_insert_id_def
        split: if_splits)
  have on1: "ap_mysql (h_app s1)" using 3 executeQuery_off [of s1] by fastforce
  then have on: "ap_mysql (h_app s)" using db_only_fields [OF d] by simp
  have "\<nexists>row. answered env (username_select (esc env s username)) row s"
  proof
    assume "\<exists>row. answered env (username_select (esc env s username)) row s"
    then obtain row rows where "result = Some (row # rows)"
      using 1 by (auto simp: answered_def executeQueryWithResult_on)
    with 2 f show False by simp
  qed
  moreover have "ap_issued (h_app s') = ap_issued (h_app s) @
       [c_str (username_select (esc env s username)),
        c_str (user_insert (esc env s username) (esc env s (sha256 env password)) ?m)]"
    using executeQueryWithResult_issued [OF 1] executeQuery_issued [OF 3] send_json_Inr(2) [OF 4] on on1 by simp
  ultimately show ?thesis using j on by blast
qed

theorem handleRegister_new_names_only_witness:
  "\<exists>s'. handleRegister (simple_env account_query) (simple_state 0 Map.empty mkHttpRequest) = (Inr True, s') \<and>
     rs_statusCode (h_resp s') = k200Ok \<and>
     (\<exists>username password. \<not> (\<exists>row. answered (simple_env account_query)
        (username_select (esc (simple_env account_query) (simple_state 0 Map.empty mkHttpRequest) username)) row
        (simple_state 0 Map.empty mkHttpRequest)) \<and> password \<noteq> ([] :: bytes))"
proof -
  let ?e = "simple_env account_query" let ?s = "simple_state 0 Map.empty mkHttpRequest"
  have "\<exists>s'. handleRegister ?e ?s = (Inr True, s') \<and> rs_statusCode (h_resp s') = k200Ok"
    by (simp add: handleRegister_def body_json_def hbind_def hlib_def hcatch_def escapeString_eq
        executeQueryWithResult_def executeQuery_def run_query_def Let_def account_query_simps register_user_def
        escape_email_def mysql_insert_id_def send_json_def shutdown_when_written_def)
  then obtain s' where r: "handleRegister ?e ?s = (Inr True, s')" and o: "rs_statusCode (h_resp s') = k200Ok" by auto
  from handleRegister_new_names_only [OF r o] r o show ?thesis by blast
qed

end
