(* ===== verification/App_Sharing.thy ===== *)
theory App_Sharing
  imports App_Account
begin

text \<open>
  The file list, deletion and sharing handlers of \<^verbatim>\<open>HttpUploadHandler\<close> (\<^verbatim>\<open>app/HttpUploader.hpp\<close>):
  \<^verbatim>\<open>handleListFiles\<close>, \<^verbatim>\<open>handleDelete\<close>, \<^verbatim>\<open>handleShareFile\<close>, \<^verbatim>\<open>handleShareAccess\<close>, \<^verbatim>\<open>handleShareInfo\<close>,
  and the static pages \<^verbatim>\<open>handleIndex\<close> and \<^verbatim>\<open>handleFavicon\<close>.  Lemmas: only an owner's file is deleted or
  shared, and what the share page makes of the columns the schema has.
\<close>

section \<open>Static pages\<close>

definition page_path :: "'d Env \<Rightarrow> bytes \<Rightarrow> bytes" where
  "page_path env path =
     (if path = ''/register.html'' then env_root env @ ''/register.html''
      else if path = ''/share.html'' \<or> starts_with ''/share/'' path then env_root env @ ''/share.html''
      else env_root env @ ''/index.html'')"

definition handleIndex :: "'d Env \<Rightarrow> ('d, bool) hm" where
  "handleIndex env =
     hthen (upd_resp (\<lambda>r. setContentType ''text/html; charset=utf-8'' (setStatusMessage ''OK'' (setStatusCode k200Ok r))))
     (hbind (hget (\<lambda>s. page_path env (rq_path (request_of s)))) (\<lambda>filePath.
      hbind (hget (\<lambda>s. ap_files (h_app s) filePath)) (\<lambda>file.
      case file of
        None \<Rightarrow> fail env (''Failed to open '' @ filePath) k500InternalServerError
      | Some html \<Rightarrow>
          hthen (upd_resp (\<lambda>r. setBody html (addRespHeader ''Connection'' ''close'' r)))
          (hthen shutdown_when_written (hret True)))))"

definition handleFavicon :: "'d Env \<Rightarrow> ('d, bool) hm" where
  "handleFavicon env =
     hbind (hget (\<lambda>s. ap_files (h_app s) (env_root env @ ''/favicon.ico''))) (\<lambda>file.
     hthen (upd_resp (case file of
              None \<Rightarrow> \<lambda>r. setBody [] (respond k404NotFound ''Not Found'' ''image/x-icon'' r)
            | Some iconData \<Rightarrow> \<lambda>r. setBody iconData (respond k200Ok ''OK'' ''image/x-icon'' r)))
     (hthen shutdown_when_written (hret True)))"

section \<open>The list of files\<close>

definition list_columns :: bytes where
  "list_columns = ''SELECT f.id, f.filename, f.original_filename, f.file_size, '' @ ''f.file_type, ''"

text \<open>Any other type leaves the statement empty.\<close>

definition list_query :: "bytes \<Rightarrow> int \<Rightarrow> bytes" where
  "list_query listType userId =
     (let u = int_to_string userId
      in if listType = ''my''
         then list_columns @ ''f.created_at, 1 as is_owner FROM files f WHERE f.user_id = '' @ u
         else if listType = ''shared''
         then list_columns @ ''f.created_at, 0 as is_owner FROM files f '' @
              ''JOIN file_shares fs ON f.id = fs.file_id '' @ ''WHERE (fs.shared_with_id = '' @ u @
              '' OR fs.share_type = '' @ quoted ''public'' @ '') '' @ ''AND f.user_id != '' @ u
         else if listType = ''all''
         then list_columns @ ''f.created_at, CASE WHEN f.user_id = '' @ u @ '' THEN 1 ELSE 0 END as is_owner '' @
              ''FROM files f '' @ ''LEFT JOIN file_shares fs ON f.id = fs.file_id '' @
              ''WHERE f.user_id = '' @ u @ '' OR '' @ ''fs.shared_with_id = '' @ u @
              '' OR fs.share_type = '' @ quoted ''public''
         else [])"

definition list_shares_select :: "int \<Rightarrow> bytes" where
  "list_shares_select fileId =
     ''SELECT share_type, shared_with_id, share_code, expire_time, '' @ ''extract_code FROM file_shares '' @
     ''WHERE file_id = '' @ int_to_string fileId"

text \<open>The members a share of type \<^verbatim>\<open>user\<close> adds.\<close>

definition shared_with_members :: "'d Env \<Rightarrow> db_row \<Rightarrow> ('d, (bytes \<times> json) list) hm" where
  "shared_with_members env shareRow =
     hbind (hof (int_cell env shareRow 1)) (\<lambda>sharedWithId.
     hbind (executeQueryWithResult env
       (''SELECT username FROM users WHERE id = '' @ int_to_string sharedWithId)) (\<lambda>userResult.
     case userResult of
       Some (userRow # _) \<Rightarrow>
         hbind (hof (str_cell env userRow 0)) (\<lambda>name.
         hret [(''sharedWithUsername'', JStr name), (''sharedWithId'', JInt sharedWithId)])
     | _ \<Rightarrow> hret []))"

definition share_members :: "'d Env \<Rightarrow> db_row \<Rightarrow> ('d, (bytes \<times> json) list) hm" where
  "share_members env shareRow =
     hbind (hof (str_cell env shareRow 0)) (\<lambda>shareType.
     hbind (hof (cell_or shareRow 2 [])) (\<lambda>shareCode.
     hbind (hof (cell shareRow 4)) (\<lambda>extractCode.
     hbind (hof (cell shareRow 1)) (\<lambda>sharedWith.
     hbind (hof (cell shareRow 3)) (\<lambda>expireTime.
     hbind (if shareType = ''user'' \<and> sharedWith \<noteq> None then shared_with_members env shareRow else hret []) (\<lambda>user.
     hret ([(''type'', JStr shareType), (''shareCode'', JStr shareCode)] @
           (case extractCode of Some x \<Rightarrow> if shareType = ''protected'' then [(''extractCode'', JStr x)] else [] | None \<Rightarrow> []) @
           user @
           (case expireTime of Some t \<Rightarrow> [(''expireTime'', JStr t)] | None \<Rightarrow> []))))))))"

definition share_info :: "'d Env \<Rightarrow> int \<Rightarrow> ('d, json option) hm" where
  "share_info env fileId =
     hbind (executeQueryWithResult env (list_shares_select fileId)) (\<lambda>shareResult.
     case shareResult of
       Some (shareRow # _) \<Rightarrow> hbind (share_members env shareRow) (\<lambda>ms. hret (Some (JObj ms)))
     | _ \<Rightarrow> hret None)"

definition file_json :: "'d Env \<Rightarrow> db_row \<Rightarrow> ('d, json) hm" where
  "file_json env row =
     hbind (hof (int_cell env row 0)) (\<lambda>fileId.
     hbind (hof (str_cell env row 1)) (\<lambda>filename.
     hbind (hof (str_cell env row 2)) (\<lambda>originalFilename.
     hbind (hof (size_cell env row 3)) (\<lambda>fileSize.
     hbind (hof (str_cell env row 4)) (\<lambda>fileType.
     hbind (hof (str_cell env row 5)) (\<lambda>createdAt.
     hbind (hof (int_cell env row 6)) (\<lambda>owner.
     hbind (if owner = 1 then share_info env fileId else hret None) (\<lambda>shareInfo.
     hret (JObj ([(''id'', JInt fileId), (''name'', JStr filename), (''originalName'', JStr originalFilename),
                  (''size'', JInt (int fileSize)), (''type'', JStr fileType), (''createdAt'', JStr createdAt),
                  (''isOwner'', JBool (owner = 1))] @
                 (case shareInfo of Some j \<Rightarrow> [(''shareInfo'', j)] | None \<Rightarrow> [])))))))))))"

definition handleListFiles :: "'d Env \<Rightarrow> ('d, bool) hm" where
  "handleListFiles env = with_session env (\<lambda>userId.
     hbind (query_param env ''type'' ''my'') (\<lambda>listType.
     hbind (executeQueryWithResult env (list_query listType userId)) (\<lambda>result.
     hbind (case result of
              None \<Rightarrow> hret []
            | Some rows \<Rightarrow> hbind (each_row (file_json env) rows) (\<lambda>files. hret [(''files'', JArr files)])) (\<lambda>files.
     send_json env (JObj ([(''code'', JInt 0), (''message'', JStr ''Success'')] @ files))))))"

section \<open>Deletion\<close>

definition owned_file_select :: "bytes \<Rightarrow> int \<Rightarrow> bytes" where
  "owned_file_select filename userId =
     ''SELECT id FROM files WHERE filename = '' @ quoted filename @ '' AND user_id = '' @ int_to_string userId"

definition shares_delete :: "int \<Rightarrow> bytes" where
  "shares_delete fileId = ''DELETE FROM file_shares WHERE file_id = '' @ int_to_string fileId"

definition file_delete :: "int \<Rightarrow> bytes" where
  "file_delete fileId = ''DELETE FROM files WHERE id = '' @ int_to_string fileId"

text \<open>\<^verbatim>\<open>unlink\<close>, which fails silently where the directory cannot be written.\<close>

definition unlink :: "'d Env \<Rightarrow> bytes \<Rightarrow> 'd App \<Rightarrow> 'd App" where
  "unlink env filepath a =
     (if env_can_write env filepath then a\<lparr>ap_files := (ap_files a)(filepath := None)\<rparr> else a)"

definition delete_file :: "'d Env \<Rightarrow> bytes \<Rightarrow> int \<Rightarrow> ('d, bool) hm" where
  "delete_file env filename fileId =
     hbind (executeQuery env (shares_delete fileId)) (\<lambda>_.
     hbind (executeQuery env (file_delete fileId)) (\<lambda>deleted.
     if \<not> deleted then fail env msg_delete_record_failed k500InternalServerError
     else hthen (upd_app (unlink env (c_str (uploadDir @ ''/'' @ filename))))
          (hthen (upd_app (eraseFilenameMapping env filename))
          (send_json env (JObj [(''code'', JInt 0), (''message'', JStr ''success'')])))))"

definition handleDelete :: "'d Env \<Rightarrow> ('d, bool) hm" where
  "handleDelete env = with_session env (\<lambda>userId.
     hbind (path_param ''filename'') (\<lambda>filename.
     if filename = [] then fail env ''Missing filename'' k400BadRequest
     else hbind (escapeString env filename) (\<lambda>f.
          hbind (executeQueryWithResult env (owned_file_select f userId)) (\<lambda>result.
          case result of
            Some (row # _) \<Rightarrow> hbind (hof (int_cell env row 0)) (\<lambda>fileId. delete_file env filename fileId)
          | _ \<Rightarrow> fail env msg_cannot_delete k403Forbidden))))"

section \<open>Sharing\<close>

definition owner_select :: "int \<Rightarrow> int \<Rightarrow> bytes" where
  "owner_select fileId userId =
     ''SELECT 1 FROM files WHERE id = '' @ int_to_string fileId @ '' AND user_id = '' @ int_to_string userId"

definition user_share_select :: "int \<Rightarrow> bytes \<Rightarrow> bytes" where
  "user_share_select fileId sharedWithId =
     ''SELECT 1 FROM file_shares WHERE file_id = '' @ int_to_string fileId @ '' AND shared_with_id = '' @
     sharedWithId @ '' AND share_type = '' @ quoted ''user''"

text \<open>\<open>sharedWithId\<close>, \<open>extractCode\<close> and \<open>expireStr\<close> are SQL: \<^verbatim>\<open>NULL\<close>, a number, a literal, a call.\<close>

definition share_insert :: "int \<Rightarrow> int \<Rightarrow> bytes \<Rightarrow> bytes \<Rightarrow> bytes \<Rightarrow> bytes \<Rightarrow> bytes \<Rightarrow> bytes" where
  "share_insert fileId userId sharedWithId shareType shareCode extractCode expireStr =
     ''INSERT INTO file_shares (file_id, owner_id, shared_with_id, '' @
     ''share_type, share_code, extract_code, expire_time) VALUES ('' @ int_to_string fileId @ '', '' @
     int_to_string userId @ '', '' @ sharedWithId @ '', '' @ quoted shareType @ '', '' @ quoted shareCode @
     '', '' @ extractCode @ '', '' @ expireStr @ '')''"

definition expire_expr :: "'d Env \<Rightarrow> json \<Rightarrow> ('d, bytes) hm" where
  "expire_expr env requestData =
     (if env_has env requestData ''expireTime''
      then hbind (hlib (env_is_null env requestData ''expireTime'')) (\<lambda>isNull.
           if isNull then hret ''NULL''
           else hbind (hlib (env_get_int env requestData ''expireTime'')) (\<lambda>expireHours.
                hret (if 0 < expireHours
                      then ''DATE_ADD(NOW(), INTERVAL '' @ int_to_string expireHours @ '' HOUR)''
                      else ''NULL'')))
      else hret ''NULL'')"

text \<open>Who else: a user, or an extract code; \<open>None\<close> when the user has the file already.\<close>

definition share_target :: "'d Env \<Rightarrow> json \<Rightarrow> int \<Rightarrow> bytes \<Rightarrow> ('d, (bytes \<times> bytes) option) hm" where
  "share_target env requestData fileId shareType =
     (if shareType = ''user'' \<and> env_has env requestData ''sharedWithId''
      then hbind (hlib (env_get_int env requestData ''sharedWithId'')) (\<lambda>w.
           hbind (executeQueryWithResult env (user_share_select fileId (int_to_string w))) (\<lambda>checkResult.
           case checkResult of
             Some (_ # _) \<Rightarrow> hret None
           | _ \<Rightarrow> hret (Some (int_to_string w, ''NULL''))))
      else if shareType = ''protected''
      then hbind (generateExtractCode env) (\<lambda>x. hret (Some (''NULL'', quoted x)))
      else hret (Some (''NULL'', ''NULL'')))"

text \<open>The member of the response that depends on the type; \<^verbatim>\<open>stoi\<close> of \<^verbatim>\<open>NULL\<close> throws.\<close>

definition share_extra :: "bytes \<Rightarrow> bytes \<Rightarrow> bytes \<Rightarrow> exn + (bytes \<times> json) list" where
  "share_extra shareType sharedWithId extractCode =
     (if shareType = ''user''
      then (case stoi sharedWithId of Inl e \<Rightarrow> Inl e | Inr w \<Rightarrow> Inr [(''sharedWithId'', JInt w)])
      else if shareType = ''protected''
      then Inr [(''extractCode'', JStr (chunk 1 (length extractCode - 2) extractCode))]
      else Inr [])"

definition create_share :: "'d Env \<Rightarrow> json \<Rightarrow> int \<Rightarrow> int \<Rightarrow> bytes \<Rightarrow> ('d, bool) hm" where
  "create_share env requestData userId fileId shareType =
     hbind (expire_expr env requestData) (\<lambda>expireStr.
     hbind (generateShareCode env) (\<lambda>shareCode.
     hbind (share_target env requestData fileId shareType) (\<lambda>target.
     case target of
       None \<Rightarrow> fail env msg_already_shared k400BadRequest
     | Some (sharedWithId, extractCode) \<Rightarrow>
         hbind (escapeString env shareType) (\<lambda>ty.
         hbind (escapeString env shareCode) (\<lambda>sc.
         hbind (executeQuery env (share_insert fileId userId sharedWithId ty sc extractCode expireStr)) (\<lambda>inserted.
         if \<not> inserted then fail env msg_share_create_failed k500InternalServerError
         else hbind (mysql_insert_id env) (\<lambda>shareId.
              hbind (hof (share_extra shareType sharedWithId extractCode)) (\<lambda>extra.
              send_json env (JObj ([(''code'', JInt 0), (''message'', JStr msg_share_ok),
                (''shareId'', JInt shareId), (''shareType'', JStr shareType), (''shareCode'', JStr shareCode),
                (''shareLink'', JStr (''/share/'' @ shareCode))] @ extra))))))))))"

definition handleShareFile :: "'d Env \<Rightarrow> ('d, bool) hm" where
  "handleShareFile env = with_session env (\<lambda>userId.
     hcatch
       (hbind (body_json env) (\<lambda>requestData.
        hbind (hlib (env_get_int env requestData ''fileId'')) (\<lambda>fileId.
        hbind (hlib (env_get_str env requestData ''shareType'')) (\<lambda>shareType.
        hbind (executeQueryWithResult env (owner_select fileId userId)) (\<lambda>fileResult.
        case fileResult of
          Some (_ # _) \<Rightarrow>
            if shareType = ''private''
            then hbind (executeQuery env (shares_delete fileId)) (\<lambda>_.
                 send_json env (JObj [(''code'', JInt 0), (''message'', JStr msg_made_private)]))
            else create_share env requestData userId fileId shareType
        | _ \<Rightarrow> fail env msg_cannot_share k403Forbidden)))))
       (\<lambda>what. fail env (msg_share_failed @ what) k500InternalServerError))"

section \<open>Access to a share\<close>

text \<open>\<^verbatim>\<open>regex_search\<close> for \<^verbatim>\<open>/share/([^/]+)\<close>.\<close>

fun find_share_code :: "bytes \<Rightarrow> bytes option" where
  "find_share_code [] = None"
| "find_share_code (c # cs) =
     (let m = takeWhile (\<lambda>x. x \<noteq> CHR ''/'') (drop 7 (c # cs))
      in if starts_with ''/share/'' (c # cs) \<and> m \<noteq> [] then Some m else find_share_code cs)"

definition share_code_char :: "char \<Rightarrow> bool" where
  "share_code_char c \<longleftrightarrow> isdigit c \<or> (code CHR ''a'' \<le> code c \<and> code c \<le> code CHR ''z'')"

definition share_columns :: bytes where
  "share_columns =
     ''SELECT fs.*, f.filename, f.original_filename, f.file_size, '' @
     ''f.file_type, u.username as owner_username, f.user_id '' @ ''FROM file_shares fs '' @
     ''JOIN files f ON fs.file_id = f.id '' @ ''JOIN users u ON f.user_id = u.id ''"

definition share_access_select :: "bytes \<Rightarrow> bytes \<Rightarrow> bytes" where
  "share_access_select shareCode extractCode =
     share_columns @ ''WHERE fs.share_code = '' @ quoted shareCode @ '' '' @
     ''AND (fs.expire_time IS NULL OR fs.expire_time > NOW()) '' @
     ''AND (fs.share_type != '' @ quoted ''protected'' @ '' OR (fs.share_type = '' @ quoted ''protected'' @ '' '' @
     ''AND fs.extract_code = '' @ quoted extractCode @ ''))''"

definition access_permission ::
  "bool \<Rightarrow> bytes \<Rightarrow> int option \<Rightarrow> int \<Rightarrow> bytes \<Rightarrow> bytes \<Rightarrow> bool" where
  "access_permission isOwner shareType user sharedWithId extractCode dbExtractCode \<longleftrightarrow>
     (if isOwner then True
      else if shareType = ''public'' then True
      else if shareType = ''protected'' then extractCode \<noteq> [] \<and> extractCode = dbExtractCode
      else if shareType = ''user'' then user = Some sharedWithId
      else False)"

text \<open>\<^verbatim>\<open>row[13] && stoi(row[13]) == userId\<close>, where the id is 0 without a session.\<close>

definition access_is_owner :: "db_row \<Rightarrow> int option \<Rightarrow> exn + bool" where
  "access_is_owner row user = (case cell row 13 of
       Inl e \<Rightarrow> Inl e
     | Inr None \<Rightarrow> Inr False
     | Inr (Some v) \<Rightarrow> (case stoi v of Inl e \<Rightarrow> Inl e
                         | Inr i \<Rightarrow> Inr (i = (case user of Some u \<Rightarrow> u | None \<Rightarrow> 0))))"

definition access_json :: "'d Env \<Rightarrow> db_row \<Rightarrow> bytes \<Rightarrow> bytes \<Rightarrow> bool \<Rightarrow> ('d, json) hm" where
  "access_json env row shareType shareCode isOwner =
     hbind (hof (int_cell env row 0)) (\<lambda>i.
     hbind (hof (int_cell env row 1)) (\<lambda>fileId.
     hbind (hof (int_cell env row 2)) (\<lambda>ownerId.
     hbind (hof (int_cell_or0 row 3)) (\<lambda>w.
     hbind (hof (cell_or row 6 [])) (\<lambda>createdAt.
     hbind (hof (cell_or row 7 [])) (\<lambda>expireTime.
     hbind (hof (cell_or row 8 [])) (\<lambda>filename.
     hbind (hof (cell_or row 9 [])) (\<lambda>originalName.
     hbind (hof (size_cell_or0 row 10)) (\<lambda>fileSize.
     hbind (hof (cell_or row 11 ''unknown'')) (\<lambda>fileType.
     hbind (hof (cell_or row 12 [])) (\<lambda>ownerUsername.
     hret (JObj
       [(''code'', JInt 0), (''message'', JStr ''success''),
        (''file'', JObj
          [(''id'', JInt i), (''fileId'', JInt fileId), (''ownerId'', JInt ownerId), (''sharedWithId'', JInt w),
           (''shareType'', JStr shareType), (''shareCode'', JStr shareCode), (''createdAt'', JStr createdAt),
           (''expireTime'', JStr expireTime), (''filename'', JStr filename), (''originalName'', JStr originalName),
           (''size'', JInt (int fileSize)), (''type'', JStr fileType), (''ownerUsername'', JStr ownerUsername),
           (''isOwner'', JBool isOwner)]),
        (''downloadUrl'', JStr (''/share/download/'' @ filename @ ''?code='' @ shareCode))]))))))))))))"

definition share_access_row :: "'d Env \<Rightarrow> int option \<Rightarrow> bytes \<Rightarrow> bytes \<Rightarrow> db_row \<Rightarrow> ('d, bool) hm" where
  "share_access_row env user shareCode extractCode row =
     hbind (hof (str_cell env row 4)) (\<lambda>shareType.
     hbind (hof (access_is_owner row user)) (\<lambda>isOwner.
     hbind (hof (int_cell_or0 row 3)) (\<lambda>sharedWithId.
     hbind (hof (cell_or row 5 [])) (\<lambda>dbExtractCode.
     if \<not> access_permission isOwner shareType user sharedWithId extractCode dbExtractCode
     then if shareType = ''protected'' \<and> (extractCode = [] \<or> extractCode \<noteq> dbExtractCode)
          then fail env msg_need_extract_code k403Forbidden
          else fail env msg_no_access k403Forbidden
     else hbind (access_json env row shareType shareCode isOwner) (\<lambda>response.
          hthen (upd_resp (\<lambda>r. setContentType ''application/json'' (setStatusMessage ''OK'' (setStatusCode k200Ok r))))
          (hbind (hlib (env_dump env response)) (\<lambda>body.
           hthen (upd_resp (setBody body))
           (hthen (upd_resp (addRespHeader ''Connection'' ''close''))
           (hthen shutdown_when_written (hret True))))))))))"

definition wants_json :: "HttpRequest \<Rightarrow> bool" where
  "wants_json req \<longleftrightarrow> getHeader req ''X-Requested-With'' = ''XMLHttpRequest'' \<or>
     str_find ''application/json'' (getHeader req ''Accept'') \<noteq> None"

definition share_access_json :: "'d Env \<Rightarrow> int option \<Rightarrow> bytes \<Rightarrow> ('d, bool) hm" where
  "share_access_json env user shareCode =
     (if shareCode = [] \<or> length shareCode \<noteq> 32 then fail env msg_bad_code_format k400BadRequest
      else if \<not> list_all share_code_char shareCode then fail env msg_bad_code_chars k400BadRequest
      else hbind (query_param env ''code'' []) (\<lambda>extractCode.
           hbind (escapeString env shareCode) (\<lambda>c.
           hbind (escapeString env extractCode) (\<lambda>x.
           hbind (executeQueryWithResult env (share_access_select c x)) (\<lambda>result.
           case result of
             Some (row # _) \<Rightarrow> share_access_row env user shareCode extractCode row
           | _ \<Rightarrow> fail env msg_share_gone k404NotFound)))))"

definition handleShareAccess :: "'d Env \<Rightarrow> ('d, bool) hm" where
  "handleShareAccess env =
     hbind (hget (\<lambda>s. find_share_code (rq_path (request_of s)))) (\<lambda>m.
     case m of
       None \<Rightarrow> fail env msg_bad_share_link k400BadRequest
     | Some shareCode \<Rightarrow>
         hbind (header ''X-Session-ID'') (\<lambda>sessionId.
         hbind (validateSession env sessionId) (\<lambda>session.
         hbind (hget (\<lambda>s. wants_json (request_of s))) (\<lambda>ajax.
         if ajax then share_access_json env (map_option fst session) shareCode
         else hbind (handleIndex env) (\<lambda>result.
              hthen (upd_resp (addRespHeader ''X-Share-Code'' shareCode)) (hret result))))))"

section \<open>Information on a share\<close>

definition share_info_select :: "bytes \<Rightarrow> bytes" where
  "share_info_select shareCode =
     share_columns @ ''WHERE fs.share_code = '' @ quoted shareCode @ '' '' @
     ''AND (fs.expire_time IS NULL OR fs.expire_time > NOW())''"

text \<open>The response reads two cells of the row after the result has been freed.\<close>

definition share_info_row :: "'d Env \<Rightarrow> bytes \<Rightarrow> db_row \<Rightarrow> ('d, bool) hm" where
  "share_info_row env extractCode row =
     hbind (hof (str_cell env row 4)) (\<lambda>shareType.
     hbind (hof (cell_or row 8 [])) (\<lambda>dbExtractCode.
     hbind (hof (cell_or row 9 [])) (\<lambda>serverFilename.
     hbind (hof (cell_or row 10 [])) (\<lambda>originalFilename.
     hbind (hof (size_cell_or0 row 11)) (\<lambda>fileSize.
     hbind (hof (cell_or row 7 [])) (\<lambda>createdAt.
     hbind (hof (cell_or row 6 [])) (\<lambda>expireTime.
     if shareType = ''protected'' \<and> (extractCode = [] \<or> extractCode \<noteq> dbExtractCode)
     then fail env msg_need_extract_code k403Forbidden
     else hbind (hof (int_cell env (env_freed env row) 0)) (\<lambda>i.
          hbind (hof (cell_or (env_freed env row) 11 ''unknown'')) (\<lambda>fileType.
          send_json env (JObj
            [(''code'', JInt 0), (''message'', JStr ''success''), (''shareType'', JStr shareType),
             (''file'', JObj
               [(''id'', JInt i), (''name'', JStr serverFilename), (''originalName'', JStr originalFilename),
                (''size'', JInt (int fileSize)), (''type'', JStr fileType), (''shareTime'', JStr createdAt),
                (''expireTime'', JStr expireTime)])]))))))))))"

definition handleShareInfo :: "'d Env \<Rightarrow> ('d, bool) hm" where
  "handleShareInfo env =
     hbind (path_param ''code'') (\<lambda>shareCode.
     if shareCode = [] then fail env ''Missing share code'' k400BadRequest
     else hbind (query_param env ''extract_code'' []) (\<lambda>extractCode.
          hbind (escapeString env shareCode) (\<lambda>c.
          hbind (executeQueryWithResult env (share_info_select c)) (\<lambda>result.
          case result of
            Some (row # _) \<Rightarrow> share_info_row env extractCode row
          | _ \<Rightarrow> fail env msg_share_gone k404NotFound))))"

section \<open>Only the owner deletes\<close>

lemma with_session_some:
  assumes "validateSession env (getHeader (request_of s) ''X-Session-ID'') s = (Inr (Some (u, n)), s1)"
  shows "with_session env k s = k u s1"
  using assms by (simp add: with_session_def header_def hbind_val)

lemma mapping_files:
  "p \<noteq> mappingFile \<Longrightarrow> ap_files (eraseFilenameMapping env f a) p = ap_files a p"
  "ap_issued (eraseFilenameMapping env f a) = ap_issued a" "ap_mysql (eraseFilenameMapping env f a) = ap_mysql a"
  by (auto simp: eraseFilenameMapping_def loadFilenameMapping_def saveFilenameMapping_def Let_def
      split: option.splits sum.splits)

lemma unlink_files:
  "p \<noteq> path \<Longrightarrow> ap_files (unlink env path a) p = ap_files a p" "ap_issued (unlink env path a) = ap_issued a"
  by (auto simp: unlink_def)

lemma fail_app: "fail env m st s = (Inr b, s') \<Longrightarrow> h_app s' = h_app s"
  by (auto simp: fail_def sendError_def result_iff hlib_def shutdown_when_written_def split: sum.splits)

lemma delete_file_Inr:
  assumes "delete_file env filename fileId s = (Inr b, s')" and "ap_mysql (h_app s)"
  shows "ap_issued (h_app s') = ap_issued (h_app s) @ [c_str (shares_delete fileId), c_str (file_delete fileId)]"
    and "p \<noteq> c_str (uploadDir @ ''/'' @ filename) \<Longrightarrow> p \<noteq> mappingFile \<Longrightarrow>
           ap_files (h_app s') p = ap_files (h_app s) p"
proof -
  from assms(1) obtain r1 s1 ok s2 where
    1: "executeQuery env (shares_delete fileId) s = (Inr r1, s1)"
    and 2: "executeQuery env (file_delete fileId) s1 = (Inr ok, s2)"
    and 3: "(if \<not> ok then fail env msg_delete_record_failed k500InternalServerError
             else hthen (upd_app (unlink env (c_str (uploadDir @ ''/'' @ filename))))
                  (hthen (upd_app (eraseFilenameMapping env filename))
                  (send_json env (JObj [(''code'', JInt 0), (''message'', JStr ''success'')])))) s2 = (Inr b, s')"
    by (auto simp: delete_file_def result_iff)
  note d1 = executeQuery_db_only [OF 1] and d2 = executeQuery_db_only [OF 2]
  have i: "ap_issued (h_app s2) = ap_issued (h_app s) @ [c_str (shares_delete fileId), c_str (file_delete fileId)]"
    using executeQuery_issued [OF 1] executeQuery_issued [OF 2] assms(2) db_only_fields [OF d1] by simp
  have f: "ap_files (h_app s2) = ap_files (h_app s)"
    using db_only_fields [OF d1] db_only_fields [OF d2] by simp
  let ?a = "eraseFilenameMapping env filename (unlink env (c_str (uploadDir @ ''/'' @ filename)) (h_app s2))"
  have a: "h_app s' = (if ok then ?a else h_app s2)"
    using 3 by (auto simp: fail_app dest: send_json_Inr(2) split: if_splits)
  show "ap_issued (h_app s') = ap_issued (h_app s) @ [c_str (shares_delete fileId), c_str (file_delete fileId)]"
    using i a by (simp add: mapping_files unlink_files)
  show "ap_files (h_app s') p = ap_files (h_app s) p"
    if "p \<noteq> c_str (uploadDir @ ''/'' @ filename)" "p \<noteq> mappingFile"
    using f a that by (simp add: mapping_files unlink_files)
qed

text \<open>
  C17 (safety). What a user with a valid session can delete: when the statement that asks for a file of
  that name owned by that very user has a row, the shares and the record with the id of that row are
  deleted, and no file on the disk but the one of that name (and the mapping) changes.  Otherwise
  the answer is 403, nothing on the disk or in the mapping changes and no statement but that
  select is sent.
\<close>

theorem handleDelete_only_owner:
  assumes session: "validateSession env (getHeader (request_of s) ''X-Session-ID'') s = (Inr (Some (u, n)), s1)"
    and name: "getPathParam (request_of s) ''filename'' = f" "f \<noteq> []"
    and run: "handleDelete env s = (Inr b, s')"
  defines "q \<equiv> owned_file_select (esc env s f) u"
  shows "if \<exists>row. answered env q row s1
         then \<exists>row fileId. answered env q row s1 \<and> int_cell env row 0 = Inr fileId \<and>
                ap_issued (h_app s') = ap_issued (h_app s1) @
                  [c_str q, c_str (shares_delete fileId), c_str (file_delete fileId)] \<and>
                (\<forall>p. p \<noteq> c_str (uploadDir @ ''/'' @ f) \<longrightarrow> p \<noteq> mappingFile \<longrightarrow>
                   ap_files (h_app s') p = ap_files (h_app s) p)
         else rs_statusCode (h_resp s') = k403Forbidden \<and> ap_files (h_app s') = ap_files (h_app s) \<and>
              ap_mapping (h_app s') = ap_mapping (h_app s) \<and> set (ap_issued (h_app s')) \<subseteq> insert (c_str q) (set (ap_issued (h_app s1)))"
proof -
  note d = validateSession_db_only [OF session]
  have e: "esc env s1 f = esc env s f" by (rule esc_db_only [OF d])
  from run obtain result s2 where 1: "executeQueryWithResult env q s1 = (Inr result, s2)"
    and 2: "(case result of
            Some (row # _) \<Rightarrow> hbind (hof (int_cell env row 0)) (\<lambda>fileId. delete_file env f fileId)
          | _ \<Rightarrow> fail env msg_cannot_delete k403Forbidden) s2 = (Inr b, s')"
    using name db_only_fields(8) [OF d]
    by (auto simp: handleDelete_def with_session_some [OF session] path_param_def result_iff escapeString_eq e q_def)
  note d2 = executeQueryWithResult_db_only [OF 1]
  note files = db_only_fields [OF d] db_only_fields [OF d2]
  show ?thesis
  proof (cases "\<exists>row. answered env q row s1")
    case True
    then have on: "ap_mysql (h_app s1)" by (auto simp: answered_def)
    from True 1 obtain row rows where res: "result = Some (row # rows)"
      by (auto simp: answered_def executeQueryWithResult_on)
    from 2 res obtain fileId where fid: "int_cell env row 0 = Inr fileId" "delete_file env f fileId s2 = (Inr b, s')"
      by (auto simp: result_iff)
    have on2: "ap_mysql (h_app s2)" using on files by simp
    have a: "answered env q row s1" using 1 unfolding res by (rule executeQueryWithResult_row)
    have "ap_issued (h_app s') = ap_issued (h_app s1) @ [c_str q, c_str (shares_delete fileId), c_str (file_delete fileId)]"
      using delete_file_Inr(1) [OF fid(2) on2] executeQueryWithResult_issued [OF 1] on by simp
    moreover have "\<forall>p. p \<noteq> c_str (uploadDir @ ''/'' @ f) \<longrightarrow> p \<noteq> mappingFile \<longrightarrow> ap_files (h_app s') p = ap_files (h_app s) p"
      using delete_file_Inr(2) [OF fid(2) on2] files by simp
    ultimately show ?thesis using True a fid(1) by auto
  next
    case False
    then have no: "\<not> (\<exists>row rows. result = Some (row # rows))"
      using 1 executeQueryWithResult_row by blast
    then have fl: "fail env msg_cannot_delete k403Forbidden s2 = (Inr b, s')"
      using 2 by (auto split: option.splits list.splits)
    have "ap_issued (h_app s2) = ap_issued (h_app s1) @ (if ap_mysql (h_app s1) then [c_str q] else [])"
      using executeQueryWithResult_issued [OF 1] .
    then show ?thesis
      using False fail_app [OF fl] fail_status [OF fl] files by auto
  qed
qed

text \<open>A database in which user 3 has a session and a file.\<close>

definition owner_query :: "nat \<Rightarrow> bytes \<Rightarrow> db_reply \<times> nat" where
  "owner_query db q =
     (if starts_with ''SELECT user_id'' q then (Db_ok (Some [[Some ''3'', Some ''ann'']]), db)
      else if starts_with ''SELECT id FROM files'' q then (Db_ok (Some [[Some ''8'']]), db)
      else if starts_with ''SELECT'' q then (Db_ok (Some []), db)
      else (Db_ok None, Suc db))"

lemma owner_query_simps:
  "owner_query db (c_str (session_select sid)) = (Db_ok (Some [[Some ''3'', Some ''ann'']]), db)"
  "owner_query db (c_str (session_extend sid)) = (Db_ok None, Suc db)"
  "owner_query db (c_str (owned_file_select f u)) = (Db_ok (Some [[Some ''8'']]), db)"
  "owner_query db (c_str (shares_delete i)) = (Db_ok None, Suc db)"
  "owner_query db (c_str (file_delete i)) = (Db_ok None, Suc db)"
  "owner_query db (c_str (owner_select i u)) = (Db_ok (Some []), db)"
  by (simp_all add: owner_query_def session_select_def session_extend_def owned_file_select_def shares_delete_def
      file_delete_def owner_select_def c_str_def NUL_def)

definition session_request :: HttpRequest where
  "session_request = mkHttpRequest\<lparr>rq_headers := map_put ''X-Session-ID'' ''s1'' [],
     rq_pathParams := [''filename'' \<mapsto> ''f'']\<rparr>"

lemma session_request_simps:
  "getHeader session_request ''X-Session-ID'' = ''s1''" "getPathParam session_request ''filename'' = ''f''"
  by code_simp+

lemma owner_row:
  "int_cell e [Some ''3'', Some ''ann''] 0 = Inr 3" "str_cell e [Some ''3'', Some ''ann''] 1 = Inr ''ann''"
  "int_cell e [Some ''8''] 0 = Inr 8"
  by code_simp+

lemma owner_session:
  "\<exists>s1. validateSession (simple_env owner_query) ''s1'' (simple_state 0 fs session_request) =
     (Inr (Some (3, ''ann'')), s1) \<and> ap_mysql (h_app s1)"
  by (simp add: validateSession_def hbind_def escapeString_eq executeQueryWithResult_def executeQuery_def
      run_query_def owner_query_simps owner_row [simplified] Let_def)

theorem handleDelete_only_owner_witness:
  "\<exists>s' fileId. handleDelete (simple_env owner_query) (simple_state 0 Map.empty session_request) = (Inr True, s') \<and>
     c_str (file_delete fileId) \<in> set (ap_issued (h_app s'))"
proof -
  let ?e = "simple_env owner_query" let ?s = "simple_state 0 Map.empty session_request"
  obtain s1 where v: "validateSession ?e ''s1'' ?s = (Inr (Some (3, ''ann'')), s1)" "ap_mysql (h_app s1)"
    using owner_session by blast
  have v': "validateSession ?e (getHeader (request_of ?s) ''X-Session-ID'') ?s = (Inr (Some (3, ''ann'')), s1)"
    using v by (simp add: session_request_simps)
  note d = validateSession_db_only [OF v(1)]
  have "\<exists>s'. handleDelete ?e ?s = (Inr True, s')"
    using v(2) db_only_fields [OF d]
    by (simp add: handleDelete_def with_session_some [OF v'] path_param_def hbind_def escapeString_eq
        session_request_simps executeQueryWithResult_def executeQuery_def run_query_def owner_query_simps
        owner_row Let_def delete_file_def unlink_def send_json_def hlib_def shutdown_when_written_def
        mapping_files)
  then obtain s' where r: "handleDelete ?e ?s = (Inr True, s')" by blast
  have a: "answered ?e (owned_file_select q u) [Some ''8''] s1" for q u
    using v(2) by (simp add: answered_def owner_query_simps)
  have "getPathParam (request_of ?s) ''filename'' = ''f''" "''f'' \<noteq> []" by (simp_all add: session_request_simps)
  from handleDelete_only_owner [OF v' this r] a r show ?thesis by (auto split: if_splits)
qed

section \<open>Only the owner shares\<close>

text \<open>
  A user who does not own the file cannot share it or end its shares: when the statement
  that asks for the file under that user's id has no row, the answer is an error, and no statement
  but that select is sent.
\<close>

theorem handleShareFile_only_owner:
  assumes session: "validateSession env (getHeader (request_of s) ''X-Session-ID'') s = (Inr (Some (u, n)), s1)"
    and body: "env_parse env (rq_body (request_of s)) = Inr j" "env_get_int env j ''fileId'' = Inr fileId"
      "env_get_str env j ''shareType'' = Inr ty"
    and other: "\<nexists>row. answered env (owner_select fileId u) row s1"
    and run: "handleShareFile env s = (Inr b, s')"
  shows "rs_statusCode (h_resp s') \<in> {k403Forbidden, k500InternalServerError} \<and>
         set (ap_issued (h_app s')) \<subseteq> insert (c_str (owner_select fileId u)) (set (ap_issued (h_app s1)))"
proof -
  note d = validateSession_db_only [OF session]
  obtain result s2 where 1: "executeQueryWithResult env (owner_select fileId u) s1 = (Inr result, s2)"
    by (cases "run_query env (owner_select fileId u) (h_app s1)") (simp add: executeQueryWithResult_def)
  have no: "\<not> (\<exists>row rows. result = Some (row # rows))"
    using 1 other executeQueryWithResult_row by blast
  let ?c = "\<lambda>what. fail env (msg_share_failed @ what) k500InternalServerError"
  have "handleShareFile env s = hcatch (\<lambda>_. fail env msg_cannot_share k403Forbidden s2) ?c s1"
    using no body db_only_fields(8) [OF d] 1
    by (auto simp: handleShareFile_def with_session_some [OF session] hcatch_def body_json_def hbind_def hlib_def
        split: option.splits list.splits)
  with run consider "fail env msg_cannot_share k403Forbidden s2 = (Inr b, s')"
    | w s3 where "fail env msg_cannot_share k403Forbidden s2 = (Inl (Exception w), s3)" "?c w s3 = (Inr b, s')"
    by (auto simp: result_iff)
  then show ?thesis
  proof cases
    case 1
    then show ?thesis
      using fail_status [OF 1] fail_app [OF 1] executeQueryWithResult_issued [OF \<open>executeQueryWithResult _ _ _ = _\<close>]
      by auto
  next
    case (2 w s3)
    have "h_app s3 = h_app s2"
      using 2(1) by (auto simp: fail_def sendError_def hbind_def hlib_def shutdown_when_written_def split: sum.splits)
    then show ?thesis
      using fail_status [OF 2(2)] fail_app [OF 2(2)] executeQueryWithResult_issued [OF 1] by auto
  qed
qed

theorem handleShareFile_only_owner_witness:
  "\<exists>s'. handleShareFile (simple_env owner_query) (simple_state 0 Map.empty session_request) = (Inr True, s') \<and>
     rs_statusCode (h_resp s') \<in> {k403Forbidden, k500InternalServerError}"
proof -
  let ?e = "simple_env owner_query" let ?s = "simple_state 0 Map.empty session_request"
  obtain s1 where v: "validateSession ?e ''s1'' ?s = (Inr (Some (3, ''ann'')), s1)" "ap_mysql (h_app s1)"
    using owner_session by blast
  have v': "validateSession ?e (getHeader (request_of ?s) ''X-Session-ID'') ?s = (Inr (Some (3, ''ann'')), s1)"
    using v by (simp add: session_request_simps)
  have no: "\<nexists>row. answered ?e (owner_select 1 3) row s1"
    by (simp add: answered_def owner_query_simps)
  have "\<exists>s'. handleShareFile ?e ?s = (Inr True, s')"
    using v(2)
    by (simp add: handleShareFile_def with_session_some [OF v'] body_json_def hbind_def hlib_def hcatch_def
        executeQueryWithResult_def run_query_def owner_query_simps Let_def fail_def sendError_def
        shutdown_when_written_def)
  then obtain s' where r: "handleShareFile ?e ?s = (Inr True, s')" by blast
  have "env_parse ?e (rq_body (request_of ?s)) = Inr JNull" "env_get_int ?e JNull ''fileId'' = Inr 1"
    "env_get_str ?e JNull ''shareType'' = Inr ''shareType''" by simp_all
  from handleShareFile_only_owner [OF v' this no r] r show ?thesis by blast
qed

section \<open>Share links\<close>

lemma lower_alphabet_ok: "c \<in> set lower_alphabet \<Longrightarrow> share_code_char c \<and> c \<noteq> CHR ''/''"
proof -
  have "list_all (\<lambda>c. share_code_char c \<and> c \<noteq> CHR ''/'') lower_alphabet"
    by code_simp
  then show "c \<in> set lower_alphabet \<Longrightarrow> share_code_char c \<and> c \<noteq> CHR ''/''" by (auto simp: list_all_iff)
qed

text \<open>
  The share code that is generated for a link passes every check of the handler that
  serves the link: the code is found in the path \<^verbatim>\<open>/share/<code>\<close> of the response, and a request for it
  is answered from the database, never with an error about the link or the code's format.
\<close>

theorem share_link_roundtrip:
  "\<exists>shareCode s1. generateShareCode env s = (Inr shareCode, s1) \<and>
     find_share_code (''/share/'' @ shareCode) = Some shareCode \<and>
     (\<forall>user s2. share_access_json env user shareCode s2 =
        hbind (executeQueryWithResult env (share_access_select (esc env s2 shareCode)
                (esc env s2 (getQuery (env_junk env) (request_of s2) ''code'' []))))
          (\<lambda>result. case result of
             Some (row # _) \<Rightarrow> share_access_row env user shareCode
               (getQuery (env_junk env) (request_of s2) ''code'' []) row
           | _ \<Rightarrow> fail env msg_share_gone k404NotFound) s2)"
proof -
  define c where "c = drawn env lower_alphabet (ap_ticks (h_app s)) 32"
  have c: "length c = 32" "set c \<subseteq> set lower_alphabet"
    using drawn_chars [OF alphabets(1), of env "ap_ticks (h_app s)" 32] by (simp_all add: c_def)
  then have ok: "list_all share_code_char c" "\<And>x. x \<in> set c \<Longrightarrow> x \<noteq> CHR ''/''" "c \<noteq> []"
    using lower_alphabet_ok by (auto simp: list_all_iff)
  have t: "takeWhile (\<lambda>x. x \<noteq> CHR ''/'') c = c" using ok(2) by (simp add: takeWhile_eq_all_conv)
  have "find_share_code (''/share/'' @ c) = Some c" using ok(3) by (simp add: Let_def t)
  moreover have "\<exists>s1. generateShareCode env s = (Inr c, s1)"
    by (simp add: generateShareCode_def draw_chars_eq c_def)
  ultimately show ?thesis
    using c(1) ok by (auto simp: share_access_json_def query_param_def escapeString_eq hbind_val)
qed

text \<open>
  C38 (error). The columns the share page reads are not those of the schema: column 13 of the statement
  is the owner's name, which \<^verbatim>\<open>handleShareAccess\<close> reads as the owner's id.  Every request for the
  information on an existing share of an owner whose name is not a number throws.
\<close>

theorem share_access_throws_on_schema_row:
  assumes "find_share_code (rq_path (request_of s)) = Some shareCode" and "wants_json (request_of s)"
    and "length shareCode = 32" and "list_all share_code_char shareCode"
    and session: "validateSession env (getHeader (request_of s) ''X-Session-ID'') s = (Inr session, s1)"
    and row: "answered env (share_access_select (esc env s shareCode)
               (esc env s (getQuery (env_junk env) (request_of s) ''code'' []))) row s1"
    and columns: "length row = 15" "row ! 4 = Some ty" "row ! 13 = Some owner_username"
    and name: "stoi (c_str owner_username) = Inl (Exception ''stoi'')"
  shows "\<exists>s'. handleShareAccess env s = (Inl (Exception ''stoi''), s')"
proof -
  note d = validateSession_db_only [OF session]
  have e: "esc env s1 = esc env s" by (rule ext) (rule esc_db_only [OF d])
  let ?x = "getQuery (env_junk env) (request_of s) ''code'' []"
  obtain rows s2 where q: "executeQueryWithResult env (share_access_select (esc env s shareCode) (esc env s ?x)) s1 =
      (Inr (Some (row # rows)), s2)"
    using row by (auto simp: answered_def executeQueryWithResult_on)
  have "share_access_row env user shareCode ?x row s2 = (Inl (Exception ''stoi''), s2)" for user
    using columns name by (simp add: share_access_row_def access_is_owner_def cell_def str_cell_def hbind_def)
  then show ?thesis
    using assms(1-4) session q db_only_fields(8) [OF d]
    by (auto simp: handleShareAccess_def header_def hbind_def share_access_json_def query_param_def
        escapeString_eq e)
qed

text \<open>A row as the schema has it, for a share of the user \<^verbatim>\<open>ann\<close>.\<close>

definition schema_row :: db_row where
  "schema_row = [Some ''1'', Some ''8'', Some ''3'', None, Some ''public'',
     Some (replicate 32 CHR ''a''), None, Some ''2024-01-01'', None, Some ''f'', Some ''a.txt'', Some ''4'',
     Some ''text'', Some ''ann'', Some ''3'']"

definition schema_query :: "nat \<Rightarrow> bytes \<Rightarrow> db_reply \<times> nat" where
  "schema_query db q = (if starts_with ''SELECT fs.*'' q then (Db_ok (Some [schema_row]), db) else (Db_error, db))"

definition share_request :: HttpRequest where
  "share_request = mkHttpRequest\<lparr>rq_path := ''/share/'' @ replicate 32 CHR ''a'',
     rq_headers := map_put ''Accept'' ''application/json'' []\<rparr>"

theorem share_access_throws_on_schema_row_witness:
  "\<exists>s'. handleShareAccess (simple_env schema_query) (simple_state 0 Map.empty share_request) =
     (Inl (Exception ''stoi''), s')"
proof -
  let ?e = "simple_env schema_query" let ?s = "simple_state 0 Map.empty share_request"
  let ?c = "replicate 32 CHR ''a''"
  have r: "find_share_code (rq_path share_request) = Some ?c" "wants_json share_request"
    "getHeader share_request ''X-Session-ID'' = []"
    by code_simp+
  have c: "length ?c = 32" "list_all share_code_char ?c" by code_simp+
  have v: "validateSession ?e [] ?s = (Inr None, ?s)" by (simp add: validateSession_def)
  have q: "answered ?e (share_access_select x y) schema_row ?s" for x y
    by (simp add: answered_def schema_query_def share_access_select_def share_columns_def c_str_def NUL_def)
  have row: "length schema_row = 15" "schema_row ! 4 = Some ''public''" "schema_row ! 13 = Some ''ann''"
    by code_simp+
  have n: "stoi (c_str ''ann'') = Inl (Exception ''stoi'')" by code_simp
  show ?thesis
    by (rule share_access_throws_on_schema_row [where s = ?s and ?s1.0 = ?s and session = None and shareCode = ?c
          and row = schema_row and ty = "''public''" and owner_username = "''ann''"])
      (simp_all add: r c v q row n)
qed

section \<open>Searching users\<close>

lemma app_urlDecode_encode: "app_urlDecode_loop ii (url_encode s) = s"
proof (induction s arbitrary: ii)
  case (Cons c s)
  show ?case
  proof (cases "unreserved c")
    case True
    then show ?thesis using unreserved_plain [OF True] Cons by (simp add: url_encode_def encode_char_def)
  next
    case False
    have h: "code c div 16 < 16" "code c mod 16 < 16" using code_lt [of c] by auto
    have "16 * (code c div 16) + code c mod 16 = code c" by simp
    then show ?thesis
      using False Cons sscanf_x_hex [OF h] by (simp add: url_encode_def encode_char_def numeral_2_eq_2)
  qed
qed (simp add: url_encode_def)

text \<open>
  Any keyword a client percent-encodes into the query string is the keyword the user
  search looks for, whatever bytes it has.
\<close>

theorem search_keyword_roundtrip:
  "search_keyword env (''?keyword='' @ url_encode keyword) = keyword"
  by (simp add: search_keyword_def app_urlDecode_def app_urlDecode_encode)

end
