(* ===== verification/App_Routes.thy ===== *)
theory App_Routes
  imports App_Upload App_Download App_Sharing
begin

text \<open>
  The routes of \<^verbatim>\<open>HttpUploadHandler\<close> (\<^verbatim>\<open>app/HttpUploader.hpp\<close>): \<^verbatim>\<open>RoutePattern\<close>, \<^verbatim>\<open>escapeRegex\<close>,
  \<^verbatim>\<open>addRoute\<close>, \<^verbatim>\<open>initRoutes\<close>, the dispatch of \<^verbatim>\<open>onRequest\<close>, \<^verbatim>\<open>onConnection\<close>, constructor and destructor.
  Of \<^verbatim>\<open>std::regex\<close> the fragment the routes use is modelled: literals, escapes, anchors, and the group
  \<^verbatim>\<open>([^c]+)\<close>.  Lemmas: which requests a route matches, where requests are sent, and that no handler
  that needs a session does anything without one.
\<close>

section \<open>Patterns\<close>

datatype re_item = Re_bol | Re_eol | Re_char char | Re_group char

definition regex_special :: bytes where
  "regex_special = ''.+*?^$()[]{}|'' @ [CHR 0x5C]"

text \<open>The compiler of \<^verbatim>\<open>std::regex\<close> on the fragment; \<open>None\<close> outside of it.\<close>

fun compile_regex :: "bytes \<Rightarrow> re_item list option" where
  "compile_regex [] = Some []"
| "compile_regex (c # cs) =
     (if c = CHR ''^'' then map_option (Cons Re_bol) (compile_regex cs)
      else if c = CHR ''$'' then map_option (Cons Re_eol) (compile_regex cs)
      else if c = CHR 0x5C
      then (case cs of
              [] \<Rightarrow> None
            | d # ds \<Rightarrow> if d \<in> set regex_special then map_option (Cons (Re_char d)) (compile_regex ds) else None)
      else if starts_with ''([^'' (c # cs)
      then (if starts_with '']+)'' (drop 4 (c # cs)) \<and> (c # cs) ! 3 \<notin> set regex_special
            then map_option (Cons (Re_group ((c # cs) ! 3))) (compile_regex (drop 7 (c # cs)))
            else None)
      else if c \<in> set regex_special then None
      else map_option (Cons (Re_char c)) (compile_regex cs))"

text \<open>The first success of a list of attempts.\<close>

fun first_some :: "'a option list \<Rightarrow> 'a option" where
  "first_some [] = None"
| "first_some (x # xs) = (case x of Some v \<Rightarrow> Some v | None \<Rightarrow> first_some xs)"

text \<open>
  \<^verbatim>\<open>regex_match\<close>: the items against the whole rest of the string; the groups it captured.  The
  greedy group tries the longest run first.
\<close>

primrec re_match :: "re_item list \<Rightarrow> bool \<Rightarrow> bytes \<Rightarrow> bytes list option" where
  "re_match [] atStart s = (if s = [] then Some [] else None)"
| "re_match (i # is) atStart s =
     (case i of
        Re_bol \<Rightarrow> if atStart then re_match is atStart s else None
      | Re_eol \<Rightarrow> if s = [] then re_match is atStart s else None
      | Re_char c \<Rightarrow> (case s of d # ds \<Rightarrow> if d = c then re_match is False ds else None | [] \<Rightarrow> None)
      | Re_group c \<Rightarrow>
          first_some (map (\<lambda>k. map_option (Cons (take k s)) (re_match is False (drop k s)))
            (rev [1..<Suc (length (takeWhile (\<lambda>x. x \<noteq> c) s))])))"

definition regex_match :: "re_item list \<Rightarrow> bytes \<Rightarrow> bytes list option" where
  "regex_match items s = re_match items True s"

definition escapeRegex :: "bytes \<Rightarrow> bytes" where
  "escapeRegex str = concat (map (\<lambda>c. if c \<in> set regex_special then [CHR 0x5C, c] else [c]) str)"

section \<open>Routes\<close>

datatype RequestHandler =
    H_handleFavicon | H_handleRegister | H_handleLogin | H_handleIndex | H_handleShareAccess
  | H_handleShareDownload | H_handleShareInfo | H_handleFileUpload | H_handleListFiles | H_handleDownload
  | H_handleDelete | H_handleShareFile | H_handleSearchUsers | H_handleLogout

record RoutePattern =
  rp_pattern :: "re_item list"
  rp_params :: "bytes list"
  rp_handler :: RequestHandler
  rp_method :: Method

text \<open>The constructor of the regular expression throws where the pattern is none.\<close>

definition addPattern :: "bytes \<Rightarrow> Method \<Rightarrow> RequestHandler \<Rightarrow> bytes list \<Rightarrow> RoutePattern list \<Rightarrow> RoutePattern list option" where
  "addPattern pattern meth handler paramNames routes =
     map_option (\<lambda>re. routes @ [\<lparr>rp_pattern = re, rp_params = paramNames, rp_handler = handler, rp_method = meth\<rparr>])
       (compile_regex pattern)"

definition addRoute :: "bytes \<Rightarrow> Method \<Rightarrow> RequestHandler \<Rightarrow> RoutePattern list \<Rightarrow> RoutePattern list option" where
  "addRoute path meth handler routes = addPattern (''^'' @ escapeRegex path @ ''$'') meth handler [] routes"

definition initRoutes :: "RoutePattern list option" where
  "initRoutes =
     Option.bind (addRoute ''/favicon.ico'' kGet H_handleFavicon []) (\<lambda>r.
     Option.bind (addRoute ''/register'' kPost H_handleRegister r) (\<lambda>r.
     Option.bind (addRoute ''/login'' kPost H_handleLogin r) (\<lambda>r.
     Option.bind (addRoute ''/'' kGet H_handleIndex r) (\<lambda>r.
     Option.bind (addRoute ''/index.html'' kGet H_handleIndex r) (\<lambda>r.
     Option.bind (addRoute ''/register.html'' kGet H_handleIndex r) (\<lambda>r.
     Option.bind (addPattern ''/share/([^/]+)'' kGet H_handleShareAccess [''code''] r) (\<lambda>r.
     Option.bind (addPattern ''/share/download/([^/]+)'' kGet H_handleShareDownload [''filename''] r) (\<lambda>r.
     Option.bind (addPattern ''/share/info/([^/]+)'' kGet H_handleShareInfo [''code''] r) (\<lambda>r.
     Option.bind (addRoute ''/upload'' kPost H_handleFileUpload r) (\<lambda>r.
     Option.bind (addRoute ''/files'' kGet H_handleListFiles r) (\<lambda>r.
     Option.bind (addPattern ''/download/([^/]+)'' kHead H_handleDownload [''filename''] r) (\<lambda>r.
     Option.bind (addPattern ''/download/([^/]+)'' kGet H_handleDownload [''filename''] r) (\<lambda>r.
     Option.bind (addPattern ''/delete/([^/]+)'' kDelete H_handleDelete [''filename''] r) (\<lambda>r.
     Option.bind (addRoute ''/share'' kPost H_handleShareFile r) (\<lambda>r.
     Option.bind (addRoute ''/users/search'' kGet H_handleSearchUsers r) (\<lambda>r.
     addRoute ''/logout'' kPost H_handleLogout r))))))))))))))))"

definition run_handler :: "'d Env \<Rightarrow> RequestHandler \<Rightarrow> ('d, bool) hm" where
  "run_handler env h = (case h of
       H_handleFavicon \<Rightarrow> handleFavicon env
     | H_handleRegister \<Rightarrow> handleRegister env
     | H_handleLogin \<Rightarrow> handleLogin env
     | H_handleIndex \<Rightarrow> handleIndex env
     | H_handleShareAccess \<Rightarrow> handleShareAccess env
     | H_handleShareDownload \<Rightarrow> handleShareDownload env
     | H_handleShareInfo \<Rightarrow> handleShareInfo env
     | H_handleFileUpload \<Rightarrow> handleFileUpload env
     | H_handleListFiles \<Rightarrow> handleListFiles env
     | H_handleDownload \<Rightarrow> handleDownload env
     | H_handleDelete \<Rightarrow> handleDelete env
     | H_handleShareFile \<Rightarrow> handleShareFile env
     | H_handleSearchUsers \<Rightarrow> handleSearchUsers env
     | H_handleLogout \<Rightarrow> handleLogout env)"

fun find_route :: "RoutePattern list \<Rightarrow> Method \<Rightarrow> bytes \<Rightarrow> (RequestHandler \<times> (bytes \<rightharpoonup> bytes)) option" where
  "find_route [] meth path = None"
| "find_route (route # routes) meth path =
     (if rp_method route \<noteq> meth then find_route routes meth path
      else case regex_match (rp_pattern route) path of
             Some groups \<Rightarrow> Some (rp_handler route, map_of (rev (zip (rp_params route) groups)))
           | None \<Rightarrow> find_route routes meth path)"

text \<open>\<^verbatim>\<open>req.setPathParams\<close> on the request, which is the one in the connection's context.\<close>

definition set_path_params :: "(bytes \<rightharpoonup> bytes) \<Rightarrow> ('d, unit) hm" where
  "set_path_params params = upd_conn (\<lambda>c. c\<lparr>tc_context :=
     map_option (\<lambda>ctx. ctx\<lparr>hc_request := setPathParams (hc_request ctx) params\<rparr>) (tc_context c)\<rparr>)"

definition app_dispatch :: "RoutePattern list \<Rightarrow> 'd Env \<Rightarrow> ('d, bool) hm" where
  "app_dispatch routes env =
     hbind (hget request_of) (\<lambda>req.
     case find_route routes (rq_method req) (rq_path req) of
       Some (handler, params) \<Rightarrow> hthen (set_path_params params) (run_handler env handler)
     | None \<Rightarrow> handleNotFound env)"

definition app_onRequest :: "RoutePattern list \<Rightarrow> 'd Env \<Rightarrow> ('d, bool) hm" where
  "app_onRequest routes env =
     hcatch (app_dispatch routes env)
       (\<lambda>_. hthen (sendError env ''Internal Server Error'' k500InternalServerError) (hret True))"

text \<open>The callback \<^verbatim>\<open>main\<close> gives to the server; an exception that leaves it ends the process.\<close>

definition app_callback :: "RoutePattern list \<Rightarrow> 'd Env \<Rightarrow> ('d App, app_context, write_cb) HttpCallback" where
  "app_callback routes env a conn resp =
     (case app_onRequest routes env \<lparr>h_app = a, h_conn = conn, h_resp = resp\<rparr> of
        (Inr b, s') \<Rightarrow> Some (Inr (b, h_app s', h_conn s', h_resp s'))
      | (Inl (Exception _), _) \<Rightarrow> Some (Inl Assertion_Failed)
      | (Inl Crash, _) \<Rightarrow> Some (Inl Out_Of_Bounds))"

definition app_onConnection :: "Conn \<Rightarrow> Conn" where
  "app_onConnection conn =
     (if connected conn then conn\<lparr>tc_context := Some mkHttpContext\<rparr> else conn\<lparr>tc_context := None\<rparr>)"

text \<open>Constructor and destructor, without the thread pool: what they do to the state of the application.\<close>

definition mkHttpUploadHandler ::
  "'d Env \<Rightarrow> bool \<Rightarrow> bool \<Rightarrow> bool \<Rightarrow> 'd \<Rightarrow> files \<Rightarrow> 'd App \<times> RoutePattern list option" where
  "mkHttpUploadHandler env init_ok connect_ok charset_ok db fs =
     (let a0 = \<lparr>ap_db = db, ap_mysql = False, ap_files = fs, ap_mapping = [], ap_downs = [], ap_ticks = 0,
                ap_issued = []\<rparr>;
          (_, a1) = initDatabase init_ok connect_ok charset_ok a0
      in (loadFilenameMapping env a1, initRoutes))"

definition destroyHttpUploadHandler :: "'d Env \<Rightarrow> 'd App \<Rightarrow> 'd App" where
  "destroyHttpUploadHandler env a = closeDatabase (saveFilenameMapping env a)"

section \<open>What a route matches\<close>

lemma compile_plain:
  assumes "c \<notin> set regex_special"
  shows "compile_regex (c # cs) = map_option (Cons (Re_char c)) (compile_regex cs)"
proof -
  have "c \<noteq> CHR ''^''" "c \<noteq> CHR ''$''" "c \<noteq> CHR 0x5C" "CHR ''('' \<noteq> c"
    using assms by (auto simp: regex_special_def)
  then show ?thesis using assms by simp
qed

lemma compile_escaped:
  "c \<in> set regex_special \<Longrightarrow> compile_regex (CHR 0x5C # c # cs) = map_option (Cons (Re_char c)) (compile_regex cs)"
  by simp

lemma compile_escapeRegex:
  "compile_regex (escapeRegex p @ r) = map_option (append (map Re_char p)) (compile_regex r)"
proof (induction p)
  case (Cons c p)
  have "compile_regex (escapeRegex (c # p) @ r) = map_option (Cons (Re_char c)) (compile_regex (escapeRegex p @ r))"
    by (cases "c \<in> set regex_special")
      (simp_all add: escapeRegex_def compile_plain compile_escaped del: compile_regex.simps)
  then show ?case using Cons by (simp add: option.map_comp comp_def)
qed (simp add: escapeRegex_def option.map_ident)

lemma compile_literal:
  "set p \<inter> set regex_special = {} \<Longrightarrow>
     compile_regex (p @ r) = map_option (append (map Re_char p)) (compile_regex r)"
  by (induction p; cases "compile_regex r") (simp_all add: compile_plain del: compile_regex.simps(2))

lemma re_match_chars:
  "re_match (map Re_char p @ is) st s =
     (if starts_with p s then re_match is (st \<and> p = []) (drop (length p) s) else None)"
proof (induction p arbitrary: s st)
  case (Cons c p)
  then show ?case by (cases s) auto
qed simp

lemma exact_route: "regex_match (Re_bol # map Re_char p @ [Re_eol]) s = (if s = p then Some [] else None)"
  by (auto simp: regex_match_def re_match_chars starts_with_iff)

text \<open>
  The pattern that \<^verbatim>\<open>addRoute\<close> builds for a path, with whatever special characters the
  path has, is a valid pattern, and matches that path and nothing else.
\<close>

theorem addRoute_matches_only_the_path:
  "\<exists>route. addRoute path meth handler routes = Some (routes @ [route]) \<and>
     rp_handler route = handler \<and> rp_method route = meth \<and>
     (\<forall>s. regex_match (rp_pattern route) s = (if s = path then Some [] else None))"
proof -
  have "compile_regex (''^'' @ escapeRegex path @ ''$'') = Some (Re_bol # map Re_char path @ [Re_eol])"
    by (simp add: compile_escapeRegex del: compile_regex.simps(2)) (simp add: compile_escapeRegex)
  then show ?thesis by (auto simp: addRoute_def addPattern_def exact_route)
qed

lemma first_some_None: "\<forall>x \<in> set xs. x = None \<Longrightarrow> first_some xs = None"
  by (induction xs) auto

definition param_match :: "bytes \<Rightarrow> char \<Rightarrow> bytes \<Rightarrow> bool" where
  "param_match p c s \<longleftrightarrow> (\<exists>x. s = p @ x \<and> x \<noteq> [] \<and> c \<notin> set x)"

lemma group_match:
  "re_match [Re_group c] st t = (if t \<noteq> [] \<and> c \<notin> set t then Some [t] else None)"
proof -
  let ?n = "length (takeWhile (\<lambda>x. x \<noteq> c) t)"
  have le: "?n \<le> length t" by (rule length_takeWhile_le)
  show ?thesis
  proof (cases "t \<noteq> [] \<and> c \<notin> set t")
    case True
    then have t: "takeWhile (\<lambda>x. x \<noteq> c) t = t" by (auto simp: takeWhile_eq_all_conv)
    have "1 \<le> length t" using True by (simp add: Suc_le_eq)
    with True show ?thesis by (simp add: t)
  next
    case False
    have "?n < length t \<or> t = []"
      using False le takeWhile_eq_all_conv [of "\<lambda>x. x \<noteq> c" t] takeWhile_eq_take [of "\<lambda>x. x \<noteq> c" t]
      by (metis (mono_tags, lifting) le_neq_implies_less take_all order_refl)
    then have "\<forall>x \<in> set (map (\<lambda>k. map_option (Cons (take k t)) (re_match [] False (drop k t)))
        (rev [1..<Suc ?n])). x = None"
      by auto
    from first_some_None [OF this] False show ?thesis by simp
  qed
qed

lemma param_route:
  "regex_match (map Re_char p @ [Re_group c]) s = (if param_match p c s then Some [drop (length p) s] else None)"
proof -
  have "regex_match (map Re_char p @ [Re_group c]) s =
      (if starts_with p s then if drop (length p) s \<noteq> [] \<and> c \<notin> set (drop (length p) s)
         then Some [drop (length p) s] else None else None)"
    by (simp add: regex_match_def re_match_chars group_match del: re_match.simps)
  then show ?thesis by (auto simp: param_match_def starts_with_iff)
qed

section \<open>The route table\<close>

datatype route_entry = Exact bytes | Param bytes bytes

definition entry_matches :: "route_entry \<Rightarrow> bytes \<Rightarrow> (bytes \<rightharpoonup> bytes) \<Rightarrow> bool" where
  "entry_matches e path params = (case e of
       Exact p \<Rightarrow> path = p \<and> params = Map.empty
     | Param p name \<Rightarrow> \<exists>x. path = p @ x \<and> x \<noteq> [] \<and> CHR ''/'' \<notin> set x \<and> params = [name \<mapsto> x])"

definition entry_route :: "Method \<times> route_entry \<times> RequestHandler \<Rightarrow> RoutePattern" where
  "entry_route = (\<lambda>(m, e, h). case e of
       Exact p \<Rightarrow> \<lparr>rp_pattern = Re_bol # map Re_char p @ [Re_eol], rp_params = [], rp_handler = h, rp_method = m\<rparr>
     | Param p name \<Rightarrow> \<lparr>rp_pattern = map Re_char p @ [Re_group CHR ''/''], rp_params = [name], rp_handler = h,
                         rp_method = m\<rparr>)"

definition route_table :: "(Method \<times> route_entry \<times> RequestHandler) list" where
  "route_table =
     [(kGet, Exact ''/favicon.ico'', H_handleFavicon), (kPost, Exact ''/register'', H_handleRegister),
      (kPost, Exact ''/login'', H_handleLogin), (kGet, Exact ''/'', H_handleIndex),
      (kGet, Exact ''/index.html'', H_handleIndex), (kGet, Exact ''/register.html'', H_handleIndex),
      (kGet, Param ''/share/'' ''code'', H_handleShareAccess),
      (kGet, Param ''/share/download/'' ''filename'', H_handleShareDownload),
      (kGet, Param ''/share/info/'' ''code'', H_handleShareInfo), (kPost, Exact ''/upload'', H_handleFileUpload),
      (kGet, Exact ''/files'', H_handleListFiles), (kHead, Param ''/download/'' ''filename'', H_handleDownload),
      (kGet, Param ''/download/'' ''filename'', H_handleDownload),
      (kDelete, Param ''/delete/'' ''filename'', H_handleDelete), (kPost, Exact ''/share'', H_handleShareFile),
      (kGet, Exact ''/users/search'', H_handleSearchUsers), (kPost, Exact ''/logout'', H_handleLogout)]"

lemma addRoute_entry: "addRoute p m h rs = Some (rs @ [entry_route (m, Exact p, h)])"
  by (simp add: addRoute_def addPattern_def entry_route_def compile_escapeRegex del: compile_regex.simps(2))
    (simp add: compile_escapeRegex)

lemma addPattern_entry:
  assumes "set p \<inter> set regex_special = {}" and "pat = p @ ''([^/]+)''"
  shows "addPattern pat m h [name] rs = Some (rs @ [entry_route (m, Param p name, h)])"
proof -
  have "compile_regex ''([^/]+)'' = Some [Re_group CHR ''/'']" by code_simp
  then show ?thesis
    by (simp add: addPattern_def entry_route_def compile_literal [OF assms(1)] assms(2) del: compile_regex.simps)
qed

lemma initRoutes_table: "initRoutes = Some (map entry_route route_table)"
  by (simp add: initRoutes_def addRoute_entry route_table_def
      addPattern_entry [of "''/share/''"] addPattern_entry [of "''/share/download/''"]
      addPattern_entry [of "''/share/info/''"] addPattern_entry [of "''/download/''"]
      addPattern_entry [of "''/delete/''"] regex_special_def)

lemma find_route_hit:
  "entry_matches e p ps \<Longrightarrow> find_route (entry_route (m, e, h) # rs) m p = Some (h, ps)"
  by (cases e) (auto simp: entry_route_def exact_route param_route param_match_def entry_matches_def)

lemma find_route_miss:
  "\<not> (m = m' \<and> (\<exists>ps. entry_matches e p ps)) \<Longrightarrow>
     find_route (entry_route (m, e, h) # rs) m' p = find_route rs m' p"
  by (cases e) (auto simp: entry_route_def exact_route param_route param_match_def entry_matches_def)

lemma find_route_sound:
  "find_route (map entry_route es) m p = Some (h, ps) \<Longrightarrow> \<exists>e. (m, e, h) \<in> set es \<and> entry_matches e p ps"
proof (induction es)
  case (Cons x es)
  obtain m0 e0 h0 where x: "x = (m0, e0, h0)" by (cases x) auto
  show ?case
  proof (cases "m0 = m \<and> (\<exists>ps. entry_matches e0 p ps)")
    case True
    then show ?thesis using Cons.prems find_route_hit [of e0 p] x by auto
  next
    case False
    then show ?thesis using Cons find_route_miss [OF False] x by auto
  qed
qed simp

text \<open>No request matches two entries: the order of the routes does not matter.\<close>

definition entries_clash :: "Method \<times> route_entry \<times> RequestHandler \<Rightarrow> Method \<times> route_entry \<times> RequestHandler \<Rightarrow> bool" where
  "entries_clash = (\<lambda>(m1, e1, _) (m2, e2, _). m1 = m2 \<and>
     (\<exists>p ps1 ps2. entry_matches e1 p ps1 \<and> entry_matches e2 p ps2))"

lemma find_route_complete:
  assumes "sorted_wrt (\<lambda>a b. \<not> entries_clash a b) es" and "(m, e, h) \<in> set es" and "entry_matches e p ps"
  shows "find_route (map entry_route es) m p = Some (h, ps)"
  using assms
proof (induction es)
  case (Cons x es)
  obtain m0 e0 h0 where x: "x = (m0, e0, h0)" by (cases x) auto
  show ?case
  proof (cases "x = (m, e, h)")
    case True
    then show ?thesis using find_route_hit Cons.prems(3) by simp
  next
    case False
    then have i: "(m, e, h) \<in> set es" using Cons.prems(2) by auto
    with Cons.prems(1) have "\<not> entries_clash x (m, e, h)" by simp
    with Cons.prems(3) x have "\<not> (m0 = m \<and> (\<exists>ps. entry_matches e0 p ps))"
      by (auto simp: entries_clash_def)
    from find_route_miss [OF this] Cons i x show ?thesis by simp
  qed
qed simp

lemma table_no_clash: "sorted_wrt (\<lambda>a b. \<not> entries_clash a b) route_table"
  by (simp add: route_table_def entries_clash_def entry_matches_def) auto

text \<open>
  C3 (refinement). The dispatch implements the route table: a request is given to a handler, with the path
  parameters it then sees, exactly when the table has an entry for that method, path and handler; a
  parameter is never empty and has no slash.  In particular no request matches two routes, so the
  order in which the routes were added does not matter.
\<close>

theorem dispatch_refines_route_table:
  "\<exists>routes. initRoutes = Some routes \<and>
     (\<forall>m p h ps. find_route routes m p = Some (h, ps) \<longleftrightarrow>
        (\<exists>e. (m, e, h) \<in> set route_table \<and> entry_matches e p ps))"
  using initRoutes_table find_route_sound [of route_table] find_route_complete [OF table_no_clash] by blast

section \<open>Requests without a session\<close>

definition session_handlers :: "RequestHandler list" where
  "session_handlers = [H_handleFileUpload, H_handleListFiles, H_handleDelete, H_handleShareFile, H_handleSearchUsers]"

lemma session_handlers_with_session:
  "h \<in> set session_handlers \<Longrightarrow> \<exists>k. run_handler env h = with_session env k"
  by (auto simp: session_handlers_def run_handler_def handleFileUpload_def handleListFiles_def handleDelete_def
      handleShareFile_def handleSearchUsers_def)

lemma set_path_params_keeps:
  assumes "set_path_params ps s = (r, s')"
  shows "r = Inr ()" "h_app s' = h_app s" "getHeader (request_of s') f = getHeader (request_of s) f"
  using assms
  by (auto simp: set_path_params_def request_of_def conn_request_def getHeader_def setPathParams_def
      split: option.splits)

lemma no_session_params: "set_path_params ps s = (r, s') \<Longrightarrow> no_session env s' = no_session env s"
  using set_path_params_keeps [of ps s r s'] by (simp add: no_session_def)

text \<open>
  C4 (safety). Uploads, the file list, deletion, sharing and the user search need a session: a request
  to one of them without a valid session (no id, no such unexpired session) is answered with 401, and
  changes no file, no name mapping and no download; the only statement it can have sent is the
  select that looks for the session.
\<close>

theorem session_required:
  assumes routes: "initRoutes = Some routes"
    and route: "find_route routes (rq_method (request_of s)) (rq_path (request_of s)) = Some (h, ps)"
    and h: "h \<in> set session_handlers"
    and none: "no_session env s"
    and dump: "env_dump env (error_json k401Unauthorized msg_not_logged_in) = Inr body"
  shows "\<exists>s' db iss. app_onRequest routes env s = (Inr True, s') \<and>
     h_app s' = (h_app s)\<lparr>ap_db := db, ap_issued := ap_issued (h_app s) @ iss\<rparr> \<and>
     set iss \<subseteq> {c_str (session_select (c_str (env_escape env (getHeader (request_of s) ''X-Session-ID''))))} \<and>
     rs_statusCode (h_resp s') = k401Unauthorized \<and> rs_body (h_resp s') = body"
proof -
  obtain k where k: "run_handler env h = with_session env k" using session_handlers_with_session [OF h] by blast
  obtain r s0 where p: "set_path_params ps s = (r, s0)" by (cases "set_path_params ps s")
  note keep = set_path_params_keeps [OF p]
  obtain db iss s' where w: "with_session env k s0 = (Inr True, s')"
    "h_app s' = (h_app s0)\<lparr>ap_db := db, ap_issued := ap_issued (h_app s0) @ iss\<rparr>"
    "set iss \<subseteq> {c_str (session_select (c_str (env_escape env (getHeader (request_of s0) ''X-Session-ID''))))}"
    "rs_statusCode (h_resp s') = k401Unauthorized" "rs_body (h_resp s') = body"
    using with_session_none [OF _ dump, of s0 k] none no_session_params [OF p] by auto
  have "app_onRequest routes env s = (Inr True, s')"
    using route p keep(1) w(1) k by (simp add: app_onRequest_def app_dispatch_def hcatch_def hbind_def)
  with w keep show ?thesis by auto
qed

theorem session_required_witness:
  "\<exists>routes s'. initRoutes = Some routes \<and>
     app_onRequest routes (simple_env (\<lambda>db q. (Db_error, db)))
       (simple_state (0 :: nat) Map.empty (mkHttpRequest\<lparr>rq_method := kDelete, rq_path := ''/delete/secret''\<rparr>)) = (Inr True, s') \<and>
     rs_statusCode (h_resp s') = k401Unauthorized \<and> ap_files (h_app s') = Map.empty"
proof -
  let ?s = "simple_state (0 :: nat) Map.empty (mkHttpRequest\<lparr>rq_method := kDelete, rq_path := ''/delete/secret''\<rparr>)"
  let ?e = "simple_env (\<lambda>db q. (Db_error, db)) :: nat Env"
  have "entry_matches (Param ''/delete/'' ''filename'') ''/delete/secret'' [''filename'' \<mapsto> ''secret'']"
    by (simp add: entry_matches_def)
  moreover have "(kDelete, Param ''/delete/'' ''filename'', H_handleDelete) \<in> set route_table"
    by (simp add: route_table_def)
  ultimately have f: "find_route (map entry_route route_table) (rq_method (request_of ?s)) (rq_path (request_of ?s)) =
      Some (H_handleDelete, [''filename'' \<mapsto> ''secret''])"
    using find_route_complete [OF table_no_clash] by simp
  have h: "H_handleDelete \<in> set session_handlers" "no_session ?e ?s"
    "env_dump ?e (error_json k401Unauthorized msg_not_logged_in) = Inr ''{}''"
    by (simp_all add: session_handlers_def no_session_def getHeader_def mkHttpRequest_def)
  from session_required [OF initRoutes_table f h] initRoutes_table show ?thesis by auto
qed

text \<open>
  No C++ exception leaves the application: whatever exception a handler throws, the
  response becomes the 500 response with the error message as its body, the connection is shut down once
  it is written, and the call returns normally; everything else a handler does is passed on as it is.
  The hypothesis is that the library serialises that constant message.
\<close>

theorem app_onRequest_catches_exceptions:
  assumes "env_dump env (error_json k500InternalServerError ''Internal Server Error'') = Inr body"
  shows "app_onRequest routes env s =
    (case app_dispatch routes env s of
       (Inl (Exception _), s1) \<Rightarrow>
         (Inr True, s1\<lparr>h_resp := setBody body (respond k500InternalServerError ''Internal Server Error''
                                    ''application/json'' (h_resp s1)),
                      h_conn := setWriteCompleteCallback Cb_shutdown (h_conn s1)\<rparr>)
     | r \<Rightarrow> r)"
proof -
  have "(\<lambda>_ :: bytes. hthen (sendError env ''Internal Server Error'' k500InternalServerError) (hret True)) =
      (\<lambda>_. fail env ''Internal Server Error'' k500InternalServerError)"
    by (simp add: fail_def)
  then show ?thesis
    by (auto simp: app_onRequest_def hcatch_def fail_eq [OF assms] split: prod.split sum.split exn.split)
qed

theorem app_onRequest_catches_exceptions_witness:
  "app_onRequest [] (simple_env (\<lambda>db q. (Db_error, db))) (simple_state (0 :: nat) Map.empty mkHttpRequest) =
    (case app_dispatch [] (simple_env (\<lambda>db q. (Db_error, db))) (simple_state 0 Map.empty mkHttpRequest) of
       (Inl (Exception _), s1) \<Rightarrow>
         (Inr True, s1\<lparr>h_resp := setBody ''{}'' (respond k500InternalServerError ''Internal Server Error''
                                    ''application/json'' (h_resp s1)),
                      h_conn := setWriteCompleteCallback Cb_shutdown (h_conn s1)\<rparr>)
     | r \<Rightarrow> r)"
  by (rule app_onRequest_catches_exceptions) simp

end
