(* ===== verification/Std_Set.thy ===== *)
theory Std_Set
  imports Prelude "HOL-Library.Product_Lexorder"
begin

text \<open>
  \<^verbatim>\<open>std::set\<close> as the strictly ascending list of its elements, in the order of its iteration: insertion,
  erasure and \<^verbatim>\<open>lower_bound\<close>, the interface of an ordered set, and its interpretation.
\<close>

definition set_ok :: "'a :: linorder list \<Rightarrow> bool" where
  "set_ok xs \<longleftrightarrow> sorted_wrt (<) xs"

definition set_put :: "'a :: linorder \<Rightarrow> 'a list \<Rightarrow> 'a list" where
  "set_put x xs = insort_insert x xs"

definition set_erase :: "'a :: linorder \<Rightarrow> 'a list \<Rightarrow> 'a list" where
  "set_erase x xs = remove1 x xs"

text \<open>The number of elements in front of the first one that is not less.\<close>

definition lower_bound :: "'a :: linorder \<Rightarrow> 'a list \<Rightarrow> nat" where
  "lower_bound x xs = length (takeWhile (\<lambda>y. y < x) xs)"

lemma set_ok_iff: "set_ok xs \<longleftrightarrow> sorted xs \<and> distinct xs"
  by (simp add: set_ok_def strict_sorted_iff)

lemma set_ok_Nil [simp]: "set_ok []"
  by (simp add: set_ok_def)

lemma set_put_set [simp]: "set (set_put x xs) = insert x (set xs)"
  by (simp add: set_put_def set_insort_insert)

lemma set_erase_set: "set_ok xs \<Longrightarrow> set (set_erase x xs) = set xs - {x}"
  by (simp add: set_erase_def set_ok_iff set_remove1_eq)

lemma set_ok_put: "set_ok xs \<Longrightarrow> set_ok (set_put x xs)"
  by (simp add: set_ok_iff set_put_def sorted_insort_insert distinct_insort_insert)

lemma set_ok_erase: "set_ok xs \<Longrightarrow> set_ok (set_erase x xs)"
  by (simp add: set_ok_iff set_erase_def sorted_remove1)

lemma length_set_put: "set_ok xs \<Longrightarrow> x \<notin> set xs \<Longrightarrow> length (set_put x xs) = Suc (length xs)"
  by (simp add: set_put_def insort_insert_insort)

lemma length_set_erase: "x \<in> set xs \<Longrightarrow> length (set_erase x xs) = length xs - 1"
  by (simp add: set_erase_def length_remove1)

text \<open>The elements up to \<^verbatim>\<open>lower_bound\<close> are those that are less.\<close>

lemma take_lower_bound: "set_ok xs \<Longrightarrow> take (lower_bound x xs) xs = filter (\<lambda>y. y < x) xs"
proof -
  assume ok: "set_ok xs"
  have "takeWhile (\<lambda>y. y < x) xs = filter (\<lambda>y. y < x) xs"
    using ok
  proof (induction xs)
    case (Cons a xs)
    have "filter (\<lambda>y. y < x) xs = []" if "\<not> a < x"
      using Cons.prems that by (auto simp: set_ok_def filter_empty_conv dest: less_trans)
    with Cons show ?case by (auto simp: set_ok_def)
  qed simp
  then show ?thesis by (metis lower_bound_def takeWhile_eq_take)
qed

lemma drop_lower_bound: "set_ok xs \<Longrightarrow> drop (lower_bound x xs) xs = filter (\<lambda>y. \<not> y < x) xs"
proof -
  assume ok: "set_ok xs"
  have "dropWhile (\<lambda>y. y < x) xs = filter (\<lambda>y. \<not> y < x) xs"
    using ok
  proof (induction xs)
    case (Cons a xs)
    then show ?case by (auto simp: set_ok_def filter_id_conv intro!: filter_True [symmetric] dest: less_trans)
  qed simp
  then show ?thesis by (metis lower_bound_def dropWhile_eq_drop)
qed

lemma set_ok_filter: "set_ok xs \<Longrightarrow> set_ok (filter P xs)"
  by (simp add: set_ok_def sorted_wrt_filter)

text \<open>The interface its clients rely on.\<close>

locale ordered_set =
  fixes elems :: "'s \<Rightarrow> 'a :: linorder list"
    and put :: "'a \<Rightarrow> 's \<Rightarrow> 's"
    and erase :: "'a \<Rightarrow> 's \<Rightarrow> 's"
    and invar :: "'s \<Rightarrow> bool"
  assumes ascending: "invar s \<Longrightarrow> sorted_wrt (<) (elems s)"
    and elems_put: "invar s \<Longrightarrow> set (elems (put x s)) = insert x (set (elems s))"
    and elems_erase: "invar s \<Longrightarrow> set (elems (erase x s)) = set (elems s) - {x}"
    and invar_put: "invar s \<Longrightarrow> invar (put x s)"
    and invar_erase: "invar s \<Longrightarrow> invar (erase x s)"
begin

lemma distinct_elems: "invar s \<Longrightarrow> distinct (elems s)"
  using ascending [of s] by (simp add: strict_sorted_iff)

lemma size_put: "invar s \<Longrightarrow> x \<notin> set (elems s) \<Longrightarrow> length (elems (put x s)) = Suc (length (elems s))"
  using distinct_card [OF distinct_elems [OF invar_put], of s x] distinct_card [OF distinct_elems, of s]
  by (simp add: elems_put)

lemma size_erase: "invar s \<Longrightarrow> x \<in> set (elems s) \<Longrightarrow> Suc (length (elems (erase x s))) = length (elems s)"
  using distinct_card [OF distinct_elems [OF invar_erase], of s x] distinct_card [OF distinct_elems, of s]
  by (simp add: elems_erase card_Suc_Diff1 [symmetric] del: card_Diff_insert)

lemma erase_put: "invar s \<Longrightarrow> x \<notin> set (elems s) \<Longrightarrow> set (elems (erase x (put x s))) = set (elems s)"
  by (simp add: elems_erase invar_put elems_put)

lemma least_first: "invar s \<Longrightarrow> elems s = x # xs \<Longrightarrow> y \<in> set (elems s) \<Longrightarrow> x \<le> y"
  using ascending [of s] by (auto simp: less_imp_le)

end

interpretation std_set: ordered_set "\<lambda>xs. xs" set_put set_erase set_ok
  by unfold_locales (simp_all add: set_ok_def [symmetric] set_erase_set set_ok_put set_ok_erase)

end
