(* ===== verification/Calendar.thy ===== *)
theory Calendar
  imports Prelude
begin

text \<open>
  \<^verbatim>\<open>Date\<close> (\<^verbatim>\<open>inc/utils/date/Date.hpp\<close>, \<^verbatim>\<open>src/utils/date/Date.cpp\<close>) and \<^verbatim>\<open>TimeStamp\<close>
  (\<^verbatim>\<open>inc/utils/date/TimeStamp.hpp\<close>, \<^verbatim>\<open>src/utils/date/TimeStamp.cpp\<close>).  The division of C++ rounds to
  zero; values of the narrow types are converted where the code stores them.  Lemmas: the
  conversion to a Julian day number and back, and what is left of a time.
\<close>

section \<open>Integers and \<^verbatim>\<open>printf\<close>\<close>

definition c_div :: "int \<Rightarrow> int \<Rightarrow> int" where
  "c_div a b = sgn a * sgn b * (\<bar>a\<bar> div \<bar>b\<bar>)"

definition c_mod :: "int \<Rightarrow> int \<Rightarrow> int" where
  "c_mod a b = a - b * c_div a b"

text \<open>Conversion to a signed type of the given width.\<close>

definition to_signed :: "nat \<Rightarrow> int \<Rightarrow> int" where
  "to_signed w x = (x + 2 ^ (w - 1)) mod 2 ^ w - 2 ^ (w - 1)"

text \<open>\<^verbatim>\<open>%0wd\<close> and \<^verbatim>\<open>%wd\<close>.\<close>

definition fmt_zero :: "nat \<Rightarrow> int \<Rightarrow> bytes" where
  "fmt_zero w x =
     (let digits = nat_to_string (nat \<bar>x\<bar>); sign = (if x < 0 then ''-'' else [])
      in sign @ replicate (w - length sign - length digits) CHR ''0'' @ digits)"

definition fmt_blank :: "nat \<Rightarrow> int \<Rightarrow> bytes" where
  "fmt_blank w x = (let d = int_to_string x in replicate (w - length d) CHR '' '' @ d)"

section \<open>Dates\<close>

record YearMonthDay =
  ymd_day :: int
  ymd_month :: int
  ymd_year :: int

definition getJulianDayNumber :: "int \<Rightarrow> int \<Rightarrow> int \<Rightarrow> int" where
  "getJulianDayNumber year month day =
     (let a = c_div (14 - month) 12;
          y = year + 4800 - a;
          m = month + 12 * a - 3
      in day + c_div (153 * m + 2) 5 + y * 365 + c_div y 4 - c_div y 100 + c_div y 400 - 32045)"

definition getYearMonthDay :: "int \<Rightarrow> YearMonthDay" where
  "getYearMonthDay julianDayNumber =
     (let a = julianDayNumber + 32044;
          b = c_div (4 * a + 3) 146097;
          c = a - c_div (146097 * b) 4;
          d = c_div (4 * c + 3) 1461;
          e = c - c_div (1461 * d) 4;
          m = c_div (5 * e + 2) 153
      in \<lparr>ymd_day = to_signed 8 (e - c_div (153 * m + 2) 5 + 1),
          ymd_month = to_signed 8 (m + 3 - 12 * c_div m 10),
          ymd_year = to_signed 16 (100 * b + d - 4800 + c_div m 10)\<rparr>)"

text \<open>A date is its \<^verbatim>\<open>uint64_t\<close>; the constructor from year, month and day leaves it uninitialised.\<close>

type_synonym Date = int

definition mkDate :: "int \<Rightarrow> int \<Rightarrow> int \<Rightarrow> int \<Rightarrow> Date" where
  "mkDate junk year month day = junk"

text \<open>The constructor from a \<^verbatim>\<open>struct tm\<close>, which counts years from 1900 and months from 0.\<close>

definition date_of_tm :: "int \<Rightarrow> int \<Rightarrow> int \<Rightarrow> Date" where
  "date_of_tm tm_year tm_mon tm_mday =
     getJulianDayNumber (to_signed 16 (tm_year + 1900)) (to_signed 8 (tm_mon + 1)) (to_signed 8 tm_mday) mod 2 ^ 64"

definition julianDayNumber :: "Date \<Rightarrow> int" where
  "julianDayNumber d = to_signed 64 d"

definition yearMonthDay :: "Date \<Rightarrow> YearMonthDay" where
  "yearMonthDay d = getYearMonthDay (to_signed 64 d)"

definition weekOfDay :: "Date \<Rightarrow> int" where
  "weekOfDay d = to_signed 8 ((d + 4) mod 2 ^ 64 mod 7)"

definition date_toString :: "Date \<Rightarrow> bytes" where
  "date_toString d =
     (let ymd = yearMonthDay d
      in fmt_blank 4 (ymd_year ymd) @ ''-'' @ fmt_zero 2 (ymd_month ymd) @ ''-'' @ fmt_zero 2 (ymd_day ymd))"

section \<open>Time stamps\<close>

definition kMicroSecondsPerSec :: int where
  "kMicroSecondsPerSec = 1000 * 1000"

text \<open>The constructor initialises the field with 0, whatever its argument is.\<close>

definition mkTimeStamp :: "int \<Rightarrow> TimeStamp" where
  "mkTimeStamp microSec = 0"

definition invalid :: TimeStamp where
  "invalid = 0"

text \<open>The clock is an argument: seconds and microseconds.  The bitwise operator binds weaker than the sum.\<close>

definition timestamp_now :: "int \<Rightarrow> int \<Rightarrow> TimeStamp" where
  "timestamp_now tv_sec tv_usec = mkTimeStamp (and tv_sec (kMicroSecondsPerSec + tv_usec))"

definition fromUnixTime :: "int \<Rightarrow> int \<Rightarrow> TimeStamp" where
  "fromUnixTime t microseconds = mkTimeStamp (t * kMicroSecondsPerSec + microseconds)"

definition secondsSinceEpoch :: "TimeStamp \<Rightarrow> int" where
  "secondsSinceEpoch ts = c_div ts kMicroSecondsPerSec"

text \<open>
  A number of seconds (\<^verbatim>\<open>double\<close>) by what the code uses of it: whether it is positive, and the microseconds
  it is cast to.
\<close>

record seconds_fp =
  fp_positive :: bool
  fp_micros :: int

definition timestamp_add :: "TimeStamp \<Rightarrow> seconds_fp \<Rightarrow> TimeStamp" where
  "timestamp_add ts sec = to_signed 64 (ts + fp_micros sec)"

definition addTime :: "TimeStamp \<Rightarrow> seconds_fp \<Rightarrow> TimeStamp" where
  "addTime ts seconds = mkTimeStamp (ts + fp_micros seconds)"

definition timestamp_toString :: "TimeStamp \<Rightarrow> bytes" where
  "timestamp_toString ts =
     take 31 (int_to_string (c_div ts kMicroSecondsPerSec) @ ''.'' @ fmt_zero 6 (c_mod ts kMicroSecondsPerSec))"

text \<open>\<^verbatim>\<open>gmtime_r\<close>: the date of a day counted from the epoch, in the Gregorian calendar.\<close>

definition gm_date :: "int \<Rightarrow> int \<times> int \<times> int" where
  "gm_date days =
     (let a = days + 2472632; b = (4 * a + 3) div 146097; c = a - 146097 * b div 4;
          d = (4 * c + 3) div 1461; e = c - 1461 * d div 4; m = (5 * e + 2) div 153
      in (100 * b + d - 4800 + m div 10, m + 3 - 12 * (m div 10), e - (153 * m + 2) div 5 + 1))"

definition timestamp_toFormattedString :: "TimeStamp \<Rightarrow> bool \<Rightarrow> bytes" where
  "timestamp_toFormattedString ts showMicroSec =
     (let seconds = c_div ts kMicroSecondsPerSec;
          (year, month, day) = gm_date (seconds div 86400);
          t = seconds mod 86400;
          base = fmt_blank 4 year @ fmt_zero 2 month @ fmt_zero 2 day @ '' '' @ fmt_zero 2 (t div 3600) @ '':'' @
                 fmt_zero 2 (t div 60 mod 60) @ '':'' @ fmt_zero 2 (t mod 60)
      in if showMicroSec then base @ ''.'' @ fmt_zero 6 (c_mod ts kMicroSecondsPerSec) else base)"

section \<open>The conversions\<close>

lemma c_div_nonneg: "0 \<le> a \<Longrightarrow> 0 < b \<Longrightarrow> c_div a b = a div b"
  by (cases "a = 0") (simp_all add: c_div_def sgn_if)

lemma c_div_eq: "a = b * q + r \<Longrightarrow> 0 \<le> q \<Longrightarrow> 0 \<le> r \<Longrightarrow> r < b \<Longrightarrow> c_div a b = q"
  using int_div_pos_eq [of a b q r] by (simp add: c_div_nonneg)

lemma to_signed_id: "- (2 ^ (w - 1)) \<le> x \<Longrightarrow> x < 2 ^ (w - 1) \<Longrightarrow> 0 < w \<Longrightarrow> to_signed w x = x"
proof -
  assume a: "- (2 ^ (w - 1)) \<le> x" "x < 2 ^ (w - 1)" "0 < w"
  have "(2 :: int) ^ w = 2 * 2 ^ (w - 1)" using a(3) by (cases w) simp_all
  then have "(x + 2 ^ (w - 1)) mod 2 ^ w = x + 2 ^ (w - 1)" using a by (intro mod_pos_pos_trivial) auto
  then show ?thesis by (simp add: to_signed_def)
qed

definition leap :: "int \<Rightarrow> bool" where
  "leap y \<longleftrightarrow> 4 dvd y \<and> (\<not> 100 dvd y \<or> 400 dvd y)"

definition month_days :: "int \<Rightarrow> int \<Rightarrow> int" where
  "month_days y m = (if m = 2 then if leap y then 29 else 28
                     else if m \<in> {4, 6, 9, 11} then 30 else 31)"

text \<open>The dates of the Gregorian calendar, carried back, that the number formats can hold.\<close>

definition valid_date :: "int \<Rightarrow> int \<Rightarrow> int \<Rightarrow> bool" where
  "valid_date y m d \<longleftrightarrow> - 4800 < y \<and> y < 2 ^ 15 \<and> 1 \<le> m \<and> m \<le> 12 \<and> 1 \<le> d \<and> d \<le> month_days y m"

text \<open>Days from the first of March: \<open>M\<close> counts months from there, in the year \<open>Y\<close> that begins there.\<close>

definition march_days :: "int \<Rightarrow> int" where
  "march_days M = (153 * M + 2) div 5"

text \<open>The day count of the shifted year, cut into four centuries, centuries, four years and years.\<close>

lemma year_days_split:
  fixes q k u v :: int
  assumes "0 \<le> q" "0 \<le> k" "k < 4" "0 \<le> u" "u < 25" "0 \<le> v" "v < 4"
  defines "Y \<equiv> 400 * q + 100 * k + 4 * u + v"
  shows "Y * 365 + c_div Y 4 - c_div Y 100 + c_div Y 400 = 146097 * q + 36524 * k + 1461 * u + 365 * v"
proof -
  have "c_div Y 4 = 100 * q + 25 * k + u" by (rule c_div_eq [of _ _ _ v]) (use assms in auto)
  moreover have "c_div Y 100 = 4 * q + k" by (rule c_div_eq [of _ _ _ "4 * u + v"]) (use assms in auto)
  moreover have "c_div Y 400 = q" by (rule c_div_eq [of _ _ _ "100 * k + 4 * u + v"]) (use assms in auto)
  ultimately show ?thesis by (simp add: Y_def)
qed

text \<open>The way back from the day count: the last day of a year only exists before a leap day.\<close>

lemma year_of_days:
  fixes q k u v doy :: int
  assumes "0 \<le> q" "0 \<le> k" "k < 4" "0 \<le> u" "u < 25" "0 \<le> v" "v < 4" "0 \<le> doy" "doy \<le> 365"
    and last: "doy = 365 \<Longrightarrow> v = 3 \<and> (u = 24 \<longrightarrow> k = 3)"
  defines "a \<equiv> 146097 * q + 36524 * k + 1461 * u + 365 * v + doy"
  defines "b \<equiv> c_div (4 * a + 3) 146097"
  defines "c \<equiv> a - c_div (146097 * b) 4"
  defines "d \<equiv> c_div (4 * c + 3) 1461"
  shows "b = 4 * q + k" "d = 4 * u + v" "c - c_div (1461 * d) 4 = doy"
proof -
  have top: "4 * (1461 * u + 365 * v + doy) + 3 - k < 146097"
    using assms(1-9) last by (cases "doy = 365"; cases "u = 24") auto
  show b: "b = 4 * q + k"
    unfolding b_def
    by (rule c_div_eq [of _ _ _ "4 * (1461 * u + 365 * v + doy) + 3 - k"]) (use assms(1-9) top in \<open>auto simp: a_def\<close>)
  have "c_div (146097 * b) 4 = 146097 * q + 36524 * k"
    by (rule c_div_eq [of _ _ _ k]) (use assms(1-9) b in auto)
  then have c: "c = 1461 * u + 365 * v + doy" by (simp add: c_def a_def)
  have "4 * doy + 3 - v < 1461" using assms(1-9) last by (cases "doy = 365") auto
  then show d: "d = 4 * u + v"
    unfolding d_def
    by (intro c_div_eq [of _ _ _ "4 * doy + 3 - v"]) (use assms(1-9) c in auto)
  have "c_div (1461 * d) 4 = 1461 * u + 365 * v"
    by (rule c_div_eq [of _ _ _ v]) (use assms(1-9) d in auto)
  then show "c - c_div (1461 * d) 4 = doy" by (simp add: c)
qed

lemma months_cases: "0 \<le> M \<Longrightarrow> M < (12 :: int) \<Longrightarrow> M \<in> {0, 1, 2, 3, 4, 5, 6, 7, 8, 9, 10, 11}"
  by (simp, presburger)

lemma month_of_days:
  fixes M d :: int
  assumes M: "0 \<le> M" "M < 12" and "1 \<le> d"
    and last: "d \<le> (if M = 11 then 29 else if M \<in> {1, 3, 6, 8} then 30 else 31)"
  defines "doy \<equiv> march_days M + d - 1"
  shows "c_div (5 * doy + 2) 153 = M" "0 \<le> doy" "doy \<le> 365" "doy = 365 \<Longrightarrow> M = 11 \<and> d = 29"
proof -
  from months_cases [OF M] consider "M = 0" | "M = 1" | "M = 2" | "M = 3" | "M = 4" | "M = 5" | "M = 6" | "M = 7"
    | "M = 8" | "M = 9" | "M = 10" | "M = 11" by auto
  then have "0 \<le> 5 * doy + 2 - 153 * M \<and> 5 * doy + 2 - 153 * M < 153 \<and> 0 \<le> doy \<and> doy \<le> 365 \<and>
      (doy = 365 \<longrightarrow> M = 11 \<and> d = 29)"
    using last assms(3) by cases (auto simp: doy_def march_days_def)
  then show "c_div (5 * doy + 2) 153 = M" "0 \<le> doy" "doy \<le> 365" "doy = 365 \<Longrightarrow> M = 11 \<and> d = 29"
    using M by (auto intro: c_div_eq [of _ _ _ "5 * doy + 2 - 153 * M"])
qed

text \<open>Every non-negative year in these pieces.\<close>

lemma year_split:
  fixes Y :: int
  assumes "0 \<le> Y"
  obtains q k u v where "Y = 400 * q + 100 * k + 4 * u + v" "0 \<le> q" "0 \<le> k" "k < 4" "0 \<le> u" "u < 25" "0 \<le> v" "v < 4"
proof
  define r1 r2 where "r1 = Y mod 400" and "r2 = r1 mod 100"
  have r: "0 \<le> r1" "r1 < 400" "0 \<le> r2" "r2 < 100" by (simp_all add: r1_def r2_def)
  have "Y = 400 * (Y div 400) + r1" "r1 = 100 * (r1 div 100) + r2" "r2 = 4 * (r2 div 4) + r2 mod 4"
    by (simp_all add: r1_def r2_def)
  then show "Y = 400 * (Y div 400) + 100 * (r1 div 100) + 4 * (r2 div 4) + r2 mod 4" by linarith
  show "0 \<le> Y div 400" using assms by (simp add: pos_imp_zdiv_nonneg_iff)
  show "0 \<le> r1 div 100" "r1 div 100 < 4" using r(1,2) by presburger+
  show "0 \<le> r2 div 4" "r2 div 4 < 25" using r(3,4) by presburger+
  show "0 \<le> r2 mod 4" "r2 mod 4 < 4" by simp_all
qed

text \<open>The shifted year and month of a valid date.\<close>

lemma shifted:
  assumes "valid_date y m d"
  defines "a \<equiv> c_div (14 - m) 12"
  shows "a = (if m \<le> 2 then 1 else 0)" "0 \<le> y + 4800 - a" "0 \<le> m + 12 * a - 3" "m + 12 * a - 3 < 12"
proof -
  have "c_div (14 - m) 12 = (if m \<le> 2 then 1 else 0)"
    by (rule c_div_eq [of _ _ _ "if m \<le> 2 then 2 - m else 14 - m"]) (use assms(1) in \<open>auto simp: valid_date_def\<close>)
  then show "a = (if m \<le> 2 then 1 else 0)" "0 \<le> y + 4800 - a" "0 \<le> m + 12 * a - 3" "m + 12 * a - 3 < 12"
    using assms(1) by (auto simp: a_def valid_date_def)
qed

lemma valid_month_length:
  assumes "valid_date y m d" and "M = (if m \<le> 2 then m + 9 else m - 3)"
  shows "1 \<le> d" "d \<le> (if M = 11 then 29 else if M \<in> {1, 3, 6, 8} then 30 else 31)"
  using assms by (auto simp: valid_date_def month_days_def split: if_splits)

text \<open>The leap day ends a shifted year whose successor is a leap year.\<close>

lemma leap_pieces:
  fixes q k u v :: int
  assumes "0 \<le> k" "k < 4" "0 \<le> u" "u < 25" "0 \<le> v" "v < 4" and l: "leap (400 * q + 100 * k + 4 * u + v + 1 - 4800)"
  shows "v = 3 \<and> (u = 24 \<longrightarrow> k = 3)"
proof -
  have "4 dvd v + 1"
  proof -
    have "4 dvd 400 * q + 100 * k + 4 * u + v + 1 - 4800" using l by (simp add: leap_def)
    moreover have "400 * q + 100 * k + 4 * u + v + 1 - 4800 = 4 * (100 * q + 25 * k + u - 1200) + (v + 1)" by simp
    ultimately show ?thesis by (metis dvd_add_right_iff dvd_triv_left)
  qed
  then have v: "v = 3" using assms(5,6) by presburger
  have "k = 3" if "u = 24"
  proof -
    have "400 * q + 100 * k + 4 * u + v + 1 - 4800 = 400 * (q - 12) + 100 * (k + 1)" using v that by simp
    then have "400 dvd 400 * (q - 12) + 100 * (k + 1)" using l by (auto simp: leap_def)
    then have "4 dvd k + 1" by presburger
    then show ?thesis using assms(1,2) by presburger
  qed
  with v show ?thesis by blast
qed

lemma getYearMonthDay_pieces:
  assumes "c_div (4 * (J + 32044) + 3) 146097 = b"
    and "c_div (4 * (J + 32044 - c_div (146097 * c_div (4 * (J + 32044) + 3) 146097) 4) + 3) 1461 = dd"
    and "J + 32044 - c_div (146097 * c_div (4 * (J + 32044) + 3) 146097) 4 -
         c_div (1461 * c_div (4 * (J + 32044 - c_div (146097 * c_div (4 * (J + 32044) + 3) 146097) 4) + 3) 1461) 4 = e"
    and "c_div (5 * e + 2) 153 = M"
  shows "getYearMonthDay J =
    \<lparr>ymd_day = to_signed 8 (e - c_div (153 * M + 2) 5 + 1), ymd_month = to_signed 8 (M + 3 - 12 * c_div M 10),
     ymd_year = to_signed 16 (100 * b + dd - 4800 + c_div M 10)\<rparr>"
  unfolding getYearMonthDay_def Let_def assms(3) unfolding assms(2) unfolding assms(1,4) ..

text \<open>
  C31 (roundtrip). Every date of the Gregorian calendar from 4800 BC to the year 32767, leap days
  included, is recovered from its Julian day number.
\<close>

theorem julian_day_roundtrip:
  assumes valid: "valid_date y m d"
  shows "getYearMonthDay (getJulianDayNumber y m d) = \<lparr>ymd_day = d, ymd_month = m, ymd_year = y\<rparr>"
proof -
  define a where "a = c_div (14 - m) 12"
  define Y where "Y = y + 4800 - a"
  define M where "M = m + 12 * a - 3"
  note sh = shifted [OF valid, folded a_def, folded Y_def M_def]
  define doy where "doy = march_days M + d - 1"
  have Mm: "M = (if m \<le> 2 then m + 9 else m - 3)" using sh(1) by (simp add: M_def)
  note mo = month_of_days [OF sh(3,4) valid_month_length [OF valid Mm], folded doy_def]
  obtain q k u v where s: "Y = 400 * q + 100 * k + 4 * u + v" "0 \<le> q" "0 \<le> k" "k < 4" "0 \<le> u" "u < 25" "0 \<le> v" "v < 4"
    using year_split [OF sh(2)] .
  have last: "v = 3 \<and> (u = 24 \<longrightarrow> k = 3)" if "doy = 365"
  proof -
    have "m = 2" "d = 29" using mo(4) [OF that] Mm valid by (auto simp: valid_date_def split: if_splits)
    then have "leap y" using valid by (auto simp: valid_date_def month_days_def split: if_splits)
    moreover have "y = 400 * q + 100 * k + 4 * u + v + 1 - 4800" using s(1) sh(1) \<open>m = 2\<close> by (simp add: Y_def)
    ultimately show ?thesis using leap_pieces [OF s(3-8), of q] by blast
  qed
  have md: "c_div (153 * M + 2) 5 = march_days M" using sh(3) by (simp add: march_days_def c_div_nonneg)
  have jd: "getJulianDayNumber y m d + 32044 = 146097 * q + 36524 * k + 1461 * u + 365 * v + doy"
    using year_days_split [OF s(2-8), folded s(1)]
    unfolding getJulianDayNumber_def Let_def a_def [symmetric] Y_def [symmetric] M_def [symmetric] md doy_def
    by linarith
  note yr = year_of_days [OF s(2-8) mo(2,3) last]
  have m10: "c_div M 10 = (if m \<le> 2 then 1 else 0)"
    by (rule c_div_eq [of _ _ _ "if m \<le> 2 then M - 10 else M"]) (use valid Mm in \<open>auto simp: valid_date_def\<close>)
  have "month_days y m \<le> 31" by (simp add: month_days_def)
  then have r: "to_signed 8 d = d" "to_signed 8 m = m" "to_signed 16 y = y"
    using valid by (auto simp: valid_date_def intro!: to_signed_id)
  have "getYearMonthDay (getJulianDayNumber y m d) =
      \<lparr>ymd_day = to_signed 8 (doy - march_days M + 1), ymd_month = to_signed 8 (M + 3 - 12 * c_div M 10),
       ymd_year = to_signed 16 (100 * (4 * q + k) + (4 * u + v) - 4800 + c_div M 10)\<rparr>"
    unfolding md [symmetric] by (rule getYearMonthDay_pieces [OF yr [folded jd] mo(1)])
  moreover have "doy - march_days M + 1 = d" "M + 3 - 12 * c_div M 10 = m"
    "100 * (4 * q + k) + (4 * u + v) - 4800 + c_div M 10 = y"
    using sh(1) Mm s(1) m10 by (auto simp: doy_def Y_def)
  ultimately show ?thesis using r by simp
qed

theorem julian_day_roundtrip_witness:
  "getYearMonthDay (getJulianDayNumber 2000 2 29) = \<lparr>ymd_day = 29, ymd_month = 2, ymd_year = 2000\<rparr>"
  by (rule julian_day_roundtrip) (simp add: valid_date_def month_days_def leap_def)

text \<open>
  \<^verbatim>\<open>weekOfDay\<close> does not number the days as it is documented to, with 0 for Sunday: on the first of
  January 1970, a Thursday, it is 0.
\<close>

theorem weekOfDay_of_epoch:
  "yearMonthDay (date_of_tm 70 0 1) = \<lparr>ymd_day = 1, ymd_month = 1, ymd_year = 1970\<rparr> \<and> weekOfDay (date_of_tm 70 0 1) = 0"
  by code_simp

end
