(* ===== verification/Timers.thy ===== *)
theory Timers
  imports Std_Set Calendar
begin

text \<open>
  \<^verbatim>\<open>Timer\<close>, \<^verbatim>\<open>TimerId\<close> and \<^verbatim>\<open>TimerQueue\<close> (\<^verbatim>\<open>inc/network/Timer.hpp\<close>, \<^verbatim>\<open>src/network/Timer.cpp\<close>,
  \<^verbatim>\<open>inc/network/TimerId.hpp\<close>, \<^verbatim>\<open>inc/network/TimerQueue.hpp\<close>, \<^verbatim>\<open>src/network/TimerQueue.cpp\<close>) and the timer calls of
  \<^verbatim>\<open>EventLoop\<close>.  The timers live in a heap, addressed by natural numbers; a queue holds two ordered sets of
  pointers into it.  An access to an address where no timer lives, a double \<^verbatim>\<open>delete\<close> included, is
  \<open>Out_Of_Bounds\<close>.

  Three things come from outside: \<open>clk n\<close> is the value \<^verbatim>\<open>gettimeofday\<close> gives the \<open>n\<close>-th time, \<open>new_addr\<close> is the
  allocator, and \<open>acts\<close> gives the timer calls that the application's callback makes when it runs.  The calls are those
  made in the thread of the loop, where \<^verbatim>\<open>runInLoop\<close> runs its argument at once; a timer that another thread has
  created and whose \<^verbatim>\<open>addTimerInLoop\<close> is still pending is in the heap and not in the sets.
\<close>

section \<open>Definitions\<close>

record Timer =
  tm_callback :: nat
  tm_expiration :: TimeStamp
  tm_interval :: seconds_fp
  tm_repeat :: bool
  tm_sequence :: int

type_synonym timer_ptr = nat
type_synonym TimerId = "timer_ptr \<times> int"
type_synonym timer_heap = "timer_ptr \<rightharpoonup> Timer"

definition UINTPTR_MAX :: nat where
  "UINTPTR_MAX = 2 ^ 64 - 1"

text \<open>The last three fields record what the queue did: clock reads, settings of the timer descriptor, callbacks run.\<close>

record TimerQueue =
  theap :: timer_heap
  s_numCreated :: int
  timers :: "(TimeStamp \<times> timer_ptr) list"
  activeTimers :: "(timer_ptr \<times> int) list"
  callingExpiredTimers :: bool
  cancelingTimers :: "(timer_ptr \<times> int) list"
  clock_reads :: nat
  armed :: "(int \<times> int) list"
  timer_runs :: "timer_ptr list"

definition mkTimer :: "nat \<Rightarrow> TimeStamp \<Rightarrow> seconds_fp \<Rightarrow> int \<Rightarrow> Timer" where
  "mkTimer cb when interval numCreated =
     \<lparr>tm_callback = cb, tm_expiration = when, tm_interval = interval, tm_repeat = fp_positive interval, tm_sequence = numCreated\<rparr>"

definition timer_restart :: "TimeStamp \<Rightarrow> Timer \<Rightarrow> Timer" where
  "timer_restart now t =
     (if tm_repeat t then t\<lparr>tm_expiration := addTime now (tm_interval t)\<rparr> else t\<lparr>tm_expiration := invalid\<rparr>)"

definition mkTimerQueue :: "int \<Rightarrow> TimerQueue" where
  "mkTimerQueue numCreated =
     \<lparr>theap = Map.empty, s_numCreated = numCreated, timers = [], activeTimers = [],
      callingExpiredTimers = False, cancelingTimers = [], clock_reads = 0, armed = [], timer_runs = []\<rparr>"

definition howMuchTimeFromNow :: "TimeStamp \<Rightarrow> TimeStamp \<Rightarrow> int \<times> int" where
  "howMuchTimeFromNow when now =
     (let d = to_signed 64 (when - now);
          microseconds = (if d < 100 then 100 else d)
      in (c_div microseconds kMicroSecondsPerSec, c_mod microseconds kMicroSecondsPerSec * 1000))"

definition read_clock :: "(nat \<Rightarrow> int \<times> int) \<Rightarrow> TimerQueue \<Rightarrow> TimeStamp \<times> TimerQueue" where
  "read_clock clk q =
     (timestamp_now (fst (clk (clock_reads q))) (snd (clk (clock_reads q))), q\<lparr>clock_reads := Suc (clock_reads q)\<rparr>)"

definition resetTimerfd :: "(nat \<Rightarrow> int \<times> int) \<Rightarrow> TimeStamp \<Rightarrow> TimerQueue \<Rightarrow> TimerQueue" where
  "resetTimerfd clk expiration q =
     (let (now, q1) = read_clock clk q in q1\<lparr>armed := armed q1 @ [howMuchTimeFromNow expiration now]\<rparr>)"

definition timer_at :: "TimerQueue \<Rightarrow> timer_ptr \<Rightarrow> Timer result" where
  "timer_at q p = (case theap q p of None \<Rightarrow> Inl Out_Of_Bounds | Some t \<Rightarrow> Inr t)"

definition delete_timer :: "timer_ptr \<Rightarrow> TimerQueue \<Rightarrow> TimerQueue result" where
  "delete_timer p q = rbind (timer_at q p) (\<lambda>_. Inr (q\<lparr>theap := (theap q)(p := None)\<rparr>))"

definition sizes_agree :: "TimerQueue \<Rightarrow> bool" where
  "sizes_agree q \<longleftrightarrow> length (timers q) = length (activeTimers q)"

definition insert_timer :: "timer_ptr \<Rightarrow> TimerQueue \<Rightarrow> (bool \<times> TimerQueue) result" where
  "insert_timer p q =
     rbind (passert (sizes_agree q)) (\<lambda>_.
     rbind (timer_at q p) (\<lambda>t.
       let when = tm_expiration t;
           earliestChanged = (timers q = [] \<or> when < fst (hd (timers q)))
       in rbind (passert ((when, p) \<notin> set (timers q))) (\<lambda>_.
          rbind (passert ((p, tm_sequence t) \<notin> set (activeTimers q))) (\<lambda>_.
            let q1 = q\<lparr>timers := set_put (when, p) (timers q),
                       activeTimers := set_put (p, tm_sequence t) (activeTimers q)\<rparr>
            in rbind (passert (sizes_agree q1)) (\<lambda>_. Inr (earliestChanged, q1))))))"

definition addTimerInLoop :: "(nat \<Rightarrow> int \<times> int) \<Rightarrow> timer_ptr \<Rightarrow> TimerQueue \<Rightarrow> TimerQueue result" where
  "addTimerInLoop clk p q =
     rbind (insert_timer p q) (\<lambda>(earliestChanged, q1).
       if earliestChanged then rbind (timer_at q1 p) (\<lambda>t. Inr (resetTimerfd clk (tm_expiration t) q1))
       else Inr q1)"

definition new_timer ::
  "(timer_heap \<Rightarrow> timer_ptr option) \<Rightarrow> nat \<Rightarrow> TimeStamp \<Rightarrow> seconds_fp \<Rightarrow> TimerQueue \<Rightarrow> (timer_ptr \<times> TimerQueue) result" where
  "new_timer new_addr cb when interval q =
     (case new_addr (theap q) of
        None \<Rightarrow> Inl Bad_Alloc
      | Some p \<Rightarrow> Inr (p, q\<lparr>theap := (theap q)(p \<mapsto> mkTimer cb when interval (s_numCreated q)),
                           s_numCreated := to_signed 64 (s_numCreated q + 1)\<rparr>))"

definition addTimer ::
  "(nat \<Rightarrow> int \<times> int) \<Rightarrow> (timer_heap \<Rightarrow> timer_ptr option) \<Rightarrow> nat \<Rightarrow> TimeStamp \<Rightarrow> seconds_fp \<Rightarrow> TimerQueue \<Rightarrow>
     (TimerId \<times> TimerQueue) result" where
  "addTimer clk new_addr cb when interval q =
     rbind (new_timer new_addr cb when interval q) (\<lambda>(p, q1).
     rbind (addTimerInLoop clk p q1) (\<lambda>q2.
     rbind (timer_at q2 p) (\<lambda>t. Inr ((p, tm_sequence t), q2))))"

definition cancelInLoop :: "TimerId \<Rightarrow> TimerQueue \<Rightarrow> TimerQueue result" where
  "cancelInLoop timer q =
     rbind (passert (sizes_agree q)) (\<lambda>_.
     rbind (if timer \<in> set (activeTimers q)
            then rbind (timer_at q (fst timer)) (\<lambda>t.
                 rbind (passert ((tm_expiration t, fst timer) \<in> set (timers q))) (\<lambda>_.
                 rbind (delete_timer (fst timer) (q\<lparr>timers := set_erase (tm_expiration t, fst timer) (timers q)\<rparr>)) (\<lambda>q1.
                   Inr (q1\<lparr>activeTimers := set_erase timer (activeTimers q1)\<rparr>))))
            else if callingExpiredTimers q then Inr (q\<lparr>cancelingTimers := set_put timer (cancelingTimers q)\<rparr>)
            else Inr q) (\<lambda>q1.
     rbind (passert (sizes_agree q1)) (\<lambda>_. Inr q1)))"

section \<open>The timer calls of the event loop\<close>

definition no_interval :: seconds_fp where
  "no_interval = \<lparr>fp_positive = False, fp_micros = 0\<rparr>"

definition runAt ::
  "(nat \<Rightarrow> int \<times> int) \<Rightarrow> (timer_heap \<Rightarrow> timer_ptr option) \<Rightarrow> TimeStamp \<Rightarrow> nat \<Rightarrow> TimerQueue \<Rightarrow>
     (TimerId \<times> TimerQueue) result" where
  "runAt clk new_addr time cb q = addTimer clk new_addr cb time no_interval q"

definition runAfter ::
  "(nat \<Rightarrow> int \<times> int) \<Rightarrow> (timer_heap \<Rightarrow> timer_ptr option) \<Rightarrow> seconds_fp \<Rightarrow> nat \<Rightarrow> TimerQueue \<Rightarrow>
     (TimerId \<times> TimerQueue) result" where
  "runAfter clk new_addr delay cb q =
     (let (now, q1) = read_clock clk q in runAt clk new_addr (addTime now delay) cb q1)"

definition runEvery ::
  "(nat \<Rightarrow> int \<times> int) \<Rightarrow> (timer_heap \<Rightarrow> timer_ptr option) \<Rightarrow> seconds_fp \<Rightarrow> nat \<Rightarrow> TimerQueue \<Rightarrow>
     (TimerId \<times> TimerQueue) result" where
  "runEvery clk new_addr interval cb q =
     (let (now, q1) = read_clock clk q in addTimer clk new_addr cb (addTime now interval) interval q1)"

definition loop_cancel :: "TimerId \<Rightarrow> TimerQueue \<Rightarrow> TimerQueue result" where
  "loop_cancel timerId q = cancelInLoop timerId q"

text \<open>The timer calls an application can make, and a sequence of them.\<close>

datatype timer_call = Run_at TimeStamp nat | Run_after seconds_fp nat | Run_every seconds_fp nat | Cancel TimerId

fun timer_step ::
  "(nat \<Rightarrow> int \<times> int) \<Rightarrow> (timer_heap \<Rightarrow> timer_ptr option) \<Rightarrow> timer_call \<Rightarrow> TimerQueue \<Rightarrow> TimerQueue result" where
  "timer_step clk new_addr (Run_at w cb) q = rbind (runAt clk new_addr w cb q) (\<lambda>r. Inr (snd r))"
| "timer_step clk new_addr (Run_after d cb) q = rbind (runAfter clk new_addr d cb q) (\<lambda>r. Inr (snd r))"
| "timer_step clk new_addr (Run_every d cb) q = rbind (runEvery clk new_addr d cb q) (\<lambda>r. Inr (snd r))"
| "timer_step clk new_addr (Cancel i) q = loop_cancel i q"

fun timer_steps ::
  "(nat \<Rightarrow> int \<times> int) \<Rightarrow> (timer_heap \<Rightarrow> timer_ptr option) \<Rightarrow> timer_call list \<Rightarrow> TimerQueue \<Rightarrow> TimerQueue result" where
  "timer_steps clk new_addr [] q = Inr q"
| "timer_steps clk new_addr (c # cs) q = rbind (timer_step clk new_addr c q) (timer_steps clk new_addr cs)"

section \<open>Expiry\<close>

fun erase_active :: "(TimeStamp \<times> timer_ptr) list \<Rightarrow> TimerQueue \<Rightarrow> TimerQueue result" where
  "erase_active [] q = Inr q"
| "erase_active (it # expired) q =
     rbind (timer_at q (snd it)) (\<lambda>t.
     rbind (passert ((snd it, tm_sequence t) \<in> set (activeTimers q))) (\<lambda>_.
       erase_active expired (q\<lparr>activeTimers := set_erase (snd it, tm_sequence t) (activeTimers q)\<rparr>)))"

definition getExpired :: "TimeStamp \<Rightarrow> TimerQueue \<Rightarrow> ((TimeStamp \<times> timer_ptr) list \<times> TimerQueue) result" where
  "getExpired now q =
     rbind (passert (sizes_agree q)) (\<lambda>_.
       let n = lower_bound (now, UINTPTR_MAX) (timers q)
       in rbind (passert (n = length (timers q) \<or> now < fst (timers q ! n))) (\<lambda>_.
            let expired = take n (timers q)
            in rbind (erase_active expired (q\<lparr>timers := drop n (timers q)\<rparr>)) (\<lambda>q1.
               rbind (passert (sizes_agree q1)) (\<lambda>_. Inr (expired, q1)))))"

fun run_expired ::
  "(nat \<Rightarrow> int \<times> int) \<Rightarrow> (timer_heap \<Rightarrow> timer_ptr option) \<Rightarrow> (nat \<Rightarrow> TimerQueue \<Rightarrow> timer_call list) \<Rightarrow>
     (TimeStamp \<times> timer_ptr) list \<Rightarrow> TimerQueue \<Rightarrow> TimerQueue result" where
  "run_expired clk new_addr acts [] q = Inr q"
| "run_expired clk new_addr acts (it # expired) q =
     rbind (timer_at q (snd it)) (\<lambda>t.
       let q1 = q\<lparr>timer_runs := timer_runs q @ [snd it]\<rparr>
       in rbind (timer_steps clk new_addr (acts (tm_callback t) q1) q1) (run_expired clk new_addr acts expired))"

fun reset_expired :: "(TimeStamp \<times> timer_ptr) list \<Rightarrow> TimeStamp \<Rightarrow> TimerQueue \<Rightarrow> TimerQueue result" where
  "reset_expired [] now q = Inr q"
| "reset_expired (it # expired) now q =
     rbind (timer_at q (snd it)) (\<lambda>t.
     rbind (if tm_repeat t \<and> (snd it, tm_sequence t) \<notin> set (cancelingTimers q)
            then rbind (insert_timer (snd it) (q\<lparr>theap := (theap q)(snd it \<mapsto> timer_restart now t)\<rparr>)) (\<lambda>r. Inr (snd r))
            else delete_timer (snd it) q)
       (reset_expired expired now))"

definition reset_queue ::
  "(nat \<Rightarrow> int \<times> int) \<Rightarrow> (TimeStamp \<times> timer_ptr) list \<Rightarrow> TimeStamp \<Rightarrow> TimerQueue \<Rightarrow> TimerQueue result" where
  "reset_queue clk expired now q =
     rbind (reset_expired expired now q) (\<lambda>q1.
     rbind (if timers q1 = [] then Inr invalid
            else rbind (timer_at q1 (snd (hd (timers q1)))) (\<lambda>t. Inr (tm_expiration t))) (\<lambda>nextExpire.
       Inr (if 0 < nextExpire then resetTimerfd clk nextExpire q1 else q1)))"

definition timer_handleRead ::
  "(nat \<Rightarrow> int \<times> int) \<Rightarrow> (timer_heap \<Rightarrow> timer_ptr option) \<Rightarrow> (nat \<Rightarrow> TimerQueue \<Rightarrow> timer_call list) \<Rightarrow>
     TimerQueue \<Rightarrow> TimerQueue result" where
  "timer_handleRead clk new_addr acts q =
     (let (now, q0) = read_clock clk q
      in rbind (getExpired now q0) (\<lambda>(expired, q1).
         rbind (run_expired clk new_addr acts expired (q1\<lparr>callingExpiredTimers := True, cancelingTimers := []\<rparr>)) (\<lambda>q2.
           reset_queue clk expired now (q2\<lparr>callingExpiredTimers := False\<rparr>))))"

fun delete_timers :: "(TimeStamp \<times> timer_ptr) list \<Rightarrow> TimerQueue \<Rightarrow> TimerQueue result" where
  "delete_timers [] q = Inr q"
| "delete_timers (it # ts) q = rbind (delete_timer (snd it) q) (delete_timers ts)"

definition timer_queue_destroy :: "TimerQueue \<Rightarrow> TimerQueue result" where
  "timer_queue_destroy q = delete_timers (timers q) q"

section \<open>The invariant of the queue\<close>

text \<open>
  The timers that live are those of the two sets and those of \<open>D\<close>, which are out of the queue: created by another
  thread and not yet added, or expired and not yet restarted.
\<close>

definition tq_inv :: "timer_ptr set \<Rightarrow> TimerQueue \<Rightarrow> bool" where
  "tq_inv D q \<longleftrightarrow>
     set_ok (timers q) \<and> set_ok (activeTimers q) \<and>
     (\<forall>e p. (e, p) \<in> set (timers q) \<longleftrightarrow> p \<notin> D \<and> (\<exists>t. theap q p = Some t \<and> tm_expiration t = e)) \<and>
     (\<forall>p s. (p, s) \<in> set (activeTimers q) \<longleftrightarrow> p \<notin> D \<and> (\<exists>t. theap q p = Some t \<and> tm_sequence t = s)) \<and>
     D \<subseteq> dom (theap q) \<and> (\<forall>p \<in> dom (theap q). p < UINTPTR_MAX)"

text \<open>What the queue relies on of the allocator: \<^verbatim>\<open>new\<close> returns memory that is not in use.\<close>

definition allocates :: "(timer_heap \<Rightarrow> timer_ptr option) \<Rightarrow> bool" where
  "allocates new_addr \<longleftrightarrow> (\<forall>h p. new_addr h = Some p \<longrightarrow> h p = None \<and> p < UINTPTR_MAX)"

text \<open>The outcome of a call: it runs out of memory, or returns a value that satisfies \<open>P\<close>.\<close>

definition returns :: "('a \<Rightarrow> bool) \<Rightarrow> 'a result \<Rightarrow> bool" where
  "returns P r \<longleftrightarrow> r = Inl Bad_Alloc \<or> (\<exists>x. r = Inr x \<and> P x)"

lemma returns_Inr [simp]: "returns P (Inr x) \<longleftrightarrow> P x"
  by (simp add: returns_def)

lemma returns_rbind: "returns P m \<Longrightarrow> (\<And>x. P x \<Longrightarrow> returns Q (f x)) \<Longrightarrow> returns Q (rbind m f)"
  unfolding returns_def by (elim disjE exE conjE) simp_all

lemma returns_rbind_from: "returns P m \<Longrightarrow> (\<And>x. m = Inr x \<Longrightarrow> P x \<Longrightarrow> returns Q (f x)) \<Longrightarrow> returns Q (rbind m f)"
  unfolding returns_def by (elim disjE exE conjE) simp_all

lemma returns_mono: "returns P m \<Longrightarrow> (\<And>x. P x \<Longrightarrow> Q x) \<Longrightarrow> returns Q m"
  by (auto simp: returns_def)

lemma tq_inv_timers: "tq_inv D q \<Longrightarrow> (e, p) \<in> set (timers q) \<longleftrightarrow> p \<notin> D \<and> (\<exists>t. theap q p = Some t \<and> tm_expiration t = e)"
  by (simp add: tq_inv_def)

lemma tq_inv_active: "tq_inv D q \<Longrightarrow> (p, s) \<in> set (activeTimers q) \<longleftrightarrow> p \<notin> D \<and> (\<exists>t. theap q p = Some t \<and> tm_sequence t = s)"
  by (simp add: tq_inv_def)

lemma tq_inv_ok: "tq_inv D q \<Longrightarrow> set_ok (timers q)" "tq_inv D q \<Longrightarrow> set_ok (activeTimers q)"
  by (simp_all add: tq_inv_def)

lemma tq_inv_detached: "tq_inv D q \<Longrightarrow> p \<in> D \<Longrightarrow> \<exists>t. theap q p = Some t"
  by (auto simp: tq_inv_def)

text \<open>Both sets hold one entry for each timer of the queue, so they have the same size.\<close>

lemma tq_inv_sizes:
  assumes "tq_inv D q"
  shows "sizes_agree q"
proof -
  define T where "T = (\<lambda>p. (tm_expiration (the (theap q p)), p)) ` (dom (theap q) - D)"
  define A where "A = (\<lambda>p. (p, tm_sequence (the (theap q p)))) ` (dom (theap q) - D)"
  have "set (timers q) = T" "set (activeTimers q) = A"
    using assms by (auto simp: T_def A_def tq_inv_timers tq_inv_active image_iff)
  moreover have "card T = card (dom (theap q) - D)" "card A = card (dom (theap q) - D)"
    unfolding T_def A_def by (auto intro!: card_image inj_onI)
  ultimately show ?thesis
    using std_set.distinct_elems [OF tq_inv_ok(1) [OF assms]] std_set.distinct_elems [OF tq_inv_ok(2) [OF assms]]
    by (simp add: sizes_agree_def distinct_card [symmetric])
qed

lemma tq_inv_cong:
  "theap q' = theap q \<Longrightarrow> timers q' = timers q \<Longrightarrow> activeTimers q' = activeTimers q \<Longrightarrow> tq_inv D q' = tq_inv D q"
  by (simp add: tq_inv_def)

lemma resetTimerfd_fields [simp]:
  "theap (resetTimerfd clk e q) = theap q" "timers (resetTimerfd clk e q) = timers q"
  "activeTimers (resetTimerfd clk e q) = activeTimers q" "cancelingTimers (resetTimerfd clk e q) = cancelingTimers q"
  "callingExpiredTimers (resetTimerfd clk e q) = callingExpiredTimers q" "timer_runs (resetTimerfd clk e q) = timer_runs q"
  by (simp_all add: resetTimerfd_def read_clock_def)

lemma read_clock_fields [simp]:
  "theap (snd (read_clock clk q)) = theap q" "timers (snd (read_clock clk q)) = timers q"
  "activeTimers (snd (read_clock clk q)) = activeTimers q" "cancelingTimers (snd (read_clock clk q)) = cancelingTimers q"
  "callingExpiredTimers (snd (read_clock clk q)) = callingExpiredTimers q" "timer_runs (snd (read_clock clk q)) = timer_runs q"
  "armed (snd (read_clock clk q)) = armed q"
  by (simp_all add: read_clock_def)

text \<open>What the operations keep beside the invariant: callbacks already run, and timers out of the queue.\<close>

definition tq_kept :: "timer_ptr set \<Rightarrow> TimerQueue \<Rightarrow> TimerQueue \<Rightarrow> bool" where
  "tq_kept D q q' \<longleftrightarrow>
     timer_runs q' = timer_runs q \<and> callingExpiredTimers q' = callingExpiredTimers q \<and>
     set (cancelingTimers q) \<subseteq> set (cancelingTimers q') \<and> (\<forall>p \<in> D. theap q' p = theap q p)"

lemma tq_kept_refl [simp]: "tq_kept D q q"
  by (simp add: tq_kept_def)

lemma tq_kept_trans: "tq_kept D q1 q2 \<Longrightarrow> tq_kept D q2 q3 \<Longrightarrow> tq_kept D q1 q3"
  by (auto simp: tq_kept_def)

text \<open>A timer that is out of the queue enters it.\<close>

lemma insert_timer_ok:
  assumes inv: "tq_inv D q" and p: "p \<in> D"
  obtains t where "theap q p = Some t"
    "insert_timer p q =
       Inr (timers q = [] \<or> tm_expiration t < fst (hd (timers q)),
            q\<lparr>timers := set_put (tm_expiration t, p) (timers q), activeTimers := set_put (p, tm_sequence t) (activeTimers q)\<rparr>)"
    "tq_inv (D - {p})
       (q\<lparr>timers := set_put (tm_expiration t, p) (timers q), activeTimers := set_put (p, tm_sequence t) (activeTimers q)\<rparr>)"
proof -
  obtain t where t: "theap q p = Some t" using tq_inv_detached [OF inv p] by blast
  define q1 where "q1 = q\<lparr>timers := set_put (tm_expiration t, p) (timers q),
                          activeTimers := set_put (p, tm_sequence t) (activeTimers q)\<rparr>"
  have inv1: "tq_inv (D - {p}) q1"
    using inv p t unfolding tq_inv_def q1_def by (auto simp: set_ok_put)
  have "insert_timer p q = Inr (timers q = [] \<or> tm_expiration t < fst (hd (timers q)), q1)"
    using tq_inv_sizes [OF inv] tq_inv_sizes [OF inv1] t p
    by (simp add: insert_timer_def timer_at_def tq_inv_timers [OF inv] tq_inv_active [OF inv] Let_def q1_def [symmetric])
  then show ?thesis using that t inv1 by (simp add: q1_def)
qed

lemma addTimerInLoop_ok:
  assumes inv: "tq_inv D q" and p: "p \<in> D"
  shows "\<exists>q'. addTimerInLoop clk p q = Inr q' \<and> tq_inv (D - {p}) q' \<and> theap q' = theap q \<and> tq_kept UNIV q q'"
proof -
  obtain t where t: "theap q p = Some t" and i: "insert_timer p q =
       Inr (timers q = [] \<or> tm_expiration t < fst (hd (timers q)),
            q\<lparr>timers := set_put (tm_expiration t, p) (timers q), activeTimers := set_put (p, tm_sequence t) (activeTimers q)\<rparr>)"
    and inv1: "tq_inv (D - {p})
       (q\<lparr>timers := set_put (tm_expiration t, p) (timers q), activeTimers := set_put (p, tm_sequence t) (activeTimers q)\<rparr>)"
    using insert_timer_ok [OF inv p] .
  define q1 where "q1 = q\<lparr>timers := set_put (tm_expiration t, p) (timers q),
                          activeTimers := set_put (p, tm_sequence t) (activeTimers q)\<rparr>"
  have "addTimerInLoop clk p q =
      Inr (if timers q = [] \<or> tm_expiration t < fst (hd (timers q)) then resetTimerfd clk (tm_expiration t) q1 else q1)"
    using t unfolding addTimerInLoop_def i q1_def [symmetric] by (simp add: timer_at_def q1_def)
  moreover have "tq_inv (D - {p}) (resetTimerfd clk (tm_expiration t) q1) = tq_inv (D - {p}) q1"
    by (rule tq_inv_cong) simp_all
  ultimately show ?thesis
    using inv1 by (auto simp: q1_def tq_kept_def)
qed

lemma new_timer_ok:
  assumes inv: "tq_inv D q" and al: "allocates new_addr"
  shows "returns (\<lambda>(p, q'). tq_inv (insert p D) q' \<and> p \<notin> dom (theap q) \<and> tq_kept D q q') (new_timer new_addr cb w i q)"
proof (cases "new_addr (theap q)")
  case None
  then show ?thesis by (simp add: new_timer_def returns_def)
next
  case (Some p)
  then have p: "theap q p = None" "p < UINTPTR_MAX" using al by (auto simp: allocates_def)
  moreover have "p \<notin> D" using inv p by (auto simp: tq_inv_def)
  ultimately show ?thesis
    using inv Some unfolding new_timer_def by (auto simp: tq_inv_def tq_kept_def)
qed

lemma addTimer_ok:
  assumes inv: "tq_inv D q" and al: "allocates new_addr"
  shows "returns (\<lambda>(i, q'). tq_inv D q' \<and> i \<in> set (activeTimers q') \<and> tq_kept D q q') (addTimer clk new_addr cb w iv q)"
  unfolding addTimer_def
proof (rule returns_rbind [OF new_timer_ok [OF inv al]])
  fix r
  assume "case r of (p, q') \<Rightarrow> tq_inv (insert p D) q' \<and> p \<notin> dom (theap q) \<and> tq_kept D q q'"
  then obtain p q1 where r: "r = (p, q1)" and inv1: "tq_inv (insert p D) q1" and p: "p \<notin> dom (theap q)" and k1: "tq_kept D q q1"
    by (cases r) blast
  obtain q2 where q2: "addTimerInLoop clk p q1 = Inr q2" "tq_inv (insert p D - {p}) q2" "theap q2 = theap q1" "tq_kept UNIV q1 q2"
    using addTimerInLoop_ok [OF inv1] by blast
  have "p \<notin> D" using inv p by (auto simp: tq_inv_def)
  then have inv2: "tq_inv D q2" using q2(2) by simp
  obtain t where t: "theap q2 p = Some t" using inv1 q2(3) by (auto simp: tq_inv_def)
  have "tq_kept D q q2" using k1 q2(4) by (auto simp: tq_kept_def)
  then show "returns (\<lambda>(i, q'). tq_inv D q' \<and> i \<in> set (activeTimers q') \<and> tq_kept D q q')
     (case r of (p, q1) \<Rightarrow> rbind (addTimerInLoop clk p q1) (\<lambda>q2. rbind (timer_at q2 p) (\<lambda>t. Inr ((p, tm_sequence t), q2))))"
    unfolding r using q2(1) inv2 t \<open>p \<notin> D\<close> by (simp add: timer_at_def tq_inv_active [OF inv2])
qed

text \<open>
  A timer of the queue is removed and freed; an expired one is noted, to be freed when the callbacks are through.
  Whatever the identifier is, also one of a timer that is long gone, no other timer is touched.
\<close>

lemma cancelInLoop_ok:
  assumes inv: "tq_inv D q"
  shows "\<exists>q'. cancelInLoop i q = Inr q' \<and> tq_inv D q' \<and> tq_kept D q q' \<and>
           theap q' = (if i \<in> set (activeTimers q) then (theap q)(fst i := None) else theap q)"
proof (cases "i \<in> set (activeTimers q)")
  case True
  obtain p s where i: "i = (p, s)" by fastforce
  obtain t where t: "theap q p = Some t" "tm_sequence t = s" "p \<notin> D" using True inv by (auto simp: i tq_inv_active)
  define q1 where "q1 = q\<lparr>timers := set_erase (tm_expiration t, p) (timers q), theap := (theap q)(p := None),
                          activeTimers := set_erase i (activeTimers q)\<rparr>"
  have "(tm_expiration t, p) \<in> set (timers q)" using t by (simp add: tq_inv_timers [OF inv])
  moreover have inv1: "tq_inv D q1"
    using inv t unfolding tq_inv_def q1_def i by (auto simp: set_ok_erase set_erase_set)
  ultimately have "cancelInLoop i q = Inr q1"
    using True t tq_inv_sizes [OF inv] tq_inv_sizes [OF inv1] unfolding cancelInLoop_def i
    by (simp add: timer_at_def delete_timer_def q1_def i)
  moreover have "tq_kept D q q1" "theap q1 = (theap q)(p := None)"
    using t(3) by (auto simp: tq_kept_def q1_def)
  ultimately show ?thesis using inv1 True by (simp add: i)
next
  case False
  have "sizes_agree (q\<lparr>cancelingTimers := set_put i (cancelingTimers q)\<rparr>)"
    using tq_inv_sizes [OF inv] by (simp add: sizes_agree_def)
  moreover have "tq_inv D (q\<lparr>cancelingTimers := set_put i (cancelingTimers q)\<rparr>) = tq_inv D q"
    by (rule tq_inv_cong) simp_all
  ultimately show ?thesis
    using False inv tq_inv_sizes [OF inv] unfolding cancelInLoop_def by (auto simp: tq_kept_def)
qed

lemma tq_inv_read_clock [simp]: "tq_inv D (snd (read_clock clk q)) = tq_inv D q"
  by (rule tq_inv_cong) simp_all

lemma tq_kept_read_clock [simp]: "tq_kept D (snd (read_clock clk q)) q' = tq_kept D q q'"
  by (simp add: tq_kept_def)

lemma timer_step_ok:
  assumes inv: "tq_inv D q" and al: "allocates new_addr"
  shows "returns (\<lambda>q'. tq_inv D q' \<and> tq_kept D q q') (timer_step clk new_addr c q)"
proof -
  have add: "returns (\<lambda>q'. tq_inv D q' \<and> tq_kept D q q') (rbind (addTimer clk new_addr cb w iv q1) (\<lambda>r. Inr (snd r)))"
    if "tq_inv D q1" "\<And>q'. tq_kept D q1 q' = tq_kept D q q'" for cb w iv q1
    by (rule returns_rbind [OF addTimer_ok [OF that(1) al]]) (auto simp: that(2))
  show ?thesis
  proof (cases c)
    case (Cancel i)
    then show ?thesis using cancelInLoop_ok [OF inv, of i] by (auto simp: loop_cancel_def)
  qed (simp_all add: runAt_def runAfter_def runEvery_def split_def Let_def add inv)
qed

lemma timer_steps_ok:
  "tq_inv D q \<Longrightarrow> allocates new_addr \<Longrightarrow> returns (\<lambda>q'. tq_inv D q' \<and> tq_kept D q q') (timer_steps clk new_addr cs q)"
proof (induction cs arbitrary: q)
  case (Cons c cs)
  show ?case
    unfolding timer_steps.simps
  proof (rule returns_rbind [OF timer_step_ok [OF Cons.prems]])
    fix q1 assume q1: "tq_inv D q1 \<and> tq_kept D q q1"
    then show "returns (\<lambda>q'. tq_inv D q' \<and> tq_kept D q q') (timer_steps clk new_addr cs q1)"
      using Cons.IH [OF _ Cons.prems(2), of q1] by (blast intro: returns_mono tq_kept_trans)
  qed
qed simp

section \<open>Expiry\<close>

text \<open>The timers that are due, in the order of their expiration.\<close>

definition due :: "TimeStamp \<Rightarrow> TimerQueue \<Rightarrow> (TimeStamp \<times> timer_ptr) list" where
  "due now q = filter (\<lambda>x. fst x \<le> now) (timers q)"

lemma due_before_sentry:
  assumes "tq_inv D q" "x \<in> set (timers q)"
  shows "x < (now, UINTPTR_MAX) \<longleftrightarrow> fst x \<le> now"
proof -
  have "snd x < UINTPTR_MAX" using assms tq_inv_timers [OF assms(1), of "fst x" "snd x"] by (auto simp: tq_inv_def)
  then show ?thesis by (cases x) (auto simp: less_prod_simp)
qed

lemma take_due: "tq_inv D q \<Longrightarrow> take (lower_bound (now, UINTPTR_MAX) (timers q)) (timers q) = due now q"
  by (simp add: take_lower_bound tq_inv_ok(1) due_def due_before_sentry cong: filter_cong)

lemma drop_due:
  "tq_inv D q \<Longrightarrow> drop (lower_bound (now, UINTPTR_MAX) (timers q)) (timers q) = filter (\<lambda>x. now < fst x) (timers q)"
  by (auto simp: drop_lower_bound tq_inv_ok(1) due_before_sentry not_le cong: filter_cong)

lemma due_ptrs:
  assumes "tq_inv D q"
  shows "distinct (map snd (due now q))" "p \<in> snd ` set (due now q) \<Longrightarrow> p \<notin> D \<and> p \<in> dom (theap q)"
proof -
  have "distinct (due now q)"
    using std_set.distinct_elems [OF tq_inv_ok(1) [OF assms]] by (simp add: due_def)
  moreover have "inj_on snd (set (due now q))"
    by (rule inj_onI) (auto simp: due_def tq_inv_timers [OF assms])
  ultimately show "distinct (map snd (due now q))" by (simp add: distinct_map)
  show "p \<in> snd ` set (due now q) \<Longrightarrow> p \<notin> D \<and> p \<in> dom (theap q)"
    by (auto simp: due_def tq_inv_timers [OF assms])
qed

lemma erase_active_ok:
  assumes "set_ok (activeTimers q)" "distinct (map snd ex)"
    "\<And>p. p \<in> snd ` set ex \<Longrightarrow> \<exists>t. theap q p = Some t \<and> (p, tm_sequence t) \<in> set (activeTimers q)"
  shows "\<exists>a. erase_active ex q = Inr (q\<lparr>activeTimers := a\<rparr>) \<and> set_ok a \<and>
           set a = set (activeTimers q) - {(p, tm_sequence t) | p t. p \<in> snd ` set ex \<and> theap q p = Some t}"
  using assms
proof (induction ex arbitrary: q)
  case (Cons it ex)
  obtain e p where it: "it = (e, p)" by fastforce
  obtain t where t: "theap q p = Some t" "(p, tm_sequence t) \<in> set (activeTimers q)"
    using Cons.prems(3) [of p] by (auto simp: it)
  define q1 where "q1 = q\<lparr>activeTimers := set_erase (p, tm_sequence t) (activeTimers q)\<rparr>"
  have a1: "set_ok (activeTimers q1)" "set (activeTimers q1) = set (activeTimers q) - {(p, tm_sequence t)}" "theap q1 = theap q"
    using Cons.prems(1) by (simp_all add: q1_def set_ok_erase set_erase_set)
  have "\<exists>t. theap q1 p' = Some t \<and> (p', tm_sequence t) \<in> set (activeTimers q1)" if "p' \<in> snd ` set ex" for p'
    using Cons.prems(2) Cons.prems(3) [of p'] that by (auto simp: it a1)
  then obtain a where a: "erase_active ex q1 = Inr (q1\<lparr>activeTimers := a\<rparr>)" "set_ok a"
     "set a = set (activeTimers q1) - {(p, tm_sequence t) | p t. p \<in> snd ` set ex \<and> theap q p = Some t}"
    using Cons.IH [OF a1(1)] Cons.prems(2) a1(3) by auto
  have "erase_active (it # ex) q = Inr (q\<lparr>activeTimers := a\<rparr>)"
    using t a(1) by (simp add: it timer_at_def q1_def)
  moreover have "set a = set (activeTimers q) - {(p, tm_sequence t) | p t. p \<in> snd ` set (it # ex) \<and> theap q p = Some t}"
    using a(3) t(1) by (auto simp: a1 it)
  ultimately show ?case using a(2) by blast
next
  case Nil
  then show ?case by (intro exI [of _ "activeTimers q"]) simp
qed

lemma getExpired_ok:
  assumes inv: "tq_inv D q"
  shows "\<exists>q1. getExpired now q = Inr (due now q, q1) \<and> tq_inv (D \<union> snd ` set (due now q)) q1 \<and>
           theap q1 = theap q \<and> timer_runs q1 = timer_runs q \<and> timers q1 = filter (\<lambda>x. now < fst x) (timers q) \<and>
           armed q1 = armed q"
proof -
  define n where "n = lower_bound (now, UINTPTR_MAX) (timers q)"
  define q0 where "q0 = q\<lparr>timers := drop n (timers q)\<rparr>"
  have dr: "drop n (timers q) = filter (\<lambda>x. now < fst x) (timers q)" using drop_due [OF inv] by (simp add: n_def)
  have "now < fst (timers q ! n)" if "n < length (timers q)"
  proof -
    have "timers q ! n \<in> set (drop n (timers q))" using that by (metis Cons_nth_drop_Suc list.set_intros(1))
    then show ?thesis by (simp add: dr)
  qed
  moreover have "n \<le> length (timers q)" by (simp add: n_def lower_bound_def length_takeWhile_le)
  ultimately have mid: "n = length (timers q) \<or> now < fst (timers q ! n)" by force
  have "\<exists>t. theap q0 p = Some t \<and> (p, tm_sequence t) \<in> set (activeTimers q0)" if "p \<in> snd ` set (due now q)" for p
    using due_ptrs(2) [OF inv that] by (auto simp: q0_def tq_inv_active [OF inv])
  then obtain a where a: "erase_active (due now q) q0 = Inr (q0\<lparr>activeTimers := a\<rparr>)" "set_ok a"
     "set a = set (activeTimers q0) - {(p, tm_sequence t) | p t. p \<in> snd ` set (due now q) \<and> theap q0 p = Some t}"
    using erase_active_ok [of q0 "due now q"] due_ptrs(1) [OF inv] tq_inv_ok(2) [OF inv] by (auto simp: q0_def)
  define q1 where "q1 = q0\<lparr>activeTimers := a\<rparr>"
  have gone: "e \<le> now \<longleftrightarrow> p \<in> snd ` set (due now q)" if ep: "(e, p) \<in> set (timers q)" for e p
  proof
    assume "e \<le> now"
    then have "(e, p) \<in> set (due now q)" using ep by (simp add: due_def)
    then show "p \<in> snd ` set (due now q)" by (rule rev_image_eqI) simp
  qed (use ep in \<open>auto simp: due_def tq_inv_timers [OF inv]\<close>)
  have inv1: "tq_inv (D \<union> snd ` set (due now q)) q1"
    unfolding tq_inv_def
  proof (intro conjI allI)
    show "set_ok (timers q1)" using tq_inv_ok(1) [OF inv] by (simp add: q1_def q0_def dr set_ok_filter)
    show "set_ok (activeTimers q1)" using a(2) by (simp add: q1_def)
    show "(e, p) \<in> set (timers q1) \<longleftrightarrow>
        p \<notin> D \<union> snd ` set (due now q) \<and> (\<exists>t. theap q1 p = Some t \<and> tm_expiration t = e)" for e p
      using gone [of e p] unfolding Un_iff by (simp add: q1_def q0_def dr tq_inv_timers [OF inv] not_le) (metis not_le)
    show "(p, s) \<in> set (activeTimers q1) \<longleftrightarrow>
        p \<notin> D \<union> snd ` set (due now q) \<and> (\<exists>t. theap q1 p = Some t \<and> tm_sequence t = s)" for p s
      by (auto simp: q1_def q0_def a(3) tq_inv_active [OF inv])
    show "D \<union> snd ` set (due now q) \<subseteq> dom (theap q1)"
      using inv due_ptrs(2) [OF inv] by (auto simp: q1_def q0_def tq_inv_def)
    show "\<forall>p\<in>dom (theap q1). p < UINTPTR_MAX" using inv by (simp add: q1_def q0_def tq_inv_def)
  qed
  have "getExpired now q = Inr (due now q, q1)"
    using tq_inv_sizes [OF inv] tq_inv_sizes [OF inv1] mid a(1) take_due [OF inv, of now]
    unfolding getExpired_def by (simp add: Let_def n_def [symmetric] q0_def [symmetric] q1_def [symmetric])
  then show ?thesis using inv1 by (simp add: q1_def q0_def dr)
qed

lemma run_expired_ok:
  assumes "tq_inv D q" "allocates new_addr" "snd ` set ex \<subseteq> D"
  shows "returns (\<lambda>q'. tq_inv D q' \<and> timer_runs q' = timer_runs q @ map snd ex \<and> (\<forall>p \<in> D. theap q' p = theap q p))
           (run_expired clk new_addr acts ex q)"
  using assms
proof (induction ex arbitrary: q)
  case (Cons it ex)
  obtain t where t: "theap q (snd it) = Some t" using tq_inv_detached [OF Cons.prems(1), of "snd it"] Cons.prems(3) by auto
  define q1 where "q1 = q\<lparr>timer_runs := timer_runs q @ [snd it]\<rparr>"
  have inv1: "tq_inv D q1" using Cons.prems(1) by (simp add: q1_def tq_inv_def)
  have "returns (\<lambda>q'. tq_inv D q' \<and> timer_runs q' = timer_runs q @ map snd (it # ex) \<and> (\<forall>p \<in> D. theap q' p = theap q p))
          (rbind (timer_steps clk new_addr (acts (tm_callback t) q1) q1) (run_expired clk new_addr acts ex))"
  proof (rule returns_rbind [OF timer_steps_ok [OF inv1 Cons.prems(2)]])
    fix q2 assume q2: "tq_inv D q2 \<and> tq_kept D q1 q2"
    then have "returns (\<lambda>q'. tq_inv D q' \<and> timer_runs q' = timer_runs q2 @ map snd ex \<and> (\<forall>p \<in> D. theap q' p = theap q2 p))
          (run_expired clk new_addr acts ex q2)"
      using Cons.IH [of q2] Cons.prems by simp
    then show "returns (\<lambda>q'. tq_inv D q' \<and> timer_runs q' = timer_runs q @ map snd (it # ex) \<and> (\<forall>p \<in> D. theap q' p = theap q p))
          (run_expired clk new_addr acts ex q2)"
      by (rule returns_mono) (use q2 in \<open>auto simp: tq_kept_def q1_def\<close>)
  qed
  then show ?case using t by (simp add: timer_at_def q1_def Let_def)
qed simp

text \<open>What becomes of a timer that has run: it starts again when it repeats and was not cancelled, or is freed.\<close>

definition after_run :: "TimeStamp \<Rightarrow> TimerId list \<Rightarrow> timer_ptr \<Rightarrow> Timer \<Rightarrow> Timer option" where
  "after_run now canceled p t =
     (if tm_repeat t \<and> (p, tm_sequence t) \<notin> set canceled then Some (timer_restart now t) else None)"

lemma reset_expired_ok:
  assumes "tq_inv D q" "distinct (map snd ex)" "snd ` set ex \<subseteq> D"
  shows "\<exists>q'. reset_expired ex now q = Inr q' \<and> tq_inv (D - snd ` set ex) q' \<and>
           timer_runs q' = timer_runs q \<and> cancelingTimers q' = cancelingTimers q \<and> armed q' = armed q \<and>
           theap q' = (\<lambda>p. if p \<in> snd ` set ex then Option.bind (theap q p) (after_run now (cancelingTimers q) p) else theap q p)"
  using assms
proof (induction ex arbitrary: q D)
  case (Cons it ex)
  obtain e p where it: "it = (e, p)" by fastforce
  obtain t where t: "theap q p = Some t" using tq_inv_detached [OF Cons.prems(1), of p] Cons.prems(3) by (auto simp: it)
  have p: "p \<in> D" "p \<notin> snd ` set ex" using Cons.prems(2,3) by (auto simp: it)
  have "\<exists>q1. (if tm_repeat t \<and> (p, tm_sequence t) \<notin> set (cancelingTimers q)
         then rbind (insert_timer p (q\<lparr>theap := (theap q)(p \<mapsto> timer_restart now t)\<rparr>)) (\<lambda>r. Inr (snd r))
         else delete_timer p q) = Inr q1 \<and> tq_inv (D - {p}) q1 \<and> theap q1 = (theap q)(p := after_run now (cancelingTimers q) p t) \<and>
         timer_runs q1 = timer_runs q \<and> cancelingTimers q1 = cancelingTimers q \<and> armed q1 = armed q"
  proof (cases "tm_repeat t \<and> (p, tm_sequence t) \<notin> set (cancelingTimers q)")
    case True
    define q0 where "q0 = q\<lparr>theap := (theap q)(p \<mapsto> timer_restart now t)\<rparr>"
    have "tq_inv D q0" using Cons.prems(1) p(1) unfolding tq_inv_def q0_def by auto
    from insert_timer_ok [OF this p(1)] obtain b T A where i: "insert_timer p q0 = Inr (b, q0\<lparr>timers := T, activeTimers := A\<rparr>)"
      and "tq_inv (D - {p}) (q0\<lparr>timers := T, activeTimers := A\<rparr>)" by metis
    then have "rbind (insert_timer p q0) (\<lambda>r. Inr (snd r)) = Inr (q0\<lparr>timers := T, activeTimers := A\<rparr>)"
      "tq_inv (D - {p}) (q0\<lparr>timers := T, activeTimers := A\<rparr>)" by simp_all
    then show ?thesis using True by (simp add: after_run_def q0_def)
  next
    case False
    have "tq_inv (D - {p}) (q\<lparr>theap := (theap q)(p := None)\<rparr>)"
      using Cons.prems(1) p(1) unfolding tq_inv_def by auto
    then show ?thesis using False t by (auto simp: delete_timer_def timer_at_def after_run_def)
  qed
  then obtain q1 where q1: "(if tm_repeat t \<and> (p, tm_sequence t) \<notin> set (cancelingTimers q)
         then rbind (insert_timer p (q\<lparr>theap := (theap q)(p \<mapsto> timer_restart now t)\<rparr>)) (\<lambda>r. Inr (snd r))
         else delete_timer p q) = Inr q1" "tq_inv (D - {p}) q1" "theap q1 = (theap q)(p := after_run now (cancelingTimers q) p t)"
         "timer_runs q1 = timer_runs q" "cancelingTimers q1 = cancelingTimers q" "armed q1 = armed q" by blast
  have "reset_expired (it # ex) now q = reset_expired ex now q1"
    unfolding it reset_expired.simps snd_conv timer_at_def t option.case rbind_simps q1(1) ..
  moreover obtain q' where q': "reset_expired ex now q1 = Inr q'" "tq_inv (D - {p} - snd ` set ex) q'"
    "timer_runs q' = timer_runs q1" "cancelingTimers q' = cancelingTimers q1" "armed q' = armed q1"
    "theap q' = (\<lambda>p. if p \<in> snd ` set ex then Option.bind (theap q1 p) (after_run now (cancelingTimers q1) p) else theap q1 p)"
    using Cons.IH [OF q1(2)] Cons.prems(2,3) p by (auto simp: it)
  moreover have "theap q' = (\<lambda>p. if p \<in> snd ` set (it # ex)
      then Option.bind (theap q p) (after_run now (cancelingTimers q) p) else theap q p)"
    using p t by (auto simp: q'(6) q1(3,5) it fun_eq_iff)
  moreover have "D - {p} - snd ` set ex = D - snd ` set (it # ex)" by (auto simp: it)
  ultimately show ?case using q1(4-6) by auto
qed (simp add: fun_eq_iff)

lemma reset_queue_ok:
  assumes "tq_inv D q" "distinct (map snd ex)" "snd ` set ex \<subseteq> D"
  shows "\<exists>q'. reset_queue clk ex now q = Inr q' \<and> tq_inv (D - snd ` set ex) q' \<and>
           timer_runs q' = timer_runs q \<and> cancelingTimers q' = cancelingTimers q \<and>
           theap q' = (\<lambda>p. if p \<in> snd ` set ex then Option.bind (theap q p) (after_run now (cancelingTimers q) p) else theap q p) \<and>
           ((\<forall>t \<in> ran (theap q'). tm_expiration t = 0) \<longrightarrow> armed q' = armed q)"
proof -
  obtain q1 where q1: "reset_expired ex now q = Inr q1" "tq_inv (D - snd ` set ex) q1" "timer_runs q1 = timer_runs q"
    "cancelingTimers q1 = cancelingTimers q" "armed q1 = armed q"
    "theap q1 = (\<lambda>p. if p \<in> snd ` set ex then Option.bind (theap q p) (after_run now (cancelingTimers q) p) else theap q p)"
    using reset_expired_ok [OF assms] by blast
  have first: "\<exists>t. theap q1 (snd (hd (timers q1))) = Some t \<and> fst (hd (timers q1)) = tm_expiration t" if "timers q1 \<noteq> []"
    using tq_inv_timers [OF q1(2), of "fst (hd (timers q1))" "snd (hd (timers q1))"] hd_in_set [OF that] by auto
  define e where "e = (if timers q1 = [] then invalid else fst (hd (timers q1)))"
  have "reset_queue clk ex now q = Inr (if 0 < e then resetTimerfd clk e q1 else q1)"
    using first by (auto simp: reset_queue_def q1(1) e_def timer_at_def)
  moreover have "tq_inv (D - snd ` set ex) (resetTimerfd clk e q1)"
    using q1(2) by (subst tq_inv_cong [of _ q1]) simp_all
  moreover have "\<not> 0 < e" if "\<forall>t \<in> ran (theap q1). tm_expiration t = 0"
  proof (cases "timers q1 = []")
    case False
    then obtain t where "theap q1 (snd (hd (timers q1))) = Some t" "e = tm_expiration t" using first by (auto simp: e_def)
    then show ?thesis using that ranI by force
  qed (simp add: e_def invalid_def)
  ultimately show ?thesis using q1(2-5) by (auto simp: q1(6) [symmetric])
qed

lemma timer_handleRead_ok:
  assumes inv: "tq_inv D q" and al: "allocates new_addr" and now: "now = fst (read_clock clk q)"
  shows "returns (\<lambda>q'. tq_inv D q' \<and> timer_runs q' = timer_runs q @ map snd (due now q) \<and>
             (\<forall>p \<in> snd ` set (due now q). theap q' p = Option.bind (theap q p) (after_run now (cancelingTimers q') p)))
           (timer_handleRead clk new_addr acts q)"
proof -
  define q0 ex where "q0 = snd (read_clock clk q)" and "ex = due now q"
  have "due now q0 = ex" by (simp add: due_def q0_def ex_def)
  then obtain q1 where q1: "getExpired now q0 = Inr (ex, q1)" "tq_inv (D \<union> snd ` set ex) q1" "theap q1 = theap q"
    "timer_runs q1 = timer_runs q"
    using getExpired_ok [of D q0 now] inv by (auto simp: q0_def)
  define q1' where "q1' = q1\<lparr>callingExpiredTimers := True, cancelingTimers := []\<rparr>"
  have inv1: "tq_inv (D \<union> snd ` set ex) q1'" using q1(2) by (simp add: q1'_def tq_inv_def)
  have ex: "distinct (map snd ex)" "D \<union> snd ` set ex - snd ` set ex = D"
    using due_ptrs(1) [OF inv] due_ptrs(2) [OF inv] by (auto simp: ex_def)
  let ?P = "\<lambda>q'. tq_inv D q' \<and> timer_runs q' = timer_runs q @ map snd ex \<and>
             (\<forall>p \<in> snd ` set ex. theap q' p = Option.bind (theap q p) (after_run now (cancelingTimers q') p))"
  have "returns ?P (rbind (run_expired clk new_addr acts ex q1') (\<lambda>q2. reset_queue clk ex now (q2\<lparr>callingExpiredTimers := False\<rparr>)))"
  proof (rule returns_rbind [OF run_expired_ok [OF inv1 al]])
    fix q2
    assume q2: "tq_inv (D \<union> snd ` set ex) q2 \<and> timer_runs q2 = timer_runs q1' @ map snd ex \<and>
      (\<forall>p\<in>D \<union> snd ` set ex. theap q2 p = theap q1' p)"
    have "tq_inv (D \<union> snd ` set ex) (q2\<lparr>callingExpiredTimers := False\<rparr>)" using q2 by (simp add: tq_inv_def)
    from reset_queue_ok [OF this ex(1) Un_upper2, of clk now] show "returns ?P (reset_queue clk ex now (q2\<lparr>callingExpiredTimers := False\<rparr>))"
      using q2 q1(3,4) by (clarsimp simp: ex(2) q1'_def)
  qed simp
  then show ?thesis
    by (simp add: timer_handleRead_def split_def Let_def q1(1) now [symmetric] q0_def [symmetric] q1'_def ex_def)
qed

text \<open>The life of a queue: calls of the application and expiries of the descriptor, in any order.\<close>

datatype timer_event = Called timer_call | Fired

fun timer_trace ::
  "(nat \<Rightarrow> int \<times> int) \<Rightarrow> (timer_heap \<Rightarrow> timer_ptr option) \<Rightarrow> (nat \<Rightarrow> TimerQueue \<Rightarrow> timer_call list) \<Rightarrow>
     timer_event list \<Rightarrow> TimerQueue \<Rightarrow> TimerQueue result" where
  "timer_trace clk new_addr acts [] q = Inr q"
| "timer_trace clk new_addr acts (Called c # es) q = rbind (timer_step clk new_addr c q) (timer_trace clk new_addr acts es)"
| "timer_trace clk new_addr acts (Fired # es) q = rbind (timer_handleRead clk new_addr acts q) (timer_trace clk new_addr acts es)"

lemma timer_trace_ok:
  assumes "tq_inv D q" "allocates new_addr"
  shows "returns (tq_inv D) (timer_trace clk new_addr acts es q)"
  using assms
proof (induction clk new_addr acts es q rule: timer_trace.induct)
  case (2 clk new_addr acts c es q)
  show ?case
    unfolding timer_trace.simps by (rule returns_rbind_from [OF timer_step_ok [OF 2(2,3)]]) (use 2 in blast)
next
  case (3 clk new_addr acts es q)
  show ?case
    unfolding timer_trace.simps
    by (rule returns_rbind_from [OF timer_handleRead_ok [OF 3(2,3) refl]]) (use 3 in blast)
qed simp

lemma delete_timers_ok:
  "distinct (map snd ts) \<Longrightarrow> snd ` set ts \<subseteq> dom (theap q) \<Longrightarrow>
     \<exists>q'. delete_timers ts q = Inr q' \<and> theap q' = theap q |` (- snd ` set ts)"
proof (induction ts arbitrary: q)
  case (Cons it ts)
  obtain t where t: "theap q (snd it) = Some t" using Cons.prems(2) by auto
  define q1 where "q1 = q\<lparr>theap := (theap q)(snd it := None)\<rparr>"
  have "delete_timers (it # ts) q = delete_timers ts q1" using t by (simp add: delete_timer_def timer_at_def q1_def)
  moreover have "snd ` set ts \<subseteq> dom (theap q1)" using Cons.prems by (simp add: q1_def) blast
  moreover have "theap q1 |` (- snd ` set ts) = theap q |` (- snd ` set (it # ts))"
    by (auto simp: q1_def restrict_map_def fun_eq_iff)
  ultimately show ?case using Cons.IH [of q1] Cons.prems(1) by simp
qed (simp add: restrict_map_def)

text \<open>
  C12 (safety). Whatever the application does, from its callbacks too, and whenever the descriptor fires, the queue never
  fails an assertion, never touches a freed timer and never frees one twice; and its destructor leaves no timer behind.
\<close>

theorem timer_queue_safe:
  assumes "allocates new_addr"
  shows "returns (\<lambda>q. theap q = Map.empty)
           (rbind (timer_trace clk new_addr acts es (mkTimerQueue n)) timer_queue_destroy)"
proof -
  have "tq_inv {} (mkTimerQueue n)" by (simp add: tq_inv_def mkTimerQueue_def)
  then have "returns (tq_inv {}) (timer_trace clk new_addr acts es (mkTimerQueue n))"
    using assms by (rule timer_trace_ok)
  then show ?thesis
  proof (rule returns_rbind)
    fix q assume inv: "tq_inv {} q"
    have "due (Max (insert 0 (fst ` set (timers q)))) q = timers q"
      unfolding due_def by (rule filter_True) simp
    then have "distinct (map snd (timers q))" using due_ptrs(1) [OF inv] by metis
    moreover have "snd ` set (timers q) = dom (theap q)"
    proof -
      have "snd ` set (timers q) = {p. \<exists>e. (e, p) \<in> set (timers q)}" by force
      also have "\<dots> = dom (theap q)" by (auto simp: tq_inv_timers [OF inv])
      finally show ?thesis .
    qed
    ultimately show "returns (\<lambda>q. theap q = Map.empty) (timer_queue_destroy q)"
      using delete_timers_ok [of "timers q" q] by (auto simp: timer_queue_destroy_def restrict_map_def fun_eq_iff)
  qed
qed

text \<open>
  C28 (functional). When the descriptor fires, the callbacks of the timers that are due run, each once and in the order
  of their expiration; then each of them starts again if it repeats and was not cancelled in the meantime, and is
  freed otherwise.
\<close>

theorem timer_handleRead_runs_due_timers:
  assumes "tq_inv D q" and "allocates new_addr" and "now = fst (read_clock clk q)"
  shows "returns (\<lambda>q'. tq_inv D q' \<and> timer_runs q' = timer_runs q @ map snd (due now q) \<and>
             (\<forall>p \<in> snd ` set (due now q). theap q' p = Option.bind (theap q p) (after_run now (cancelingTimers q') p)))
           (timer_handleRead clk new_addr acts q)"
  by (rule timer_handleRead_ok [OF assms])


text \<open>An allocator: the first free address of a small memory.\<close>

definition first_free :: "timer_heap \<Rightarrow> timer_ptr option" where
  "first_free h = List.find (\<lambda>p. h p = None) [16, 32, 48, 64]"

lemma first_free_allocates: "allocates first_free"
  by (auto simp: allocates_def first_free_def find_Some_iff UINTPTR_MAX_def nth_Cons split: nat.splits)

theorem timer_queue_safe_witness:
  "returns (\<lambda>q. theap q = Map.empty)
     (rbind (timer_trace (\<lambda>n. (1700000000, int n)) first_free (\<lambda>cb q. [Cancel (16, 0), Run_after no_interval 2])
               [Called (Run_every \<lparr>fp_positive = True, fp_micros = 500\<rparr> 1), Fired, Fired] (mkTimerQueue 0))
        timer_queue_destroy)"
  by (rule timer_queue_safe [OF first_free_allocates])

text \<open>A queue with a repeating timer, due at 0.\<close>

definition one_repeating :: TimerQueue where
  "one_repeating =
     (mkTimerQueue 1)\<lparr>theap := [16 \<mapsto> mkTimer 1 0 \<lparr>fp_positive = True, fp_micros = 500\<rparr> 0],
                      timers := [(0, 16)], activeTimers := [(16, 0)]\<rparr>"

lemma one_repeating_inv: "tq_inv {} one_repeating"
  by (auto simp: tq_inv_def one_repeating_def mkTimerQueue_def mkTimer_def set_ok_def UINTPTR_MAX_def)

theorem timer_handleRead_runs_due_timers_witness:
  "returns (\<lambda>q'. tq_inv {} q' \<and> timer_runs q' = timer_runs one_repeating @ [16] \<and>
       theap q' 16 = Option.bind (theap one_repeating 16) (after_run 0 (cancelingTimers q') 16))
     (timer_handleRead (\<lambda>n. (1700000000, int n)) first_free (\<lambda>cb q. []) one_repeating)"
proof -
  have d: "map snd (due 0 one_repeating) = [16]" by (simp add: due_def one_repeating_def)
  then have "16 \<in> snd ` set (due 0 one_repeating)" by (metis list.set_intros(1) set_map)
  then show ?thesis
    using timer_handleRead_runs_due_timers [OF one_repeating_inv first_free_allocates, of 0 "\<lambda>n. (1700000000, int n)" "\<lambda>cb q. []"]
    by (auto simp: read_clock_def timestamp_now_def mkTimeStamp_def d returns_def split: sum.splits)
qed

section \<open>Repeating timers\<close>












text \<open>With a callback that adds a timer, the descriptor is set, and the repeating timer is still in the queue when it fires.\<close>

lemma repeating_timer_revived:
  "rbind (timer_handleRead (\<lambda>n. (1700000000, int n)) first_free (\<lambda>cb q. [Run_after no_interval 3]) one_repeating)
     (\<lambda>q'. Inr (length (armed q'), map snd (timers q'))) = Inr (1, [16, 32])"
  by (simp add: timer_handleRead_def read_clock_def getExpired_def sizes_agree_def lower_bound_def Let_def timer_at_def one_repeating_def
      mkTimerQueue_def mkTimer_def runAfter_def runAt_def addTimer_def new_timer_def first_free_def addTimerInLoop_def insert_timer_def
      resetTimerfd_def reset_queue_def timer_restart_def addTime_def mkTimeStamp_def timestamp_now_def UINTPTR_MAX_def no_interval_def
      set_put_def set_erase_def invalid_def insort_insert_key_def)

end
