(* ===== verification/Tcp_Server.thy ===== *)
theory Tcp_Server
  imports Channel Calendar
begin

text \<open>
  The server side of the connections: \<^verbatim>\<open>network::accept\<close> (\<^verbatim>\<open>src/network/SocketsOps.cpp\<close>), \<^verbatim>\<open>Acceptor\<close>, \<^verbatim>\<open>EventLoopThreadPool\<close>
  and \<^verbatim>\<open>TcpServer\<close> (\<^verbatim>\<open>inc/network\<close>, \<^verbatim>\<open>src/network\<close>).  Event loops are named by numbers.  What the server hands to a loop, with
  \<^verbatim>\<open>runInLoop\<close> or \<^verbatim>\<open>queueInLoop\<close>, is recorded; \<open>Event_Loop\<close> shows that a loop runs it once and in order.  All operations
  run in the thread of the server's own loop.  Outside are the system calls: their results are arguments.
\<close>

section \<open>Accepting\<close>

datatype errno = EAGAIN | ECONNABORTED | EINTR | EPROTO | EPERM | EMFILE | EBADF | EFAULT | EINVAL | ENFILE | ENOBUFS | ENOMEM
  | ENOTSOCK | EOPNOTSUPP | EINPROGRESS | EISCONN | EADDRINUSE | EADDRNOTAVAIL | ECONNREFUSED | ENETUNREACH | EACCES
  | EAFNOSUPPORT | EALREADY | EOTHER int

text \<open>The result of \<^verbatim>\<open>accept4\<close>: a descriptor, or an error.\<close>

definition sockets_accept :: "errno + int \<Rightarrow> (errno + int) result" where
  "sockets_accept r =
     (case r of
        Inr connfd \<Rightarrow> Inr (Inr connfd)
      | Inl savedErrno \<Rightarrow>
          if savedErrno \<in> {EAGAIN, ECONNABORTED, EINTR, EPROTO, EPERM, EMFILE} then Inr (Inl savedErrno) else Inl Fatal_Log)"

text \<open>The acceptor and the descriptors of the process: \<open>fds\<close> are those that are open.\<close>

record Acceptor =
  acceptChannel :: Channel
  listening :: bool
  idleFd :: int
  fds :: "int set"

definition mkAcceptor :: "int \<Rightarrow> int \<Rightarrow> int set \<Rightarrow> Acceptor result" where
  "mkAcceptor sockfd idle open_fds =
     rbind (passert (0 \<le> idle)) (\<lambda>_.
       Inr \<lparr>acceptChannel = mkChannel sockfd, listening = False, idleFd = idle, fds = insert idle (insert sockfd open_fds)\<rparr>)"

definition acceptor_listen :: "Acceptor \<Rightarrow> Acceptor" where
  "acceptor_listen a = a\<lparr>listening := True, acceptChannel := enableReading (acceptChannel a)\<rparr>"

text \<open>The result is the new connection that is passed on, if there is one.  \<open>second\<close> and \<open>reopened\<close>: what \<^verbatim>\<open>accept\<close> and \<^verbatim>\<open>open\<close>
  give when the descriptors have run out, \<open>-1\<close> for a failure.\<close>

definition acceptor_handleRead ::
  "bool \<Rightarrow> errno + int \<Rightarrow> int \<Rightarrow> int \<Rightarrow> Acceptor \<Rightarrow> (int option \<times> Acceptor) result" where
  "acceptor_handleRead has_callback first second reopened a =
     rbind (sockets_accept first) (\<lambda>r.
       Inr (case r of
              Inr connfd \<Rightarrow> if has_callback then (Some connfd, a\<lparr>fds := insert connfd (fds a)\<rparr>) else (None, a)
            | Inl e \<Rightarrow>
                if e = EMFILE
                then (None, a\<lparr>fds := (let f1 = fds a - {idleFd a};
                                         f2 = (if second < 0 then f1 else insert second f1) - {second}
                                     in if reopened < 0 then f2 else insert reopened f2),
                               idleFd := reopened\<rparr>)
                else (None, a)))"

definition acceptor_destroy :: "Acceptor \<Rightarrow> Acceptor result" where
  "acceptor_destroy a =
     rbind (channel_remove (disableAll (acceptChannel a))) (\<lambda>ch.
       Inr (a\<lparr>acceptChannel := ch, fds := fds a - {idleFd a}\<rparr>))"

section \<open>The pool of loops\<close>

record EventLoopThreadPool =
  baseLoop :: nat
  pool_name :: bytes
  pool_started :: bool
  numThreads :: int
  next_loop :: nat
  pool_loops :: "nat list"
  pool_threads :: "bytes list"

definition mkEventLoopThreadPool :: "nat \<Rightarrow> bytes \<Rightarrow> EventLoopThreadPool" where
  "mkEventLoopThreadPool base name =
     \<lparr>baseLoop = base, pool_name = name, pool_started = False, numThreads = 0, next_loop = 0, pool_loops = [], pool_threads = []\<rparr>"

definition setThreadNum :: "int \<Rightarrow> EventLoopThreadPool \<Rightarrow> EventLoopThreadPool" where
  "setThreadNum n p = p\<lparr>numThreads := n\<rparr>"

text \<open>\<open>started_loop i\<close> is the loop that the \<open>i\<close>-th thread creates; the result has the loops the init callback is called for.\<close>

definition pool_start :: "(nat \<Rightarrow> nat) \<Rightarrow> bool \<Rightarrow> EventLoopThreadPool \<Rightarrow> (nat list \<times> EventLoopThreadPool) result" where
  "pool_start started_loop has_cb p =
     rbind (passert (\<not> pool_started p)) (\<lambda>_.
       let new = map started_loop [0..<nat (numThreads p)];
           names = map (\<lambda>i. pool_name p @ nat_to_string i) [0..<nat (numThreads p)];
           p1 = p\<lparr>pool_started := True, pool_loops := pool_loops p @ new, pool_threads := pool_threads p @ names\<rparr>
       in Inr (if has_cb then if numThreads p = 0 then [baseLoop p] else new else [], p1))"

text \<open>The loops in which a call of \<^verbatim>\<open>quit\<close> is queued.\<close>

definition pool_stop :: "EventLoopThreadPool \<Rightarrow> (nat list \<times> EventLoopThreadPool) result" where
  "pool_stop p =
     rbind (passert (pool_started p)) (\<lambda>_.
       Inr (pool_loops p, p\<lparr>pool_threads := [], pool_loops := [], pool_started := False\<rparr>))"

definition getNextLoop :: "EventLoopThreadPool \<Rightarrow> (nat \<times> EventLoopThreadPool) result" where
  "getNextLoop p =
     rbind (passert (pool_started p)) (\<lambda>_.
       if pool_loops p = [] then Inr (baseLoop p, p)
       else if next_loop p < length (pool_loops p)
       then let n = Suc (next_loop p)
            in Inr (pool_loops p ! next_loop p, p\<lparr>next_loop := if length (pool_loops p) \<le> n then 0 else n\<rparr>)
       else Inl Out_Of_Bounds)"

definition getAllLoops :: "EventLoopThreadPool \<Rightarrow> nat list result" where
  "getAllLoops p =
     rbind (passert (pool_started p)) (\<lambda>_. Inr (if pool_loops p = [] then [baseLoop p] else pool_loops p))"

section \<open>The server\<close>

record server_conn =
  conn_name :: bytes
  conn_loop :: nat
  conn_fd :: int

datatype server_task = Connect_established bytes | Connect_destroyed bytes | Listen

record TcpServer =
  srv_loop :: nat
  srv_ipPort :: bytes
  srv_name :: bytes
  srv_pool :: EventLoopThreadPool
  srv_started :: bool
  nextConnId :: int
  connections :: "bytes \<rightharpoonup> server_conn"
  posted :: "(nat \<times> server_task) list"

definition CheckLoopNotNull :: "nat option \<Rightarrow> nat result" where
  "CheckLoopNotNull loop = (case loop of None \<Rightarrow> Inl Fatal_Log | Some l \<Rightarrow> Inr l)"

definition mkTcpServer :: "nat option \<Rightarrow> bytes \<Rightarrow> bytes \<Rightarrow> TcpServer result" where
  "mkTcpServer loop ipPort name =
     rbind (CheckLoopNotNull loop) (\<lambda>l.
       Inr \<lparr>srv_loop = l, srv_ipPort = ipPort, srv_name = name, srv_pool = mkEventLoopThreadPool l name, srv_started = False,
            nextConnId = 1, connections = Map.empty, posted = []\<rparr>)"

definition server_setThreadNum :: "int \<Rightarrow> TcpServer \<Rightarrow> TcpServer" where
  "server_setThreadNum n s = s\<lparr>srv_pool := setThreadNum n (srv_pool s)\<rparr>"

definition server_start :: "(nat \<Rightarrow> nat) \<Rightarrow> bool \<Rightarrow> TcpServer \<Rightarrow> TcpServer result" where
  "server_start started_loop has_cb s =
     (if srv_started s then Inr s
      else rbind (pool_start started_loop has_cb (srv_pool s)) (\<lambda>(_, p1).
             Inr (s\<lparr>srv_started := True, srv_pool := p1, posted := posted s @ [(srv_loop s, Listen)]\<rparr>)))"

definition connName :: "TcpServer \<Rightarrow> int \<Rightarrow> bytes" where
  "connName s i = srv_name s @ ''-'' @ srv_ipPort s @ ''#'' @ int_to_string i"

definition newConnection :: "int \<Rightarrow> TcpServer \<Rightarrow> TcpServer result" where
  "newConnection sockfd s =
     rbind (getNextLoop (srv_pool s)) (\<lambda>(ioLoop, p1).
       let nm = connName s (nextConnId s)
       in Inr (s\<lparr>srv_pool := p1, nextConnId := to_signed 32 (nextConnId s + 1),
                 connections := (connections s)(nm \<mapsto> \<lparr>conn_name = nm, conn_loop = ioLoop, conn_fd = sockfd\<rparr>),
                 posted := posted s @ [(ioLoop, Connect_established nm)]\<rparr>))"

definition removeConnectionInLoop :: "server_conn \<Rightarrow> TcpServer \<Rightarrow> TcpServer" where
  "removeConnectionInLoop c s =
     s\<lparr>connections := (connections s)(conn_name c := None),
       posted := posted s @ [(conn_loop c, Connect_destroyed (conn_name c))]\<rparr>"

text \<open>The destructor, for the connections in the order of its iteration.\<close>

fun server_destroy :: "server_conn list \<Rightarrow> TcpServer \<Rightarrow> TcpServer" where
  "server_destroy [] s = s"
| "server_destroy (c # cs) s =
     server_destroy cs (s\<lparr>posted := posted s @ [(conn_loop c, Connect_destroyed (conn_name c))]\<rparr>)"

section \<open>Round robin\<close>

text \<open>The loop that serves the \<open>k\<close>-th connection.\<close>

definition loop_for :: "EventLoopThreadPool \<Rightarrow> nat \<Rightarrow> nat" where
  "loop_for p k = (if pool_loops p = [] then baseLoop p else pool_loops p ! (k mod length (pool_loops p)))"

definition pool_at :: "nat \<Rightarrow> EventLoopThreadPool \<Rightarrow> bool" where
  "pool_at k p \<longleftrightarrow> pool_started p \<and> (pool_loops p \<noteq> [] \<longrightarrow> next_loop p = k mod length (pool_loops p))"

lemma getNextLoop_round_robin:
  assumes "pool_at k p"
  shows "\<exists>n. getNextLoop p = Inr (loop_for p k, p\<lparr>next_loop := n\<rparr>) \<and> pool_at (Suc k) (p\<lparr>next_loop := n\<rparr>)"
proof (cases "pool_loops p = []")
  case True
  then show ?thesis
    using assms by (intro exI [of _ "next_loop p"]) (simp add: getNextLoop_def loop_for_def pool_at_def)
next
  case False
  then have "Suc (k mod length (pool_loops p)) mod length (pool_loops p) =
      (if length (pool_loops p) \<le> Suc (k mod length (pool_loops p)) then 0 else Suc (k mod length (pool_loops p)))"
    by (metis le_antisym length_greater_0_conv mod_Suc mod_less_divisor nle_le Suc_leI mod_Suc_eq)
  then show ?thesis
    using assms False by (auto simp: getNextLoop_def loop_for_def pool_at_def Let_def mod_Suc_eq)
qed

text \<open>
  \<^verbatim>\<open>stop()\<close> leaves \<^verbatim>\<open>next_\<close> as it is: after a restart with fewer threads the next access can be out of bounds.
\<close>

lemma pool_restart_out_of_bounds:
  "rbind (pool_start (\<lambda>i. 10 + i) False (setThreadNum 4 (mkEventLoopThreadPool 0 ''p''))) (\<lambda>r1.
   rbind (getNextLoop (snd r1)) (\<lambda>r2. rbind (getNextLoop (snd r2)) (\<lambda>r3. rbind (pool_stop (snd r3)) (\<lambda>r4.
   rbind (pool_start (\<lambda>i. 20 + i) False (setThreadNum 1 (snd r4))) (\<lambda>r5. getNextLoop (snd r5)))))) = Inl Out_Of_Bounds"
  by (simp add: pool_start_def mkEventLoopThreadPool_def setThreadNum_def getNextLoop_def pool_stop_def upt_rec Let_def)

section \<open>The connections of the server\<close>

text \<open>
  What happens to the server in its loop: it accepts a descriptor, or the close callback of the \<open>k\<close>-th connection it has made runs.  The trace carries
  the connections made so far beside the server, since a connection that is closed calls back whether the table has it or not.
\<close>

datatype server_event = Accepted int | Closed nat

fun server_trace :: "server_event list \<Rightarrow> server_conn list \<Rightarrow> TcpServer \<Rightarrow> (server_conn list \<times> TcpServer) result" where
  "server_trace [] made s = Inr (made, s)"
| "server_trace (Accepted fd # es) made s =
     rbind (newConnection fd s) (\<lambda>s'. server_trace es (made @ [the (connections s' (connName s (nextConnId s)))]) s')"
| "server_trace (Closed k # es) made s =
     (if k < length made then server_trace es made (removeConnectionInLoop (made ! k) s) else Inl Out_Of_Bounds)"

fun accepted_fds :: "server_event list \<Rightarrow> int list" where
  "accepted_fds [] = []"
| "accepted_fds (Accepted fd # es) = fd # accepted_fds es"
| "accepted_fds (Closed k # es) = accepted_fds es"

text \<open>Only connections that have been made are closed; \<open>n\<close> have been made before.\<close>

fun closes_made :: "nat \<Rightarrow> server_event list \<Rightarrow> bool" where
  "closes_made n [] = True"
| "closes_made n (Accepted fd # es) = closes_made (Suc n) es"
| "closes_made n (Closed k # es) = (k < n \<and> closes_made n es)"

lemma connName_inj: "connName s (int i + 1) = connName s (int j + 1) \<longleftrightarrow> i = j"
  using nat_to_string_inj [of "nat (int i + 1)" "nat (int j + 1)"] by (auto simp: connName_def int_to_string_def)

text \<open>The \<open>k\<close>-th connection of a server that starts as \<open>s0\<close> and accepts the descriptors \<open>ds\<close>.\<close>

definition conn_at :: "TcpServer \<Rightarrow> int list \<Rightarrow> nat \<Rightarrow> server_conn" where
  "conn_at s0 ds k = \<lparr>conn_name = connName s0 (int k + 1), conn_loop = loop_for (srv_pool s0) k, conn_fd = ds ! k\<rparr>"

lemma conn_at_fields [simp]:
  "conn_name (conn_at s0 ds k) = connName s0 (int k + 1)" "conn_loop (conn_at s0 ds k) = loop_for (srv_pool s0) k"
  by (simp_all add: conn_at_def)

text \<open>After the descriptors \<open>ds\<close> and \<open>cl k\<close> closes of the \<open>k\<close>-th connection: the table, and what has been posted.\<close>

definition posted_ok :: "TcpServer \<Rightarrow> nat \<Rightarrow> (nat \<Rightarrow> nat) \<Rightarrow> (nat \<times> server_task) list \<Rightarrow> bool" where
  "posted_ok s0 n cl ps \<longleftrightarrow>
     (\<forall>l nm. (l, Connect_established nm) \<in> set ps \<or> (l, Connect_destroyed nm) \<in> set ps \<longrightarrow>
        (\<exists>k<n. l = loop_for (srv_pool s0) k \<and> nm = connName s0 (int k + 1))) \<and>
     (\<forall>k<n. count_list ps (loop_for (srv_pool s0) k, Connect_established (connName s0 (int k + 1))) = 1 \<and>
            count_list ps (loop_for (srv_pool s0) k, Connect_destroyed (connName s0 (int k + 1))) = cl k)"

definition table_ok :: "TcpServer \<Rightarrow> int list \<Rightarrow> (nat \<Rightarrow> nat) \<Rightarrow> (bytes \<rightharpoonup> server_conn) \<Rightarrow> bool" where
  "table_ok s0 ds cl t \<longleftrightarrow>
     (\<forall>k < length ds. t (connName s0 (int k + 1)) = (if cl k = 0 then Some (conn_at s0 ds k) else None)) \<and>
     (\<forall>nm. t nm \<noteq> None \<longrightarrow> (\<exists>k < length ds. nm = connName s0 (int k + 1)))"

definition server_inv :: "TcpServer \<Rightarrow> int list \<Rightarrow> (nat \<Rightarrow> nat) \<Rightarrow> server_conn list \<Rightarrow> TcpServer \<Rightarrow> bool" where
  "server_inv s0 ds cl made s \<longleftrightarrow>
     srv_name s = srv_name s0 \<and> srv_ipPort s = srv_ipPort s0 \<and> pool_at (length ds) (srv_pool s) \<and>
     pool_loops (srv_pool s) = pool_loops (srv_pool s0) \<and> baseLoop (srv_pool s) = baseLoop (srv_pool s0) \<and>
     nextConnId s = int (length ds) + 1 \<and> made = map (conn_at s0 ds) [0..<length ds] \<and> (\<forall>k \<ge> length ds. cl k = 0) \<and>
     table_ok s0 ds cl (connections s) \<and> posted_ok s0 (length ds) cl (posted s)"

lemma conn_at_snoc: "k < length ds \<Longrightarrow> conn_at s0 (ds @ [fd]) k = conn_at s0 ds k"
  by (simp add: conn_at_def nth_append)

lemma table_ok_insert:
  assumes "table_ok s0 ds cl t" "cl (length ds) = 0"
  shows "table_ok s0 (ds @ [fd]) cl (t(connName s0 (int (length ds) + 1) \<mapsto> conn_at s0 (ds @ [fd]) (length ds)))"
  using assms unfolding table_ok_def by (auto simp: connName_inj conn_at_snoc less_Suc_eq)

lemma posted_ok_established:
  assumes "posted_ok s0 n cl ps" "cl n = 0"
  shows "posted_ok s0 (Suc n) cl (ps @ [(loop_for (srv_pool s0) n, Connect_established (connName s0 (int n + 1)))])"
proof -
  have new: "(l, Connect_established (connName s0 (int n + 1))) \<notin> set ps" "(l, Connect_destroyed (connName s0 (int n + 1))) \<notin> set ps" for l
    using assms(1) unfolding posted_ok_def by (metis connName_inj less_irrefl)+
  show ?thesis
    using assms new unfolding posted_ok_def by (auto simp: connName_inj count_list_0_iff less_Suc_eq) blast+
qed

lemma newConnection_inv:
  assumes inv: "server_inv s0 ds cl made s" and n: "int (length ds) < 2 ^ 31 - 2"
  shows "\<exists>s'. newConnection fd s = Inr s' \<and>
           server_inv s0 (ds @ [fd]) cl (made @ [the (connections s' (connName s (nextConnId s)))]) s'"
proof -
  let ?n = "length ds"
  obtain m where m: "getNextLoop (srv_pool s) = Inr (loop_for (srv_pool s) ?n, (srv_pool s)\<lparr>next_loop := m\<rparr>)"
    "pool_at (Suc ?n) ((srv_pool s)\<lparr>next_loop := m\<rparr>)"
    using getNextLoop_round_robin inv unfolding server_inv_def by blast
  have same: "connName s = connName s0" "loop_for (srv_pool s) = loop_for (srv_pool s0)" "nextConnId s = int ?n + 1"
    using inv by (auto simp: connName_def loop_for_def fun_eq_iff server_inv_def)
  have wrap: "to_signed 32 (int ?n + 2) = int ?n + 2" using n by (intro to_signed_id) auto
  have c: "\<lparr>conn_name = connName s0 (int ?n + 1), conn_loop = loop_for (srv_pool s0) ?n, conn_fd = fd\<rparr> = conn_at s0 (ds @ [fd]) ?n"
    by (simp add: conn_at_def)
  define s' where "s' = s\<lparr>srv_pool := (srv_pool s)\<lparr>next_loop := m\<rparr>, nextConnId := int ?n + 2,
    connections := (connections s)(connName s0 (int ?n + 1) \<mapsto> conn_at s0 (ds @ [fd]) ?n),
    posted := posted s @ [(loop_for (srv_pool s0) ?n, Connect_established (connName s0 (int ?n + 1)))]\<rparr>"
  have run: "newConnection fd s = Inr s'"
    using m(1) wrap by (simp add: newConnection_def Let_def s'_def same c [symmetric] add.assoc)
  have "map (conn_at s0 (ds @ [fd])) [0..<?n] = map (conn_at s0 ds) [0..<?n]" by (simp add: conn_at_snoc)
  then have "server_inv s0 (ds @ [fd]) cl (made @ [the (connections s' (connName s (nextConnId s)))]) s'"
    using inv m(2) table_ok_insert [of s0 ds cl "connections s" fd] posted_ok_established [of s0 ?n cl "posted s"]
    unfolding server_inv_def by (simp add: s'_def same)
  then show ?thesis using run by blast
qed

lemma removeConnectionInLoop_inv:
  assumes inv: "server_inv s0 ds cl made s" and k: "k < length ds"
  shows "server_inv s0 ds (cl(k := Suc (cl k))) made (removeConnectionInLoop (made ! k) s)"
proof -
  have c: "made ! k = conn_at s0 ds k" using inv k by (simp add: server_inv_def)
  have "table_ok s0 ds (cl(k := Suc (cl k))) ((connections s)(connName s0 (int k + 1) := None))"
    using inv unfolding server_inv_def table_ok_def by (auto simp: connName_inj)
  moreover have "posted_ok s0 (length ds) (cl(k := Suc (cl k)))
      (posted s @ [(loop_for (srv_pool s0) k, Connect_destroyed (connName s0 (int k + 1)))])"
    using inv k unfolding server_inv_def posted_ok_def by (auto simp: connName_inj)
  ultimately show ?thesis using inv k unfolding server_inv_def c by (simp add: removeConnectionInLoop_def)
qed

lemma server_trace_inv:
  assumes "server_inv s0 ds cl made s" "closes_made (length ds) es" "int (length ds + length (accepted_fds es)) < 2 ^ 31 - 1"
  shows "\<exists>made' s'. server_trace es made s = Inr (made', s') \<and>
           server_inv s0 (ds @ accepted_fds es) (\<lambda>k. cl k + count_list es (Closed k)) made' s'"
  using assms
proof (induction es made s arbitrary: ds cl rule: server_trace.induct)
  case (2 fd es made s)
  obtain s1 where s1: "newConnection fd s = Inr s1" "server_inv s0 (ds @ [fd]) cl (made @ [the (connections s1 (connName s (nextConnId s)))]) s1"
    using newConnection_inv [OF 2(2), of fd] 2(4) by auto
  from 2(1) [OF s1] 2(3,4) s1(1) show ?case by simp
next
  case (3 k es made s)
  have k: "k < length ds" "k < length made" using 3(2,3) by (auto simp: server_inv_def)
  have "(\<lambda>j. (cl(k := Suc (cl k))) j + count_list es (Closed j)) = (\<lambda>j. cl j + count_list (Closed k # es) (Closed j))" by auto
  with 3(1) [OF k(2) removeConnectionInLoop_inv [OF 3(2) k(1)]] 3(3,4) k(2) show ?case by simp
qed simp

lemma server_started_inv:
  assumes "mkTcpServer (Some l) ipPort name = Inr s0" "server_start started_loop cb (server_setThreadNum t s0) = Inr s1"
  shows "server_inv s1 [] (\<lambda>k. 0) [] s1"
  using assms
  by (auto simp: mkTcpServer_def CheckLoopNotNull_def server_start_def server_setThreadNum_def mkEventLoopThreadPool_def
      setThreadNum_def pool_start_def server_inv_def pool_at_def Let_def table_ok_def posted_ok_def)

text \<open>
  C20 (invariant). As long as fewer than 2^31 - 1 connections have come, accepting and closing them in any order never fails.
  The \<open>k\<close>-th connection has a name of its own, goes to the loops in turn, and its \<^verbatim>\<open>connectEstablished\<close> is posted to its loop
  once.  The table has it, with that loop and its descriptor, exactly until its close callback has run, and has nothing else; and
  \<^verbatim>\<open>connectDestroyed\<close> is posted to that same loop once for every call of the close callback, and never otherwise.
\<close>

theorem server_connections_bookkeeping:
  assumes made: "mkTcpServer (Some l) ipPort name = Inr s0" and started: "server_start started_loop cb (server_setThreadNum t s0) = Inr s1"
    and few: "int (length (accepted_fds es)) < 2 ^ 31 - 1" and "closes_made 0 es"
  shows "\<exists>made s. server_trace es [] s1 = Inr (made, s) \<and>
           (\<forall>nm. connections s nm \<noteq> None \<longrightarrow> (\<exists>k < length (accepted_fds es). nm = connName s1 (int k + 1))) \<and>
           (\<forall>l nm. (l, Connect_established nm) \<in> set (posted s) \<or> (l, Connect_destroyed nm) \<in> set (posted s) \<longrightarrow>
              (\<exists>k < length (accepted_fds es). l = loop_for (srv_pool s1) k \<and> nm = connName s1 (int k + 1))) \<and>
           (\<forall>k < length (accepted_fds es).
              connections s (connName s1 (int k + 1)) =
                (if Closed k \<in> set es then None
                 else Some \<lparr>conn_name = connName s1 (int k + 1), conn_loop = loop_for (srv_pool s1) k, conn_fd = accepted_fds es ! k\<rparr>) \<and>
              count_list (posted s) (loop_for (srv_pool s1) k, Connect_established (connName s1 (int k + 1))) = 1 \<and>
              count_list (posted s) (loop_for (srv_pool s1) k, Connect_destroyed (connName s1 (int k + 1))) = count_list es (Closed k))"
proof -
  from server_trace_inv [OF server_started_inv [OF made started], of es] assms(3,4)
  obtain m s where s: "server_trace es [] s1 = Inr (m, s)" "server_inv s1 (accepted_fds es) (\<lambda>k. count_list es (Closed k)) m s" by auto
  have "table_ok s1 (accepted_fds es) (\<lambda>k. count_list es (Closed k)) (connections s)"
    "posted_ok s1 (length (accepted_fds es)) (\<lambda>k. count_list es (Closed k)) (posted s)"
    using s(2) by (simp_all add: server_inv_def)
  then show ?thesis
    using s(1) unfolding table_ok_def posted_ok_def conn_at_def by (intro exI [of _ m] exI [of _ s]) (simp add: count_list_0_iff)
qed

definition sample_server :: TcpServer where
  "sample_server =
     \<lparr>srv_loop = 0, srv_ipPort = ''0.0.0.0:80'', srv_name = ''http'',
      srv_pool = \<lparr>baseLoop = 0, pool_name = ''http'', pool_started = True, numThreads = 2, next_loop = 0, pool_loops = [10, 11],
                  pool_threads = [''http0'', ''http1'']\<rparr>,
      srv_started = True, nextConnId = 1, connections = Map.empty, posted = [(0, Listen)]\<rparr>"

theorem server_connections_bookkeeping_witness:
  "\<exists>made s. server_trace [Accepted 5, Accepted 6, Closed 0, Accepted 5] [] sample_server = Inr (made, s) \<and>
     connections s (connName sample_server 1) = None \<and>
     connections s (connName sample_server 3) =
       Some \<lparr>conn_name = connName sample_server 3, conn_loop = loop_for (srv_pool sample_server) 2, conn_fd = 5\<rparr> \<and>
     count_list (posted s) (loop_for (srv_pool sample_server) 2, Connect_established (connName sample_server 3)) = 1 \<and>
     count_list (posted s) (loop_for (srv_pool sample_server) 0, Connect_destroyed (connName sample_server 1)) = 1"
proof -
  let ?es = "[Accepted 5, Accepted 6, Closed 0, Accepted 5]"
  have len: "accepted_fds ?es = [5, 6, 5]" "closes_made 0 ?es" by simp_all
  have made: "mkTcpServer (Some 0) ''0.0.0.0:80'' ''http'' =
      Inr (sample_server\<lparr>srv_started := False, posted := [], srv_pool := mkEventLoopThreadPool 0 ''http''\<rparr>)"
    by (simp add: mkTcpServer_def CheckLoopNotNull_def sample_server_def)
  have started: "server_start (\<lambda>i. 10 + i) False (server_setThreadNum 2
      (sample_server\<lparr>srv_started := False, posted := [], srv_pool := mkEventLoopThreadPool 0 ''http''\<rparr>)) = Inr sample_server"
    by (simp add: server_start_def server_setThreadNum_def sample_server_def mkEventLoopThreadPool_def setThreadNum_def
        pool_start_def Let_def upt_rec nat_to_string.simps)
  from server_connections_bookkeeping [OF made started _ len(2), unfolded len(1)]
  obtain m s where s: "server_trace ?es [] sample_server = Inr (m, s)"
    and k: "\<forall>k < 3. connections s (connName sample_server (int k + 1)) =
         (if Closed k \<in> set ?es then None
          else Some \<lparr>conn_name = connName sample_server (int k + 1), conn_loop = loop_for (srv_pool sample_server) k, conn_fd = [5, 6, 5] ! k\<rparr>) \<and>
       count_list (posted s) (loop_for (srv_pool sample_server) k, Connect_established (connName sample_server (int k + 1))) = 1 \<and>
       count_list (posted s) (loop_for (srv_pool sample_server) k, Connect_destroyed (connName sample_server (int k + 1))) =
         count_list ?es (Closed k)" by auto
  from k [rule_format, of 2] k [rule_format, of 0] s show ?thesis by simp
qed

section \<open>Running out of descriptors\<close>

text \<open>
  When the process has no descriptor left, the spare one makes room to accept the connection that waits and to close it, and
  is opened again: no descriptor is lost, none is gained.
\<close>

lemma acceptor_EMFILE:
  assumes "idleFd a \<in> fds a" "0 \<le> reopened" "reopened \<notin> fds a - {idleFd a}" "second \<notin> fds a - {idleFd a}" "finite (fds a)"
  shows "\<exists>a'. acceptor_handleRead has_cb (Inl EMFILE) second reopened a = Inr (None, a') \<and> card (fds a') = card (fds a) \<and>
           idleFd a' \<in> fds a' \<and> fds a' - {idleFd a'} = fds a - {idleFd a}"
proof -
  have "fds a - {idleFd a} - {second} = fds a - {idleFd a}" using assms(4) by auto
  moreover have "card (insert reopened (fds a - {idleFd a})) = card (fds a)"
    using assms(1,3,5) card.remove [OF assms(5,1)] by (simp del: card_Diff_insert)
  moreover have "insert reopened (fds a - {idleFd a}) - {reopened} = fds a - {idleFd a}" using assms(3) by auto
  moreover have "(if second < 0 then fds a - {idleFd a} else insert second (fds a - {idleFd a})) - {second} = fds a - {idleFd a}"
    using assms(4) by auto
  ultimately show ?thesis using assms(2) by (simp add: acceptor_handleRead_def sockets_accept_def Let_def)
qed

end
