(* ===== verification/Tcp_Client.thy ===== *)
theory Tcp_Client
  imports Tcp_Server
begin

text \<open>
  \<^verbatim>\<open>Connector\<close> and \<^verbatim>\<open>TcpClient\<close> (\<^verbatim>\<open>inc/network\<close>, \<^verbatim>\<open>src/network\<close>): the state machine that opens a connection to a server, with its
  retries.  The connector's descriptors, the functors it queues in its loop and the timer it sets are part of its state; the
  results of the system calls are arguments.  A log records what becomes of each descriptor.
\<close>

section \<open>The connector\<close>

datatype conn_state = kDisconnected | kConnecting | kConnected

datatype conn_act = Opened int | Closed_fd int | Handed int | Retry_after int

datatype conn_functor = Reset_channel | Stop_in_loop

record Connector =
  cn_connect :: bool
  cn_state :: conn_state
  cn_retryDelayMs :: int
  cn_channel :: "Channel option"
  cn_functors :: "conn_functor list"
  cn_timers :: nat
  cn_log :: "conn_act list"

definition kMaxRetryDelayMs :: int where
  "kMaxRetryDelayMs = 30 * 1000"

definition kInitRetryDelayMs :: int where
  "kInitRetryDelayMs = 500"

definition mkConnector :: Connector where
  "mkConnector = \<lparr>cn_connect = False, cn_state = kDisconnected, cn_retryDelayMs = kInitRetryDelayMs, cn_channel = None,
                  cn_functors = [], cn_timers = 0, cn_log = []\<rparr>"

definition log_act :: "conn_act \<Rightarrow> Connector \<Rightarrow> Connector" where
  "log_act a k = k\<lparr>cn_log := cn_log k @ [a]\<rparr>"

definition connector_retry :: "int \<Rightarrow> Connector \<Rightarrow> Connector" where
  "connector_retry sockfd k =
     (let k1 = (log_act (Closed_fd sockfd) k)\<lparr>cn_state := kDisconnected\<rparr>
      in if cn_connect k1
         then (log_act (Retry_after (cn_retryDelayMs k1)) k1)
                \<lparr>cn_timers := Suc (cn_timers k1), cn_retryDelayMs := min (cn_retryDelayMs k1 * 2) kMaxRetryDelayMs\<rparr>
         else k1)"

definition connecting :: "int \<Rightarrow> Connector \<Rightarrow> Connector result" where
  "connecting sockfd k =
     rbind (passert (cn_channel k = None)) (\<lambda>_.
       Inr (k\<lparr>cn_state := kConnecting, cn_channel := Some (enableWriting (mkChannel sockfd))\<rparr>))"

text \<open>\<open>sockfd\<close>: the socket created; \<open>saved_errno\<close>: the error of \<^verbatim>\<open>connect\<close>, if any.\<close>

definition connector_connect :: "int \<Rightarrow> errno option \<Rightarrow> Connector \<Rightarrow> Connector result" where
  "connector_connect sockfd saved_errno k =
     (let k1 = log_act (Opened sockfd) k
      in if saved_errno \<in> {None, Some EINPROGRESS, Some EINTR, Some EISCONN} then connecting sockfd k1
         else if saved_errno \<in> {Some EAGAIN, Some EADDRINUSE, Some EADDRNOTAVAIL, Some ECONNREFUSED, Some ENETUNREACH}
         then Inr (connector_retry sockfd k1)
         else Inr (log_act (Closed_fd sockfd) k1))"

definition startInLoop :: "int \<Rightarrow> errno option \<Rightarrow> Connector \<Rightarrow> Connector result" where
  "startInLoop sockfd saved_errno k =
     rbind (passert (cn_state k = kDisconnected)) (\<lambda>_.
       if cn_connect k then connector_connect sockfd saved_errno k else Inr k)"

definition connector_start :: "int \<Rightarrow> errno option \<Rightarrow> Connector \<Rightarrow> Connector result" where
  "connector_start sockfd saved_errno k = startInLoop sockfd saved_errno (k\<lparr>cn_connect := True\<rparr>)"



definition connector_stop :: "Connector \<Rightarrow> Connector" where
  "connector_stop k = k\<lparr>cn_connect := False, cn_functors := cn_functors k @ [Stop_in_loop]\<rparr>"


definition connector_restart :: "int \<Rightarrow> errno option \<Rightarrow> Connector \<Rightarrow> Connector result" where
  "connector_restart sockfd saved_errno k =
     startInLoop sockfd saved_errno (k\<lparr>cn_state := kDisconnected, cn_retryDelayMs := kInitRetryDelayMs, cn_connect := True\<rparr>)"



definition connector_destroy :: "Connector \<Rightarrow> unit result" where
  "connector_destroy k = passert (cn_channel k = None)"

section \<open>The client\<close>

datatype client_act = Conn_established bytes | Conn_destroyed bytes | Conn_shutdown bytes | Conn_forceClose bytes
  | Close_callback_replaced bytes | Leaked int | Connector_stop_later

record TcpClient =
  cl_name :: bytes
  cl_connector :: Connector
  cl_retry :: bool
  cl_connect :: bool
  cl_nextConnId :: int
  cl_connection :: "bytes option"
  cl_log :: "client_act list"

definition mkTcpClient :: "bytes \<Rightarrow> TcpClient" where
  "mkTcpClient name = \<lparr>cl_name = name, cl_connector = mkConnector, cl_retry = False, cl_connect = True, cl_nextConnId = 1,
                       cl_connection = None, cl_log = []\<rparr>"

definition client_log :: "client_act list \<Rightarrow> TcpClient \<Rightarrow> TcpClient" where
  "client_log as c = c\<lparr>cl_log := cl_log c @ as\<rparr>"

definition client_connect :: "int \<Rightarrow> errno option \<Rightarrow> TcpClient \<Rightarrow> TcpClient result" where
  "client_connect sockfd saved_errno c =
     rbind (connector_start sockfd saved_errno (cl_connector c)) (\<lambda>k. Inr (c\<lparr>cl_connect := True, cl_connector := k\<rparr>))"

definition client_disconnect :: "TcpClient \<Rightarrow> TcpClient" where
  "client_disconnect c =
     client_log (case cl_connection c of None \<Rightarrow> [] | Some conn \<Rightarrow> [Conn_shutdown conn]) (c\<lparr>cl_connect := False\<rparr>)"

definition client_stop :: "TcpClient \<Rightarrow> TcpClient" where
  "client_stop c = c\<lparr>cl_connect := False, cl_connector := connector_stop (cl_connector c)\<rparr>"

text \<open>\<open>peer\<close> is the printed address, or \<open>None\<close> when \<^verbatim>\<open>getpeername\<close> fails; \<open>local_ok\<close>: \<^verbatim>\<open>getsockname\<close> succeeds.  The name is
  formatted into 32 bytes.\<close>

definition client_newConnection :: "int \<Rightarrow> bytes option \<Rightarrow> bool \<Rightarrow> TcpClient \<Rightarrow> TcpClient" where
  "client_newConnection sockfd peer local_ok c =
     (case peer of
        None \<Rightarrow> client_log [Leaked sockfd] c
      | Some ipPort \<Rightarrow>
          let nm = cl_name c @ take 31 ('':'' @ ipPort @ ''#'' @ int_to_string (cl_nextConnId c));
              c1 = c\<lparr>cl_nextConnId := to_signed 32 (cl_nextConnId c + 1)\<rparr>
          in if local_ok then client_log [Conn_established nm] (c1\<lparr>cl_connection := Some nm\<rparr>)
             else client_log [Leaked sockfd] c1)"

definition client_removeConnection :: "int \<Rightarrow> errno option \<Rightarrow> bytes \<Rightarrow> TcpClient \<Rightarrow> TcpClient result" where
  "client_removeConnection sockfd saved_errno conn c =
     rbind (passert (cl_connection c = Some conn)) (\<lambda>_.
       let c1 = client_log [Conn_destroyed conn] (c\<lparr>cl_connection := None\<rparr>)
       in if cl_retry c1 \<and> cl_connect c1
          then rbind (connector_restart sockfd saved_errno (cl_connector c1)) (\<lambda>k. Inr (c1\<lparr>cl_connector := k\<rparr>))
          else Inr c1)"

definition client_destroy :: "bool \<Rightarrow> TcpClient \<Rightarrow> TcpClient" where
  "client_destroy unique c =
     (case cl_connection c of
        Some conn \<Rightarrow> client_log (Close_callback_replaced conn # (if unique then [Conn_forceClose conn] else [])) c
      | None \<Rightarrow> client_log [Connector_stop_later] (c\<lparr>cl_connector := connector_stop (cl_connector c)\<rparr>))"

section \<open>The connector in its loop\<close>





























text \<open>
  A client whose connection has ended cannot \<^verbatim>\<open>connect()\<close> again: its connector still has the state of the established connection,
  and \<^verbatim>\<open>startInLoop\<close> asserts another one.
\<close>

lemma client_reconnect_aborts:
  "cn_state (cl_connector c) = kConnected \<Longrightarrow> client_connect fd e (client_disconnect c) = Inl Assertion_Failed"
  by (simp add: client_connect_def client_disconnect_def client_log_def connector_start_def startInLoop_def)

end
