(* ===== verification/Monitors.thy ===== *)
theory Monitors
  imports Prelude "HOL-Library.Multiset"
begin

text \<open>
  The monitors of the utilities: \<^verbatim>\<open>BlockingQueue\<close>, \<^verbatim>\<open>BoundedBlockingQueue\<close> (\<^verbatim>\<open>inc/utils/datastructures\<close>), \<^verbatim>\<open>CountDownLatch\<close>,
  \<^verbatim>\<open>ThreadPool\<close>, and \<^verbatim>\<open>PMutex\<close> with \<^verbatim>\<open>PCondition\<close> (\<^verbatim>\<open>inc/utils/thread\<close>, \<^verbatim>\<open>src/utils/thread\<close>).  Each is a step relation: a step is
  what a thread does from locking the mutex to releasing it or to waiting on a condition.  A thread that waits becomes ready
  again when it is notified, or for no reason, as POSIX allows; it then checks its condition again.  \<^verbatim>\<open>pthread_cond_signal\<close>
  wakes one of the threads that wait, if there is one, \<^verbatim>\<open>pthread_cond_broadcast\<close> all of them.
\<close>

section \<open>The queues\<close>

text \<open>
  \<open>cap\<close> is the capacity of the bounded queue, \<open>None\<close> for the unbounded one.  Threads in \<^verbatim>\<open>take\<close> are counted; a thread in \<^verbatim>\<open>put\<close>
  is named by the element it brings.  Two logs record the elements put and taken.
\<close>

record 'a blocking_queue =
  items :: "'a list"
  ready_takers :: nat
  waiting_takers :: nat
  ready_putters :: "'a multiset"
  waiting_putters :: "'a multiset"
  put_log :: "'a list"
  take_log :: "'a list"

definition mkBlockingQueue :: "'a blocking_queue" where
  "mkBlockingQueue = \<lparr>items = [], ready_takers = 0, waiting_takers = 0, ready_putters = {#}, waiting_putters = {#},
                      put_log = [], take_log = []\<rparr>"

definition queue_full :: "nat option \<Rightarrow> 'a blocking_queue \<Rightarrow> bool" where
  "queue_full cap q = (case cap of None \<Rightarrow> False | Some n \<Rightarrow> n \<le> length (items q))"

text \<open>\<^verbatim>\<open>notEmpty_.notifyOne()\<close> at the end of \<^verbatim>\<open>put\<close>.\<close>

definition notify_taker :: "'a blocking_queue \<Rightarrow> 'a blocking_queue" where
  "notify_taker q =
     (if 0 < waiting_takers q then q\<lparr>waiting_takers := waiting_takers q - 1, ready_takers := Suc (ready_takers q)\<rparr> else q)"

definition put_item :: "'a \<Rightarrow> 'a blocking_queue \<Rightarrow> 'a blocking_queue" where
  "put_item x q = notify_taker (q\<lparr>items := items q @ [x], ready_putters := ready_putters q - {#x#}, put_log := put_log q @ [x]\<rparr>)"

definition take_item :: "'a \<Rightarrow> 'a list \<Rightarrow> 'a blocking_queue \<Rightarrow> 'a blocking_queue" where
  "take_item x xs q = q\<lparr>items := xs, ready_takers := ready_takers q - 1, take_log := take_log q @ [x]\<rparr>"

definition wake_putter :: "'a \<Rightarrow> 'a blocking_queue \<Rightarrow> 'a blocking_queue" where
  "wake_putter y q = q\<lparr>waiting_putters := waiting_putters q - {#y#}, ready_putters := add_mset y (ready_putters q)\<rparr>"

definition drain_items :: "'a blocking_queue \<Rightarrow> 'a list \<times> 'a blocking_queue" where
  "drain_items q = (items q, q\<lparr>items := [], take_log := take_log q @ items q\<rparr>)"

inductive queue_step :: "nat option \<Rightarrow> 'a blocking_queue \<Rightarrow> 'a blocking_queue \<Rightarrow> bool" for cap where
  call_take: "queue_step cap q (q\<lparr>ready_takers := Suc (ready_takers q)\<rparr>)"
| call_put: "queue_step cap q (q\<lparr>ready_putters := add_mset x (ready_putters q)\<rparr>)"
| put_runs: "x \<in># ready_putters q \<Longrightarrow> \<not> queue_full cap q \<Longrightarrow> queue_step cap q (put_item x q)"
| put_waits: "x \<in># ready_putters q \<Longrightarrow> queue_full cap q \<Longrightarrow>
     queue_step cap q (q\<lparr>ready_putters := ready_putters q - {#x#}, waiting_putters := add_mset x (waiting_putters q)\<rparr>)"
| take_runs: "0 < ready_takers q \<Longrightarrow> items q = x # xs \<Longrightarrow> cap = None \<or> waiting_putters q = {#} \<Longrightarrow>
     queue_step cap q (take_item x xs q)"
| take_runs_notifies: "0 < ready_takers q \<Longrightarrow> items q = x # xs \<Longrightarrow> cap \<noteq> None \<Longrightarrow> y \<in># waiting_putters q \<Longrightarrow>
     queue_step cap q (wake_putter y (take_item x xs q))"
| take_waits: "0 < ready_takers q \<Longrightarrow> items q = [] \<Longrightarrow>
     queue_step cap q (q\<lparr>ready_takers := ready_takers q - 1, waiting_takers := Suc (waiting_takers q)\<rparr>)"
| drains: "cap = None \<Longrightarrow> queue_step cap q (snd (drain_items q))"
| taker_wakes: "0 < waiting_takers q \<Longrightarrow>
     queue_step cap q (q\<lparr>waiting_takers := waiting_takers q - 1, ready_takers := Suc (ready_takers q)\<rparr>)"
| putter_wakes: "y \<in># waiting_putters q \<Longrightarrow> queue_step cap q (wake_putter y q)"

text \<open>Order, bound, and that no thread waits that could go on unless another one is there to do it.\<close>

definition queue_inv :: "nat option \<Rightarrow> 'a blocking_queue \<Rightarrow> bool" where
  "queue_inv cap q \<longleftrightarrow>
     take_log q @ items q = put_log q \<and>
     (0 < waiting_takers q \<longrightarrow> length (items q) \<le> ready_takers q) \<and>
     (case cap of
        None \<Rightarrow> waiting_putters q = {#}
      | Some n \<Rightarrow> length (items q) \<le> n \<and> (waiting_putters q \<noteq> {#} \<longrightarrow> n \<le> length (items q) + size (ready_putters q)))"

lemma queue_inv_init: "queue_inv cap mkBlockingQueue"
  by (simp add: queue_inv_def mkBlockingQueue_def split: option.split)

lemma queue_step_inv: "queue_step cap q q' \<Longrightarrow> queue_inv cap q \<Longrightarrow> queue_inv cap q'"
proof (induction rule: queue_step.induct)
  case (put_runs x q)
  then obtain M where "ready_putters q = add_mset x M" by (metis insert_DiffM)
  with put_runs show ?case
    by (auto simp: queue_inv_def put_item_def notify_taker_def queue_full_def split: option.splits)
next
  case (put_waits x q)
  then obtain M where "ready_putters q = add_mset x M" by (metis insert_DiffM)
  with put_waits show ?case by (auto simp: queue_inv_def queue_full_def split: option.splits)
qed (auto simp: queue_inv_def take_item_def wake_putter_def drain_items_def split: option.splits)

lemma queue_steps_inv: "(queue_step cap)\<^sup>*\<^sup>* q q' \<Longrightarrow> queue_inv cap q \<Longrightarrow> queue_inv cap q'"
  by (induction rule: rtranclp_induct) (auto intro: queue_step_inv)

text \<open>
  C22 (safety). Whatever the threads do and however they interleave, the elements leave a blocking queue in the order they were
  put and none is lost; the bounded queue never exceeds its capacity; and nobody waits in vain: when there is an element and a
  thread waits for one, or room and a thread waits for it, then a thread is ready to take or to put.
\<close>

theorem blocking_queue_safe:
  assumes "(queue_step cap)\<^sup>*\<^sup>* mkBlockingQueue q"
  shows "take_log q @ items q = put_log q \<and> (\<forall>n. cap = Some n \<longrightarrow> length (items q) \<le> n) \<and>
         (items q \<noteq> [] \<and> 0 < waiting_takers q \<longrightarrow> 0 < ready_takers q) \<and>
         (\<not> queue_full cap q \<and> waiting_putters q \<noteq> {#} \<longrightarrow> ready_putters q \<noteq> {#})"
  using queue_steps_inv [OF assms queue_inv_init]
  by (cases "items q") (auto simp: queue_inv_def queue_full_def split: option.splits)

text \<open>A taker that waits, two elements for a queue of capacity one, and the take.\<close>

definition sample_queue :: "nat blocking_queue" where
  "sample_queue = \<lparr>items = [], ready_takers = 0, waiting_takers = 0, ready_putters = {#8#}, waiting_putters = {#},
                   put_log = [7], take_log = [7]\<rparr>"

lemma sample_queue_reached: "(queue_step (Some 1))\<^sup>*\<^sup>* mkBlockingQueue sample_queue"
proof -
  let ?q0 = "mkBlockingQueue :: nat blocking_queue"
  let ?q1 = "?q0\<lparr>ready_takers := 1\<rparr>"
  let ?q2 = "?q1\<lparr>ready_takers := 0, waiting_takers := 1\<rparr>"
  let ?q3 = "?q2\<lparr>ready_putters := {#7#}\<rparr>"
  let ?q4 = "?q3\<lparr>ready_putters := {#7, 8#}\<rparr>"
  let ?q5 = "put_item 7 ?q4"
  let ?q6 = "?q5\<lparr>ready_putters := {#}, waiting_putters := {#8#}\<rparr>"
  have "queue_step (Some 1) ?q0 ?q1" using queue_step.call_take [of "Some 1" ?q0] by (simp add: mkBlockingQueue_def)
  moreover have "queue_step (Some 1) ?q1 ?q2" using queue_step.take_waits [of ?q1 "Some 1"] by (simp add: mkBlockingQueue_def)
  moreover have "queue_step (Some 1) ?q2 ?q3" using queue_step.call_put [of "Some 1" ?q2 7] by (simp add: mkBlockingQueue_def)
  moreover have "queue_step (Some 1) ?q3 ?q4" using queue_step.call_put [of "Some 1" ?q3 8] by (simp add: add_mset_commute)
  moreover have "queue_step (Some 1) ?q4 ?q5"
    by (rule queue_step.put_runs) (simp_all add: queue_full_def mkBlockingQueue_def)
  moreover have "queue_step (Some 1) ?q5 ?q6"
    using queue_step.put_waits [of 8 ?q5 "Some 1"] by (simp add: put_item_def notify_taker_def queue_full_def mkBlockingQueue_def)
  moreover have "queue_step (Some 1) ?q6 sample_queue"
    using queue_step.take_runs_notifies [of ?q6 7 "[]" "Some 1" 8]
    by (simp add: put_item_def notify_taker_def take_item_def wake_putter_def mkBlockingQueue_def sample_queue_def)
  ultimately show ?thesis by (meson converse_rtranclp_into_rtranclp rtranclp.rtrancl_refl)
qed

theorem blocking_queue_safe_witness:
  "take_log sample_queue @ items sample_queue = put_log sample_queue \<and> length (items sample_queue) \<le> 1 \<and> put_log sample_queue \<noteq> []"
proof -
  have "put_log sample_queue \<noteq> []" by (simp add: sample_queue_def)
  with blocking_queue_safe [OF sample_queue_reached] show ?thesis by blast
qed

section \<open>The latch\<close>

record latch =
  latch_count :: int
  entering :: nat
  waiting :: nat
  released :: nat

definition mkCountDownLatch :: "int \<Rightarrow> latch" where
  "mkCountDownLatch n = \<lparr>latch_count = n, entering = 0, waiting = 0, released = 0\<rparr>"

definition countDown :: "latch \<Rightarrow> latch" where
  "countDown l =
     (let l1 = l\<lparr>latch_count := latch_count l - 1\<rparr>
      in if latch_count l1 = 0 then l1\<lparr>entering := entering l1 + waiting l1, waiting := 0\<rparr> else l1)"

inductive latch_step :: "latch \<Rightarrow> latch \<Rightarrow> bool" where
  call_wait: "latch_step l (l\<lparr>entering := Suc (entering l)\<rparr>)"
| blocks: "0 < entering l \<Longrightarrow> 0 < latch_count l \<Longrightarrow> latch_step l (l\<lparr>entering := entering l - 1, waiting := Suc (waiting l)\<rparr>)"
| passes: "0 < entering l \<Longrightarrow> \<not> 0 < latch_count l \<Longrightarrow> latch_step l (l\<lparr>entering := entering l - 1, released := Suc (released l)\<rparr>)"
| counts: "latch_step l (countDown l)"
| wakes: "0 < waiting l \<Longrightarrow> latch_step l (l\<lparr>waiting := waiting l - 1, entering := Suc (entering l)\<rparr>)"

text \<open>Nobody passes before the count is 0, and from then on nobody waits.\<close>

lemma latch_steps_inv:
  "latch_step\<^sup>*\<^sup>* (mkCountDownLatch n) l \<Longrightarrow> (latch_count l \<le> 0 \<longrightarrow> waiting l = 0) \<and> (0 < released l \<longrightarrow> latch_count l \<le> 0)"
proof (induction rule: rtranclp_induct)
  case (step l l')
  from step.hyps(2) step.IH show ?case by (induction rule: latch_step.induct) (auto simp: countDown_def Let_def)
qed (simp add: mkCountDownLatch_def)

section \<open>The thread pool\<close>

text \<open>
  Workers are counted by where they are in \<^verbatim>\<open>runInThread\<close>: at the head of its loop, in \<^verbatim>\<open>take\<close>, waiting there, or gone; a busy one
  is named by its task, and so is a thread in \<^verbatim>\<open>run\<close>.  Logs record the tasks accepted, started and refused.
\<close>

record 'a thread_pool =
  tp_running :: bool
  maxQueueSize :: nat
  tp_queue :: "'a list"
  at_head :: nat
  ready_workers :: nat
  waiting_workers :: nat
  busy :: "'a multiset"
  gone :: nat
  ready_runners :: "'a multiset"
  waiting_runners :: "'a multiset"
  accepted :: "'a list"
  started :: "'a list"
  refused :: "'a list"

definition mkThreadPool :: "nat \<Rightarrow> 'a thread_pool" where
  "mkThreadPool maxSize =
     \<lparr>tp_running = False, maxQueueSize = maxSize, tp_queue = [], at_head = 0, ready_workers = 0, waiting_workers = 0, busy = {#},
      gone = 0, ready_runners = {#}, waiting_runners = {#}, accepted = [], started = [], refused = []\<rparr>"

definition isFull :: "'a thread_pool \<Rightarrow> bool" where
  "isFull p \<longleftrightarrow> 0 < maxQueueSize p \<and> maxQueueSize p \<le> length (tp_queue p)"

definition pool_starts :: "nat \<Rightarrow> 'a thread_pool \<Rightarrow> 'a thread_pool" where
  "pool_starts n p = p\<lparr>tp_running := True, at_head := n\<rparr>"

definition pool_stops :: "'a thread_pool \<Rightarrow> 'a thread_pool" where
  "pool_stops p =
     p\<lparr>tp_running := False, ready_workers := ready_workers p + waiting_workers p, waiting_workers := 0,
       ready_runners := ready_runners p + waiting_runners p, waiting_runners := {#}\<rparr>"

definition notify_worker :: "'a thread_pool \<Rightarrow> 'a thread_pool" where
  "notify_worker p =
     (if 0 < waiting_workers p then p\<lparr>waiting_workers := waiting_workers p - 1, ready_workers := Suc (ready_workers p)\<rparr> else p)"

definition run_accepts :: "'a \<Rightarrow> 'a thread_pool \<Rightarrow> 'a thread_pool" where
  "run_accepts x p =
     notify_worker (p\<lparr>ready_runners := ready_runners p - {#x#}, tp_queue := tp_queue p @ [x], accepted := accepted p @ [x]\<rparr>)"

definition worker_takes :: "'a \<Rightarrow> 'a list \<Rightarrow> 'a thread_pool \<Rightarrow> 'a thread_pool" where
  "worker_takes x xs p =
     p\<lparr>tp_queue := xs, ready_workers := ready_workers p - 1, busy := add_mset x (busy p), started := started p @ [x]\<rparr>"

definition wake_runner :: "'a \<Rightarrow> 'a thread_pool \<Rightarrow> 'a thread_pool" where
  "wake_runner y p = p\<lparr>waiting_runners := waiting_runners p - {#y#}, ready_runners := add_mset y (ready_runners p)\<rparr>"

inductive pool_step :: "'a thread_pool \<Rightarrow> 'a thread_pool \<Rightarrow> bool" where
  stops: "pool_step p (pool_stops p)"
| continues: "0 < at_head p \<Longrightarrow> tp_running p \<Longrightarrow>
     pool_step p (p\<lparr>at_head := at_head p - 1, ready_workers := Suc (ready_workers p)\<rparr>)"
| ends: "0 < at_head p \<Longrightarrow> \<not> tp_running p \<Longrightarrow> pool_step p (p\<lparr>at_head := at_head p - 1, gone := Suc (gone p)\<rparr>)"
| takes: "0 < ready_workers p \<Longrightarrow> tp_queue p = x # xs \<Longrightarrow> maxQueueSize p = 0 \<or> waiting_runners p = {#} \<Longrightarrow>
     pool_step p (worker_takes x xs p)"
| takes_notifies: "0 < ready_workers p \<Longrightarrow> tp_queue p = x # xs \<Longrightarrow> 0 < maxQueueSize p \<Longrightarrow> y \<in># waiting_runners p \<Longrightarrow>
     pool_step p (wake_runner y (worker_takes x xs p))"
| waits: "0 < ready_workers p \<Longrightarrow> tp_queue p = [] \<Longrightarrow> tp_running p \<Longrightarrow>
     pool_step p (p\<lparr>ready_workers := ready_workers p - 1, waiting_workers := Suc (waiting_workers p)\<rparr>)"
| takes_nothing: "0 < ready_workers p \<Longrightarrow> tp_queue p = [] \<Longrightarrow> \<not> tp_running p \<Longrightarrow>
     pool_step p (p\<lparr>ready_workers := ready_workers p - 1, at_head := Suc (at_head p)\<rparr>)"
| task_ends: "x \<in># busy p \<Longrightarrow> pool_step p (p\<lparr>busy := busy p - {#x#}, at_head := Suc (at_head p)\<rparr>)"
| call_run: "pool_step p (p\<lparr>ready_runners := add_mset x (ready_runners p)\<rparr>)"
| run_waits: "x \<in># ready_runners p \<Longrightarrow> isFull p \<Longrightarrow> tp_running p \<Longrightarrow>
     pool_step p (p\<lparr>ready_runners := ready_runners p - {#x#}, waiting_runners := add_mset x (waiting_runners p)\<rparr>)"
| run_refused: "x \<in># ready_runners p \<Longrightarrow> \<not> tp_running p \<Longrightarrow>
     pool_step p (p\<lparr>ready_runners := ready_runners p - {#x#}, refused := refused p @ [x]\<rparr>)"
| run_accepted: "x \<in># ready_runners p \<Longrightarrow> \<not> isFull p \<Longrightarrow> tp_running p \<Longrightarrow> pool_step p (run_accepts x p)"
| worker_wakes: "0 < waiting_workers p \<Longrightarrow>
     pool_step p (p\<lparr>waiting_workers := waiting_workers p - 1, ready_workers := Suc (ready_workers p)\<rparr>)"
| runner_wakes: "y \<in># waiting_runners p \<Longrightarrow> pool_step p (wake_runner y p)"

definition pool_inv :: "nat \<Rightarrow> 'a thread_pool \<Rightarrow> bool" where
  "pool_inv n p \<longleftrightarrow>
     started p @ tp_queue p = accepted p \<and> (0 < maxQueueSize p \<longrightarrow> length (tp_queue p) \<le> maxQueueSize p) \<and>
     at_head p + ready_workers p + waiting_workers p + size (busy p) + gone p = n \<and>
     (tp_running p \<and> 0 < waiting_workers p \<longrightarrow> length (tp_queue p) \<le> ready_workers p) \<and>
     (tp_running p \<and> waiting_runners p \<noteq> {#} \<longrightarrow> 0 < maxQueueSize p \<and> maxQueueSize p \<le> length (tp_queue p) + size (ready_runners p)) \<and>
     (\<not> tp_running p \<longrightarrow> waiting_workers p = 0 \<and> waiting_runners p = {#}) \<and> (tp_running p \<longrightarrow> gone p = 0)"

lemma pool_step_inv: "pool_step p p' \<Longrightarrow> pool_inv n p \<Longrightarrow> pool_inv n p'"
proof (induction rule: pool_step.induct)
  case (run_accepted x p)
  then obtain M where "ready_runners p = add_mset x M" by (metis insert_DiffM)
  with run_accepted show ?case by (auto simp: pool_inv_def run_accepts_def notify_worker_def isFull_def)
next
  case (run_waits x p)
  then obtain M where "ready_runners p = add_mset x M" by (metis insert_DiffM)
  with run_waits show ?case by (auto simp: pool_inv_def isFull_def)
next
  case (task_ends x p)
  then obtain M where "busy p = add_mset x M" by (metis insert_DiffM)
  with task_ends show ?case by (auto simp: pool_inv_def)
qed (auto simp: pool_inv_def worker_takes_def wake_runner_def pool_stops_def)

text \<open>
  C23 (safety). In a pool of \<open>n\<close> threads, under every interleaving, the tasks are started in the order they were accepted, each
  once; the queue never exceeds its limit; while the pool runs, no worker sleeps through a task and no caller through free
  room; and once it is stopped, no thread is left waiting, so that every worker can come to its end.
\<close>

theorem thread_pool_safe:
  assumes "pool_step\<^sup>*\<^sup>* (pool_starts n (mkThreadPool maxSize)) p"
  shows "started p @ tp_queue p = accepted p \<and> (0 < maxQueueSize p \<longrightarrow> length (tp_queue p) \<le> maxQueueSize p) \<and>
         at_head p + ready_workers p + waiting_workers p + size (busy p) + gone p = n \<and>
         (tp_running p \<and> tp_queue p \<noteq> [] \<and> 0 < waiting_workers p \<longrightarrow> 0 < ready_workers p) \<and>
         (tp_running p \<and> \<not> isFull p \<and> waiting_runners p \<noteq> {#} \<longrightarrow> ready_runners p \<noteq> {#}) \<and>
         (\<not> tp_running p \<longrightarrow> waiting_workers p = 0 \<and> waiting_runners p = {#})"
proof -
  have "pool_inv n (pool_starts n (mkThreadPool maxSize))" by (simp add: pool_inv_def pool_starts_def mkThreadPool_def)
  with assms have "pool_inv n p" by (induction rule: rtranclp_induct) (auto intro: pool_step_inv)
  then show ?thesis by (cases "tp_queue p") (auto simp: pool_inv_def isFull_def)
qed

text \<open>A worker that waits gets a task, and the pool is stopped.\<close>

definition sample_pool :: "nat thread_pool" where
  "sample_pool = \<lparr>tp_running = False, maxQueueSize = 1, tp_queue = [], at_head = 0, ready_workers = 0, waiting_workers = 0, busy = {#5#},
                  gone = 0, ready_runners = {#}, waiting_runners = {#}, accepted = [5], started = [5], refused = []\<rparr>"

lemma sample_pool_reached: "pool_step\<^sup>*\<^sup>* (pool_starts 1 (mkThreadPool 1)) sample_pool"
proof -
  let ?p0 = "pool_starts 1 (mkThreadPool 1) :: nat thread_pool"
  let ?p1 = "?p0\<lparr>at_head := 0, ready_workers := 1\<rparr>"
  let ?p2 = "?p1\<lparr>ready_workers := 0, waiting_workers := 1\<rparr>"
  let ?p3 = "?p2\<lparr>ready_runners := {#5#}\<rparr>"
  let ?p4 = "run_accepts 5 ?p3"
  let ?p5 = "worker_takes 5 [] ?p4"
  note defs = pool_starts_def mkThreadPool_def run_accepts_def notify_worker_def worker_takes_def
  have "pool_step ?p0 ?p1" using pool_step.continues [of ?p0] by (simp add: defs)
  moreover have "pool_step ?p1 ?p2" using pool_step.waits [of ?p1] by (simp add: defs)
  moreover have "pool_step ?p2 ?p3" using pool_step.call_run [of ?p2 5] by (simp add: defs)
  moreover have "pool_step ?p3 ?p4" by (rule pool_step.run_accepted) (simp_all add: defs isFull_def)
  moreover have "pool_step ?p4 ?p5" by (rule pool_step.takes) (simp_all add: defs)
  moreover have "pool_step ?p5 sample_pool"
    using pool_step.stops [of ?p5] by (simp add: defs pool_stops_def sample_pool_def)
  ultimately show ?thesis by (meson converse_rtranclp_into_rtranclp rtranclp.rtrancl_refl)
qed

theorem thread_pool_safe_witness:
  "started sample_pool @ tp_queue sample_pool = accepted sample_pool \<and> accepted sample_pool \<noteq> [] \<and>
   at_head sample_pool + ready_workers sample_pool + waiting_workers sample_pool + size (busy sample_pool) + gone sample_pool = 1 \<and>
   waiting_workers sample_pool = 0 \<and> waiting_runners sample_pool = {#}"
proof -
  have "\<not> tp_running sample_pool" "accepted sample_pool \<noteq> []" by (simp_all add: sample_pool_def)
  with thread_pool_safe [OF sample_pool_reached] show ?thesis by blast
qed

section \<open>The mutex\<close>

text \<open>\<^verbatim>\<open>lock()\<close> and \<^verbatim>\<open>unlock()\<close> of \<^verbatim>\<open>PMutex\<close> are two steps each: the POSIX call, and the assignment to \<^verbatim>\<open>holder_\<close>.\<close>

record pmutex =
  owner :: "nat option"
  holder :: nat
  to_assign :: "nat set"
  to_unassign :: "nat set"

definition mkPMutex :: pmutex where
  "mkPMutex = \<lparr>owner = None, holder = 0, to_assign = {}, to_unassign = {}\<rparr>"

definition isLockedBy :: "nat \<Rightarrow> pmutex \<Rightarrow> bool" where
  "isLockedBy tid m \<longleftrightarrow> holder m = tid"

inductive mutex_step :: "pmutex \<Rightarrow> pmutex \<Rightarrow> bool" where
  locks: "owner m = None \<Longrightarrow> t \<notin> to_unassign m \<Longrightarrow> mutex_step m (m\<lparr>owner := Some t, to_assign := insert t (to_assign m)\<rparr>)"
| assigns: "t \<in> to_assign m \<Longrightarrow> mutex_step m (m\<lparr>holder := t, to_assign := to_assign m - {t}\<rparr>)"
| unlocks: "owner m = Some t \<Longrightarrow> t \<notin> to_assign m \<Longrightarrow> mutex_step m (m\<lparr>owner := None, to_unassign := insert t (to_unassign m)\<rparr>)"
| unassigns: "t \<in> to_unassign m \<Longrightarrow> mutex_step m (m\<lparr>holder := 0, to_unassign := to_unassign m - {t}\<rparr>)"

text \<open>
  The two steps of \<^verbatim>\<open>unlock()\<close> are in the wrong order: a thread that has locked the mutex can be told that it does not hold it,
  and \<^verbatim>\<open>assertLocked()\<close> aborts.
\<close>

lemma mutex_holder_race:
  "\<exists>m. mutex_step\<^sup>*\<^sup>* mkPMutex m \<and> owner m = Some 2 \<and> 2 \<notin> to_assign m \<and> \<not> isLockedBy 2 m"
proof -
  let ?m1 = "mkPMutex\<lparr>owner := Some 1, to_assign := {1}\<rparr>"
  let ?m2 = "?m1\<lparr>holder := 1, to_assign := {}\<rparr>"
  let ?m3 = "?m2\<lparr>owner := None, to_unassign := {1}\<rparr>"
  let ?m4 = "?m3\<lparr>owner := Some 2, to_assign := {2}\<rparr>"
  let ?m5 = "?m4\<lparr>holder := 2, to_assign := {}\<rparr>"
  let ?m6 = "?m5\<lparr>holder := 0, to_unassign := {}\<rparr>"
  have "mutex_step mkPMutex ?m1" using mutex_step.locks [of mkPMutex 1] by (simp add: mkPMutex_def)
  moreover have "mutex_step ?m1 ?m2" using mutex_step.assigns [of 1 ?m1] by simp
  moreover have "mutex_step ?m2 ?m3" using mutex_step.unlocks [of ?m2 1] by (simp add: mkPMutex_def)
  moreover have "mutex_step ?m3 ?m4" using mutex_step.locks [of ?m3 2] by simp
  moreover have "mutex_step ?m4 ?m5" using mutex_step.assigns [of 2 ?m4] by simp
  moreover have "mutex_step ?m5 ?m6" using mutex_step.unassigns [of 1 ?m5] by simp
  ultimately have "mutex_step\<^sup>*\<^sup>* mkPMutex ?m6" by (meson converse_rtranclp_into_rtranclp rtranclp.rtrancl_refl)
  then show ?thesis by (intro exI [of _ ?m6]) (simp add: isLockedBy_def)
qed

end
