(* ===== verification/Log_Pipeline.thy ===== *)
theory Log_Pipeline
  imports Calendar
begin

text \<open>
  Logging (\<^verbatim>\<open>inc/utils/log\<close>, \<^verbatim>\<open>src/utils/log\<close>): \<^verbatim>\<open>FixedBuffer\<close> and \<^verbatim>\<open>LogStream\<close>, which print into 4096 bytes; the line that a \<^verbatim>\<open>Logger\<close>
  makes; the two buffers of \<^verbatim>\<open>AsyncLogging\<close> between the threads that log and the one that writes; and the rolling of \<^verbatim>\<open>LogFile\<close>.
  A buffer is the bytes in front of its \<^verbatim>\<open>cur_\<close>; writing past its end is \<open>Out_Of_Bounds\<close>.  The clock, \<^verbatim>\<open>strerror_r\<close> and the text that
  \<^verbatim>\<open>snprintf\<close> gives for a \<^verbatim>\<open>double\<close> are arguments.
\<close>

section \<open>Streams\<close>

definition smallBufferLen :: nat where
  "smallBufferLen = 4096"

definition largeBufferLen :: nat where
  "largeBufferLen = 4096 * 1024"

definition kMaxNumericSize :: int where
  "kMaxNumericSize = 48"

definition fixed_avail :: "nat \<Rightarrow> bytes \<Rightarrow> int" where
  "fixed_avail SIZE b = int SIZE - int (length b)"

text \<open>\<^verbatim>\<open>memcpy\<close> or \<^verbatim>\<open>snprintf\<close> at \<^verbatim>\<open>cur_\<close>, of which \<open>extra\<close> bytes are not kept, and \<^verbatim>\<open>add\<close>.\<close>

definition fixed_write :: "nat \<Rightarrow> bytes \<Rightarrow> nat \<Rightarrow> bytes \<Rightarrow> bytes result" where
  "fixed_write SIZE d extra b = (if int (length d + extra) \<le> fixed_avail SIZE b then Inr (b @ d) else Inl Out_Of_Bounds)"

definition fixed_append :: "nat \<Rightarrow> bytes \<Rightarrow> bytes \<Rightarrow> bytes result" where
  "fixed_append SIZE d b =
     (if to_signed 32 (int (length d)) < fixed_avail SIZE b then fixed_write SIZE d 0 b else Inr b)"

definition digits :: bytes where
  "digits = ''9876543210123456789''"

text \<open>\<^verbatim>\<open>zero[lsd]\<close>, which points into the middle of \<^verbatim>\<open>digits\<close>.\<close>

definition zero_at :: "int \<Rightarrow> char" where
  "zero_at lsd = digits ! nat (9 + lsd)"

lemma c_div_smaller: "c_div i 10 \<noteq> 0 \<Longrightarrow> \<bar>c_div i 10\<bar> < \<bar>i\<bar>"
proof -
  assume a: "c_div i 10 \<noteq> 0"
  then have "i \<noteq> 0" by (auto simp: c_div_def)
  then have "\<bar>i\<bar> div 10 < \<bar>i\<bar>" by (simp add: int_div_less_self)
  then show ?thesis using \<open>i \<noteq> 0\<close> by (auto simp: c_div_def abs_mult sgn_if split: if_splits)
qed

function convert_digits :: "int \<Rightarrow> bytes" where
  "convert_digits i =
     (let lsd = c_mod i 10; i1 = c_div i 10
      in zero_at lsd # (if i1 \<noteq> 0 then convert_digits i1 else []))"
  by auto

termination convert_digits
  by (relation "measure (\<lambda>i. nat \<bar>i\<bar>)") (auto dest: c_div_smaller)

declare convert_digits.simps [simp del]

definition convert :: "int \<Rightarrow> bytes" where
  "convert v = rev (convert_digits v @ (if v < 0 then ''-'' else []))"

definition digitsHex :: bytes where
  "digitsHex = ''0123456789ABCDEF''"

fun convertHex_digits :: "nat \<Rightarrow> bytes" where
  "convertHex_digits i = digitsHex ! (i mod 16) # (if i div 16 \<noteq> 0 then convertHex_digits (i div 16) else [])"

declare convertHex_digits.simps [simp del]

definition convertHex :: "nat \<Rightarrow> bytes" where
  "convertHex v = rev (convertHex_digits v)"

definition formatInteger :: "int \<Rightarrow> bytes \<Rightarrow> bytes result" where
  "formatInteger v b =
     (if kMaxNumericSize \<le> fixed_avail smallBufferLen b then fixed_write smallBufferLen (convert v) 1 b else Inr b)"

definition put_bool :: "bool \<Rightarrow> bytes \<Rightarrow> bytes result" where
  "put_bool v b = fixed_append smallBufferLen (if v then ''1'' else ''0'') b"

definition put_char :: "char \<Rightarrow> bytes \<Rightarrow> bytes result" where
  "put_char v b = fixed_append smallBufferLen [v] b"

definition put_cstr :: "bytes option \<Rightarrow> bytes \<Rightarrow> bytes result" where
  "put_cstr str b = fixed_append smallBufferLen (case str of None \<Rightarrow> ''(null)'' | Some s \<Rightarrow> c_str s) b"

definition put_string :: "bytes \<Rightarrow> bytes \<Rightarrow> bytes result" where
  "put_string v b = fixed_append smallBufferLen v b"

definition put_pointer :: "nat \<Rightarrow> bytes \<Rightarrow> bytes result" where
  "put_pointer p b =
     (if kMaxNumericSize \<le> fixed_avail smallBufferLen b then fixed_write smallBufferLen (''0x'' @ convertHex p) 1 b else Inr b)"

definition put_double :: "bytes \<Rightarrow> bytes \<Rightarrow> bytes result" where
  "put_double txt b =
     (if kMaxNumericSize \<le> fixed_avail smallBufferLen b then fixed_write smallBufferLen txt 1 b else Inr b)"

section \<open>Lines\<close>

datatype LogLevel = TRACE | DEBUG | INFO | WARN | ERROR | FATAL

fun LogLevelName :: "LogLevel \<Rightarrow> bytes" where
  "LogLevelName TRACE = ''TRACE ''"
| "LogLevelName DEBUG = ''DEBUG ''"
| "LogLevelName INFO = ''INFO ''"
| "LogLevelName WARN = ''WARN ''"
| "LogLevelName ERROR = ''ERROR ''"
| "LogLevelName FATAL = ''FATAL ''"

text \<open>The name of a source file from its path: what follows the last slash.\<close>

definition SourceFile :: "bytes \<Rightarrow> bytes" where
  "SourceFile filename = rev (takeWhile (\<lambda>c. c \<noteq> CHR ''/'') (rev filename))"

text \<open>The cached date of the thread, with the second it belongs to.\<close>

record log_thread =
  t_time :: bytes
  t_lastSecond :: int

definition mkLogThread :: log_thread where
  "mkLogThread = \<lparr>t_time = [], t_lastSecond = 0\<rparr>"

definition formatTime :: "TimeStamp \<Rightarrow> log_thread \<Rightarrow> bytes \<Rightarrow> (log_thread \<times> bytes) result" where
  "formatTime time th b =
     (let seconds = c_div time kMicroSecondsPerSec; microseconds = c_mod time kMicroSecondsPerSec
      in rbind (if seconds \<noteq> t_lastSecond th
                then let (year, month, day) = gm_date (seconds div 86400); t = seconds mod 86400;
                         txt = fmt_zero 4 year @ fmt_zero 2 month @ fmt_zero 2 day @ '' '' @ fmt_zero 2 (t div 3600) @ '':'' @
                               fmt_zero 2 (t div 60 mod 60) @ '':'' @ fmt_zero 2 (t mod 60)
                     in rbind (passert (length txt = 17)) (\<lambda>_. Inr (th\<lparr>t_lastSecond := seconds, t_time := txt\<rparr>))
                else Inr th) (\<lambda>th1.
         rbind (put_cstr (Some (t_time th1)) b) (\<lambda>b1.
         rbind (put_cstr (Some (''.'' @ fmt_zero 6 microseconds @ '' '')) b1) (\<lambda>b2. Inr (th1, b2)))))"

definition logger_Impl :: "LogLevel \<Rightarrow> int \<Rightarrow> bytes \<Rightarrow> TimeStamp \<Rightarrow> log_thread \<Rightarrow> (log_thread \<times> bytes) result" where
  "logger_Impl level savedErrno strerror now th =
     rbind (formatTime now th []) (\<lambda>(th1, b1).
     rbind (put_cstr (Some (LogLevelName level)) b1) (\<lambda>b2.
     rbind (if savedErrno \<noteq> 0
            then rbind (put_cstr (Some strerror) b2) (\<lambda>b3. rbind (put_cstr (Some ''(errno = '') b3) (\<lambda>b4.
                 rbind (formatInteger savedErrno b4) (put_cstr (Some '') ''))))
            else Inr b2) (\<lambda>b3. Inr (th1, b3))))"

definition logger_finish :: "bytes \<Rightarrow> int \<Rightarrow> bytes \<Rightarrow> bytes result" where
  "logger_finish basename line b =
     rbind (put_cstr (Some '' - '') b) (\<lambda>b1. rbind (put_cstr (Some basename) b1) (\<lambda>b2. rbind (put_char CHR '':'' b2) (\<lambda>b3.
     rbind (formatInteger line b3) (put_char (CHR 0x0A)))))"

text \<open>A whole \<^verbatim>\<open>LOG_\<close> statement with a message, whose line goes to the output; a fatal one then aborts.\<close>

definition log_line ::
  "LogLevel \<Rightarrow> int \<Rightarrow> bytes \<Rightarrow> TimeStamp \<Rightarrow> bytes \<Rightarrow> int \<Rightarrow> bytes \<Rightarrow> log_thread \<Rightarrow> (log_thread \<times> bytes) result" where
  "log_line level savedErrno strerror now file line msg th =
     rbind (logger_Impl level savedErrno strerror now th) (\<lambda>(th1, b1).
     rbind (put_string msg b1) (\<lambda>b2.
     rbind (logger_finish (SourceFile file) line b2) (\<lambda>out.
       if level = FATAL then Inl Fatal_Log else Inr (th1, out))))"

section \<open>Numbers\<close>

lemma c_div_neg: "c_div (- i) 10 = - c_div i 10"
  by (simp add: c_div_def sgn_if)

lemma c_mod_neg: "c_mod (- i) 10 = - c_mod i 10"
  by (simp add: c_mod_def c_div_neg)

lemma c_mod_nonneg: "0 \<le> i \<Longrightarrow> 0 < b \<Longrightarrow> c_mod i b = i mod b"
  by (simp add: c_mod_def c_div_nonneg minus_mult_div_eq_mod)

lemma c_mod_range: "\<bar>c_mod i 10\<bar> < 10"
proof (cases "0 \<le> i")
  case True
  then show ?thesis by (simp add: c_mod_nonneg)
next
  case False
  then have "c_mod i 10 = - ((- i) mod 10)" using c_mod_neg [of i] c_mod_nonneg [of "- i" 10] by simp
  then show ?thesis by simp
qed

text \<open>The table holds the digits from 9 down to 0 and up again, so that the sign of the remainder does not matter.\<close>

lemma zero_at_digit: "d < 10 \<Longrightarrow> zero_at (int d) = char_of (48 + d)" "d < 10 \<Longrightarrow> zero_at (- int d) = char_of (48 + d)"
proof -
  assume "d < 10"
  then have "d \<in> {0, 1, 2, 3, 4, 5, 6, 7, 8, 9}" by auto
  then show "zero_at (int d) = char_of (48 + d)" "zero_at (- int d) = char_of (48 + d)"
    by (elim insertE; simp add: zero_at_def digits_def)+
qed

lemma zero_at_abs: "\<bar>l\<bar> < 10 \<Longrightarrow> zero_at l = char_of (48 + nat \<bar>l\<bar>)"
  using zero_at_digit(1) [of "nat l"] zero_at_digit(2) [of "nat (- l)"] by (cases "0 \<le> l") simp_all

lemma convert_digits_neg: "convert_digits (- i) = convert_digits i"
proof (induction i rule: convert_digits.induct)
  case (1 i)
  have "zero_at (- c_mod i 10) = zero_at (c_mod i 10)" using c_mod_range [of i] by (simp add: zero_at_abs)
  then show ?case
    using 1 by (subst (1 2) convert_digits.simps) (simp add: c_div_neg c_mod_neg Let_def)
qed

lemma convert_digits_nat: "rev (convert_digits (int n)) = nat_to_string n"
proof (induction n rule: nat_to_string.induct)
  case (1 n)
  have d: "c_div (int n) 10 = int (n div 10)" "c_mod (int n) 10 = int (n mod 10)"
    by (simp_all add: c_div_nonneg c_mod_nonneg zdiv_int zmod_int)
  have z: "zero_at (int (n mod 10)) = char_of (48 + n mod 10)" by (simp add: zero_at_digit(1))
  show ?case
  proof (cases "n < 10")
    case True
    then show ?thesis using z by (subst convert_digits.simps, subst nat_to_string.simps) (simp add: d Let_def)
  next
    case False
    then have "n div 10 \<noteq> 0" by simp
    then show ?thesis
      using False 1 z unfolding convert_digits.simps [of "int n"] Let_def d
      by (subst nat_to_string.simps) simp
  qed
qed

lemma length_convertHex_digits: "0 < k \<Longrightarrow> n < 16 ^ k \<Longrightarrow> length (convertHex_digits n) \<le> k"
proof (induction n arbitrary: k rule: convertHex_digits.induct)
  case (1 n)
  show ?case
  proof (cases "n div 16 = 0")
    case True
    then show ?thesis using 1(2) by (subst convertHex_digits.simps) simp
  next
    case False
    then have "16 \<le> n" by (simp add: div_eq_0_iff not_less)
    then obtain k' where k: "k = Suc k'" "0 < k'" using 1(3) by (cases k; cases "k - 1") auto
    then have "n div 16 < 16 ^ k'" using 1(3) by (simp add: div_less_iff_less_mult mult.commute)
    then show ?thesis using 1(1) [OF False k(2)] False k(1) by (subst convertHex_digits.simps) simp
  qed
qed

lemma convert_eq: "convert v = int_to_string v"
proof (cases "v < 0")
  case True
  then have "convert_digits v = convert_digits (int (nat (- v)))" using convert_digits_neg [of v] by simp
  then show ?thesis using True convert_digits_nat [of "nat (- v)"] by (simp add: convert_def int_to_string_def)
next
  case False
  then show ?thesis using convert_digits_nat [of "nat v"] by (simp add: convert_def int_to_string_def)
qed

text \<open>
  The conversion that the log stream uses for all integer types, with its table of digits on both sides of zero
  and C++'s division, prints every integer as \<^verbatim>\<open>std::to_string\<close> does, the most negative ones included.
\<close>

theorem convert_prints_integers: "convert v = int_to_string v"
  by (rule convert_eq)

section \<open>Bounds\<close>

datatype log_item = Log_bool bool | Log_char char | Log_int int | Log_cstr "bytes option" | Log_string bytes
  | Log_pointer nat | Log_double bytes

fun stream_put :: "log_item \<Rightarrow> bytes \<Rightarrow> bytes result" where
  "stream_put (Log_bool v) b = put_bool v b"
| "stream_put (Log_char v) b = put_char v b"
| "stream_put (Log_int v) b = formatInteger v b"
| "stream_put (Log_cstr v) b = put_cstr v b"
| "stream_put (Log_string v) b = put_string v b"
| "stream_put (Log_pointer p) b = put_pointer p b"
| "stream_put (Log_double txt) b = put_double txt b"

fun stream_puts :: "log_item list \<Rightarrow> bytes \<Rightarrow> bytes result" where
  "stream_puts [] b = Inr b"
| "stream_puts (i # xs) b = rbind (stream_put i b) (stream_puts xs)"

text \<open>The text of an item, and the range of its type.\<close>

fun item_text :: "log_item \<Rightarrow> bytes" where
  "item_text (Log_bool v) = (if v then ''1'' else ''0'')"
| "item_text (Log_char v) = [v]"
| "item_text (Log_int v) = int_to_string v"
| "item_text (Log_cstr v) = (case v of None \<Rightarrow> ''(null)'' | Some s \<Rightarrow> c_str s)"
| "item_text (Log_string v) = v"
| "item_text (Log_pointer p) = ''0x'' @ convertHex p"
| "item_text (Log_double txt) = txt"

fun item_ok :: "log_item \<Rightarrow> bool" where
  "item_ok (Log_int v) = (- (2 ^ 63) \<le> v \<and> v < 2 ^ 64)"
| "item_ok (Log_cstr v) = (case v of None \<Rightarrow> True | Some s \<Rightarrow> length s < 2 ^ 31)"
| "item_ok (Log_string v) = (length v < 2 ^ 31)"
| "item_ok (Log_pointer p) = (p < 2 ^ 64)"
| "item_ok (Log_double txt) = (length txt < 48)"
| "item_ok i = True"

lemma length_convert: "- (2 ^ 63) \<le> v \<Longrightarrow> v < 2 ^ 64 \<Longrightarrow> length (int_to_string v) \<le> 21"
proof -
  assume v: "- (2 ^ 63) \<le> v" "v < 2 ^ 64"
  have "nat \<bar>v\<bar> < 10 ^ 20" using v by (simp add: nat_less_iff)
  then have "length (nat_to_string (nat \<bar>v\<bar>)) \<le> 20" by (rule length_nat_to_string [rotated]) simp
  then show ?thesis by (auto simp: int_to_string_def abs_if split: if_splits)
qed

lemma length_convertHex: "p < 2 ^ 64 \<Longrightarrow> length (convertHex p) \<le> 16"
  using length_convertHex_digits [of 16 p] by (simp add: convertHex_def)

lemma length_c_str: "length (c_str s) \<le> length s"
  by (simp add: c_str_def length_takeWhile_le)

lemma fixed_append_ok:
  assumes "length d < 2 ^ 31" "length b < SIZE"
  shows "fixed_append SIZE d b = Inr (if length b + length d < SIZE then b @ d else b)"
proof -
  have "to_signed 32 (int (length d)) = int (length d)" using assms(1) by (intro to_signed_id) auto
  then show ?thesis using assms(2) by (auto simp: fixed_append_def fixed_write_def fixed_avail_def)
qed

lemma numeric_ok:
  assumes "length d < 48" "length b < smallBufferLen"
  shows "(if kMaxNumericSize \<le> fixed_avail smallBufferLen b then fixed_write smallBufferLen d 1 b else Inr b) =
           Inr (if length b + 48 \<le> smallBufferLen then b @ d else b)"
  using assms by (auto simp: kMaxNumericSize_def fixed_avail_def fixed_write_def)

text \<open>Each operator prints the whole text or nothing.\<close>

definition prints :: "log_item \<Rightarrow> bytes \<Rightarrow> bool" where
  "prints i b \<longleftrightarrow>
     (\<exists>c. stream_put i b = Inr (if c then b @ item_text i else b) \<and> (c \<longrightarrow> length b + length (item_text i) < smallBufferLen) \<and>
          (length b + length (item_text i) + 48 \<le> smallBufferLen \<longrightarrow> c))"

lemma prints_text:
  assumes "stream_put i b = fixed_append smallBufferLen (item_text i) b" "length (item_text i) < 2 ^ 31" "length b < smallBufferLen"
  shows "prints i b"
  unfolding prints_def
  using fixed_append_ok [OF assms(2,3)] assms(1)
  by (intro exI [of _ "length b + length (item_text i) < smallBufferLen"]) simp

lemma prints_number:
  assumes "stream_put i b =
      (if kMaxNumericSize \<le> fixed_avail smallBufferLen b then fixed_write smallBufferLen (item_text i) 1 b else Inr b)"
    and "length (item_text i) < 48" "length b < smallBufferLen"
  shows "prints i b"
  unfolding prints_def
  using numeric_ok [OF assms(2,3)] assms(1,2)
  by (intro exI [of _ "length b + 48 \<le> smallBufferLen"]) simp

lemma stream_put_ok: "item_ok i \<Longrightarrow> length b < smallBufferLen \<Longrightarrow> prints i b"
proof -
  assume a: "item_ok i" "length b < smallBufferLen"
  show "prints i b"
  proof (cases i)
    case (Log_int v)
    then show ?thesis
      using a length_convert [of v] by (intro prints_number) (simp_all add: formatInteger_def convert_eq)
  next
    case (Log_pointer p)
    then show ?thesis using a length_convertHex [of p] by (intro prints_number) (simp_all add: put_pointer_def)
  next
    case (Log_double t)
    then show ?thesis using a by (intro prints_number) (simp_all add: put_double_def)
  next
    case (Log_cstr v)
    then show ?thesis
      using a length_c_str by (intro prints_text) (auto simp: put_cstr_def split: option.splits intro: le_less_trans)
  next
    case (Log_bool v)
    then show ?thesis using a by (intro prints_text) (simp_all add: put_bool_def)
  next
    case (Log_char v)
    then show ?thesis using a by (intro prints_text) (simp_all add: put_char_def)
  next
    case (Log_string v)
    then show ?thesis using a by (intro prints_text) (simp_all add: put_string_def)
  qed
qed

lemma stream_puts_ok:
  assumes "list_all item_ok xs" "length b < smallBufferLen"
  shows "\<exists>b'. stream_puts xs b = Inr b' \<and> length b' < smallBufferLen \<and>
           (length b + length (concat (map item_text xs)) + 48 \<le> smallBufferLen \<longrightarrow> b' = b @ concat (map item_text xs))"
  using assms
proof (induction xs arbitrary: b)
  case (Cons i xs)
  obtain c where c: "stream_put i b = Inr (if c then b @ item_text i else b)" "c \<longrightarrow> length b + length (item_text i) < smallBufferLen"
    "length b + length (item_text i) + 48 \<le> smallBufferLen \<longrightarrow> c"
    using stream_put_ok [of i b] Cons.prems by (auto simp: prints_def)
  have "length (if c then b @ item_text i else b) < smallBufferLen" using c(2) Cons.prems(2) by simp
  from Cons.IH [OF _ this] Cons.prems(1) show ?case using c by (cases c) auto
qed simp

text \<open>
  No sequence of \<^verbatim>\<open><<\<close> on a log stream writes outside its 4096 bytes, whatever the numbers, pointers and strings are
  (a string of two gigabytes or more is excluded: its length is cast to a 32 bit integer); and as long as 48 bytes
  remain free, the buffer holds exactly the texts of the items.
\<close>

theorem log_stream_in_bounds:
  assumes "list_all item_ok xs"
  shows "\<exists>b. stream_puts xs [] = Inr b \<and> length b < smallBufferLen \<and>
           (length (concat (map item_text xs)) + 48 \<le> smallBufferLen \<longrightarrow> b = concat (map item_text xs))"
  using stream_puts_ok [OF assms, of "[]"] by (simp add: smallBufferLen_def)

theorem log_stream_in_bounds_witness:
  "stream_puts [Log_int (- 7), Log_char CHR '' '', Log_bool True, Log_cstr None] [] = Inr ''-7 1(null)''"
proof -
  have "concat (map item_text [Log_int (- 7), Log_char CHR '' '', Log_bool True, Log_cstr None]) = ''-7 1(null)''"
    by (simp add: int_to_string_def nat_to_string.simps)
  then show ?thesis
    using log_stream_in_bounds [of "[Log_int (- 7), Log_char CHR '' '', Log_bool True, Log_cstr None]"]
    by (auto simp: smallBufferLen_def)
qed

section \<open>The lines of the loggers\<close>

lemma append_fits:
  "length d < 2 ^ 31 \<Longrightarrow> length b + length d < SIZE \<Longrightarrow> fixed_append SIZE d b = Inr (b @ d)"
  using fixed_append_ok [of d b SIZE] by simp

lemma number_fits:
  "- (2 ^ 63) \<le> v \<Longrightarrow> v < 2 ^ 64 \<Longrightarrow> length b + 48 \<le> smallBufferLen \<Longrightarrow> formatInteger v b = Inr (b @ int_to_string v)"
  unfolding formatInteger_def convert_eq using length_convert [of v] by (subst numeric_ok) simp_all

lemma NUL_free_c_str: "NUL \<notin> set s \<Longrightarrow> c_str s = s"
  by (auto simp: c_str_def takeWhile_eq_all_conv)

lemma SourceFile_part: "length (SourceFile f) \<le> length f" "NUL \<notin> set f \<Longrightarrow> NUL \<notin> set (SourceFile f)"
proof -
  show "length (SourceFile f) \<le> length f"
    by (simp add: SourceFile_def) (metis length_rev length_takeWhile_le)
  show "NUL \<notin> set f \<Longrightarrow> NUL \<notin> set (SourceFile f)"
    by (auto simp: SourceFile_def dest: set_takeWhileD)
qed

lemma formatTime_zero:
  "formatTime 0 mkLogThread [] = Inr (mkLogThread, ''.000000 '')"
proof -
  have "put_cstr (Some []) [] = Inr []" by (simp add: put_cstr_def c_str_def append_fits smallBufferLen_def)
  moreover have "''.'' @ fmt_zero 6 0 @ '' '' = ''.000000 ''" by code_simp
  moreover have "put_cstr (Some ''.000000 '') [] = Inr ''.000000 ''"
    by (simp add: put_cstr_def c_str_def NUL_def append_fits smallBufferLen_def)
  moreover have "c_div 0 kMicroSecondsPerSec = 0" "c_mod 0 kMicroSecondsPerSec = 0" by (simp_all add: c_div_def c_mod_def)
  ultimately show ?thesis by (simp add: formatTime_def mkLogThread_def)
qed

lemma LogLevelName_c_str: "c_str (LogLevelName l) = LogLevelName l" "length (LogLevelName l) \<le> 6"
  by (cases l; simp add: c_str_def NUL_def)+

text \<open>
  What a log statement prints: a level, the message, the file's name without its path and the line number.
  The time is missing from it: it reads \<^verbatim>\<open>.000000\<close> without a date whenever the statement is executed, since \<^verbatim>\<open>TimeStamp::now()\<close>
  is always 0, which is also the second for which the cached date, still empty, is taken to be up to date.
\<close>

theorem log_line_text:
  assumes "level \<noteq> FATAL" and "length msg + length file \<le> 3900" and "NUL \<notin> set file" and "0 \<le> line" and "line < 2 ^ 31"
  shows "log_line level 0 err (timestamp_now sec usec) file line msg mkLogThread =
           Inr (mkLogThread,
                ''.000000 '' @ LogLevelName level @ msg @ '' - '' @ SourceFile file @ '':'' @ int_to_string line @ [CHR 0x0A])"
proof -
  note sf = SourceFile_part(1) [of "file"] SourceFile_part(2) [OF assms(3)]
  have len: "length (SourceFile file) \<le> length file" "length (LogLevelName level) \<le> 6"
    by (rule sf(1)) (rule LogLevelName_c_str(2))
  have impl: "logger_Impl level 0 err (timestamp_now sec usec) mkLogThread = Inr (mkLogThread, ''.000000 '' @ LogLevelName level)"
    using len by (simp add: logger_Impl_def timestamp_now_def mkTimeStamp_def formatTime_zero put_cstr_def LogLevelName_c_str(1)
        append_fits smallBufferLen_def)
  have msg: "put_string msg (''.000000 '' @ LogLevelName level) = Inr (''.000000 '' @ LogLevelName level @ msg)"
    using assms(2) len by (simp add: put_string_def append_fits smallBufferLen_def)
  have cs: "c_str '' - '' = '' - ''" "c_str (SourceFile file) = SourceFile file"
    by (simp add: c_str_def NUL_def) (rule NUL_free_c_str [OF sf(2)])
  have "length (int_to_string line) \<le> 21" using assms(4,5) by (intro length_convert) auto
  then have fin: "logger_finish (SourceFile file) line (''.000000 '' @ LogLevelName level @ msg) =
      Inr (''.000000 '' @ LogLevelName level @ msg @ '' - '' @ SourceFile file @ '':'' @ int_to_string line @ [CHR 0x0A])"
    using assms(2,4,5) len cs by (simp add: logger_finish_def put_cstr_def put_char_def append_fits number_fits smallBufferLen_def)
  show ?thesis unfolding log_line_def impl rbind_simps prod.case msg fin using assms(1) by simp
qed

theorem log_line_text_witness:
  "log_line INFO 0 [] (timestamp_now 1700000000 42) ''/src/app/main.cpp'' 7 ''hello'' mkLogThread =
     Inr (mkLogThread, ''.000000 '' @ LogLevelName INFO @ ''hello'' @ '' - '' @ SourceFile ''/src/app/main.cpp'' @ '':'' @
                       int_to_string 7 @ [CHR 0x0A])"
  by (rule log_line_text) (simp_all add: NUL_def)

section \<open>Asynchronous logging\<close>

text \<open>
  \<^verbatim>\<open>currentBuffer_\<close>, \<^verbatim>\<open>nextBuffer_\<close> and \<^verbatim>\<open>buffers_\<close> under the mutex; the two spare buffers of the thread that writes, and, between its
  swap and the end of its writing, the buffers it has taken; its output, and whether it has dropped buffers.
\<close>

record AsyncLogging =
  currentBuffer :: bytes
  nextBuffer :: "bytes option"
  al_buffers :: "bytes list"
  newBuffer1 :: "bytes option"
  newBuffer2 :: "bytes option"
  buffersToWrite :: "bytes list option"
  al_output :: bytes
  al_dropped :: bool

definition mkAsyncLogging :: AsyncLogging where
  "mkAsyncLogging = \<lparr>currentBuffer = [], nextBuffer = Some [], al_buffers = [], newBuffer1 = Some [], newBuffer2 = Some [],
                     buffersToWrite = None, al_output = [], al_dropped = False\<rparr>"

definition async_append :: "bytes \<Rightarrow> AsyncLogging \<Rightarrow> AsyncLogging result" where
  "async_append logline a =
     (if int (length logline) < fixed_avail largeBufferLen (currentBuffer a)
      then rbind (fixed_append largeBufferLen logline (currentBuffer a)) (\<lambda>b. Inr (a\<lparr>currentBuffer := b\<rparr>))
      else let a1 = a\<lparr>al_buffers := al_buffers a @ [currentBuffer a]\<rparr>;
               a2 = (case nextBuffer a1 of
                       Some b \<Rightarrow> a1\<lparr>currentBuffer := b, nextBuffer := None\<rparr>
                     | None \<Rightarrow> a1\<lparr>currentBuffer := []\<rparr>)
           in rbind (fixed_append largeBufferLen logline (currentBuffer a2)) (\<lambda>b. Inr (a2\<lparr>currentBuffer := b\<rparr>)))"

text \<open>The part of the writing thread's loop that holds the mutex.\<close>

definition async_swap :: "AsyncLogging \<Rightarrow> AsyncLogging result" where
  "async_swap a =
     rbind (passert (newBuffer1 a = Some [])) (\<lambda>_.
     rbind (passert (newBuffer2 a = Some [])) (\<lambda>_.
     rbind (passert (buffersToWrite a = None)) (\<lambda>_.
       let a1 = a\<lparr>buffersToWrite := Some (al_buffers a @ [currentBuffer a]), al_buffers := [],
                  currentBuffer := the (newBuffer1 a), newBuffer1 := None\<rparr>
       in Inr (if nextBuffer a1 = None then a1\<lparr>nextBuffer := newBuffer2 a1, newBuffer2 := None\<rparr> else a1))))"

text \<open>The last of the buffers that are left becomes the spare one, emptied.\<close>

definition recycle :: "bytes option \<Rightarrow> bytes list \<Rightarrow> (bytes option \<times> bytes list) result" where
  "recycle nb ws =
     (if nb = None then rbind (passert (ws \<noteq> [])) (\<lambda>_. Inr (Some [], butlast ws)) else Inr (nb, ws))"

text \<open>The rest of the loop; \<open>msg\<close> is the message about dropped buffers.\<close>

definition async_write :: "bytes \<Rightarrow> AsyncLogging \<Rightarrow> AsyncLogging result" where
  "async_write msg a =
     (case buffersToWrite a of
        None \<Rightarrow> Inl Assertion_Failed
      | Some ws \<Rightarrow>
          rbind (passert (ws \<noteq> [])) (\<lambda>_.
            let drop_some = 25 < length ws;
                out1 = (if drop_some then al_output a @ msg else al_output a);
                ws1 = (if drop_some then take 2 ws else ws);
                ws2 = take 2 ws1
            in rbind (recycle (newBuffer1 a) ws2) (\<lambda>(n1, ws3).
               rbind (recycle (newBuffer2 a) ws3) (\<lambda>(n2, ws4).
                 Inr (a\<lparr>al_output := out1 @ concat ws1, newBuffer1 := n1, newBuffer2 := n2, buffersToWrite := None,
                        al_dropped := al_dropped a \<or> drop_some\<rparr>)))))"

datatype async_event = Append bytes | Swap_buffers | Write_buffers bytes

text \<open>The writing thread swaps and writes in turn.\<close>

fun async_trace :: "async_event list \<Rightarrow> AsyncLogging \<Rightarrow> AsyncLogging result" where
  "async_trace [] a = Inr a"
| "async_trace (Append l # es) a = rbind (async_append l a) (async_trace es)"
| "async_trace (Swap_buffers # es) a =
     (if buffersToWrite a = None then rbind (async_swap a) (async_trace es) else async_trace es a)"
| "async_trace (Write_buffers msg # es) a =
     (if buffersToWrite a = None then async_trace es a else rbind (async_write msg a) (async_trace es))"

fun logged :: "async_event \<Rightarrow> bytes" where
  "logged (Append l) = l"
| "logged e = []"

definition al_pending :: "AsyncLogging \<Rightarrow> bytes" where
  "al_pending a = concat (case buffersToWrite a of None \<Rightarrow> [] | Some ws \<Rightarrow> ws) @ concat (al_buffers a) @ currentBuffer a"

definition async_inv :: "bytes \<Rightarrow> AsyncLogging \<Rightarrow> bool" where
  "async_inv d a \<longleftrightarrow>
     (nextBuffer a = None \<and> al_buffers a \<noteq> [] \<or> nextBuffer a = Some []) \<and>
     length (currentBuffer a) < largeBufferLen \<and>
     (case buffersToWrite a of
        None \<Rightarrow> newBuffer1 a = Some [] \<and> newBuffer2 a = Some []
      | Some ws \<Rightarrow> newBuffer1 a = None \<and> ws \<noteq> [] \<and> (newBuffer2 a = Some [] \<or> newBuffer2 a = None \<and> 2 \<le> length ws)) \<and>
     (\<not> al_dropped a \<longrightarrow> al_output a @ al_pending a = d)"

lemma async_append_inv:
  assumes "async_inv d a" "length l < largeBufferLen"
  shows "\<exists>a'. async_append l a = Inr a' \<and> async_inv (d @ l) a'"
proof (cases "length (currentBuffer a) + length l < largeBufferLen")
  case True
  then have "async_append l a = Inr (a\<lparr>currentBuffer := currentBuffer a @ l\<rparr>)"
    using assms(2) by (simp add: async_append_def fixed_avail_def append_fits largeBufferLen_def)
  then show ?thesis using assms(1) True by (auto simp: async_inv_def al_pending_def split: option.splits)
next
  case False
  then have "async_append l a = Inr (a\<lparr>al_buffers := al_buffers a @ [currentBuffer a], currentBuffer := l, nextBuffer := None\<rparr>)"
    using assms by (auto simp: async_append_def fixed_avail_def append_fits largeBufferLen_def async_inv_def Let_def split: option.splits)
  then show ?thesis using assms by (auto simp: async_inv_def al_pending_def split: option.splits)
qed

lemma async_swap_inv:
  "async_inv d a \<Longrightarrow> buffersToWrite a = None \<Longrightarrow> \<exists>a'. async_swap a = Inr a' \<and> async_inv d a'"
  by (auto simp: async_swap_def async_inv_def al_pending_def Let_def largeBufferLen_def Suc_le_eq)

lemma async_write_inv:
  assumes inv: "async_inv d a" and ws: "buffersToWrite a = Some ws"
  shows "\<exists>a'. async_write msg a = Inr a' \<and> async_inv d a'"
proof -
  define ws2 where "ws2 = take 2 (if 25 < length ws then take 2 ws else ws)"
  have l: "length ws2 = min 2 (length ws)" by (simp add: ws2_def min.commute)
  have n1: "newBuffer1 a = None" "ws \<noteq> []" "newBuffer2 a = Some [] \<or> newBuffer2 a = None \<and> 2 \<le> length ws"
    using inv ws by (auto simp: async_inv_def)
  then have "ws2 \<noteq> []" using l by (cases ws) auto
  moreover have "butlast ws2 \<noteq> []" if "newBuffer2 a = None" using n1(3) that l by (cases ws2 rule: rev_cases) auto
  ultimately obtain ws4 where "recycle (newBuffer1 a) ws2 = Inr (Some [], butlast ws2)" "recycle (newBuffer2 a) (butlast ws2) = Inr (Some [], ws4)"
    using n1 by (auto simp: recycle_def)
  then have "async_write msg a = Inr (a\<lparr>al_output := (if 25 < length ws then al_output a @ msg else al_output a) @
       concat (if 25 < length ws then take 2 ws else ws), newBuffer1 := Some [], newBuffer2 := Some [], buffersToWrite := None,
       al_dropped := al_dropped a \<or> 25 < length ws\<rparr>)"
    using n1(2) by (simp add: async_write_def ws Let_def ws2_def [symmetric])
  then show ?thesis using inv ws by (auto simp: async_inv_def al_pending_def)
qed

lemma async_trace_inv:
  assumes "async_inv d a" "\<forall>e \<in> set es. length (logged e) < largeBufferLen"
  shows "\<exists>a'. async_trace es a = Inr a' \<and> async_inv (d @ concat (map logged es)) a'"
  using assms
proof (induction es a arbitrary: d rule: async_trace.induct)
  case (2 l es a)
  obtain a1 where a1: "async_append l a = Inr a1" "async_inv (d @ l) a1" using async_append_inv [OF 2(2), of l] 2(3) by auto
  then show ?case using 2(1) [OF a1] 2(3) by simp
next
  case (3 es a)
  then show ?case using async_swap_inv [OF 3(3)] by (cases "buffersToWrite a") auto
next
  case (4 msg es a)
  show ?case
  proof (cases "buffersToWrite a")
    case (Some ws)
    obtain a1 where "async_write msg a = Inr a1" "async_inv d a1" using async_write_inv [OF 4(3) Some] by blast
    then show ?thesis using 4(2,4) Some by simp
  qed (use 4 in simp)
qed simp

text \<open>
  C24 (safety). Between the threads that log and the thread that writes no assertion fails and no buffer overflows; and unless more
  than 25 buffers pile up, no line is lost, repeated or put out of order: what has been written, followed by what waits in the
  buffers, is at any time everything that has been logged, in that order.
\<close>

theorem async_logging_loses_nothing:
  assumes "\<forall>e \<in> set es. length (logged e) < largeBufferLen"
  shows "\<exists>a. async_trace es mkAsyncLogging = Inr a \<and>
           (\<not> al_dropped a \<longrightarrow> al_output a @ al_pending a = concat (map logged es))"
proof -
  have "async_inv [] mkAsyncLogging"
    by (simp add: async_inv_def mkAsyncLogging_def al_pending_def largeBufferLen_def)
  from async_trace_inv [OF this assms] show ?thesis by (auto simp: async_inv_def)
qed

theorem async_logging_loses_nothing_witness:
  "\<exists>a. async_trace [Append ''one'', Swap_buffers, Append ''two'', Write_buffers ''dropped'', Swap_buffers] mkAsyncLogging = Inr a \<and>
     al_output a @ al_pending a = ''onetwo''"
proof -
  let ?es = "[Append ''one'', Swap_buffers, Append ''two'', Write_buffers ''dropped'', Swap_buffers]"
  have "\<forall>e \<in> set ?es. length (logged e) < largeBufferLen" by (simp add: largeBufferLen_def)
  moreover have "async_trace ?es mkAsyncLogging = Inr a \<Longrightarrow> \<not> al_dropped a" for a
    by (auto simp: mkAsyncLogging_def async_append_def async_swap_def async_write_def recycle_def fixed_append_def fixed_avail_def
        fixed_write_def largeBufferLen_def to_signed_def Let_def split: if_splits)
  ultimately show ?thesis using async_logging_loses_nothing [of ?es] by fastforce
qed

section \<open>Rolling files\<close>

text \<open>The files a \<^verbatim>\<open>LogFile\<close> has opened, the last one being the current one, by name and contents.\<close>

record LogFile =
  lf_count :: int
  startOfPeriod :: int
  lastRoll :: int
  lastFlush :: int
  lf_files :: "(bytes \<times> bytes) list"
  lf_flushes :: nat

definition kRollPerSeconds :: int where
  "kRollPerSeconds = 60 * 60 * 24"

text \<open>\<open>stamp\<close>: the local time as \<^verbatim>\<open>strftime\<close> prints it.\<close>

definition getLogFileName :: "(int \<Rightarrow> bytes) \<Rightarrow> bytes \<Rightarrow> int \<Rightarrow> bytes \<Rightarrow> int \<Rightarrow> bytes" where
  "getLogFileName stamp hostName pid basename now = basename @ stamp now @ hostName @ ''.'' @ int_to_string pid @ ''.log''"

definition rollFile :: "(int \<Rightarrow> bytes) \<Rightarrow> int \<Rightarrow> LogFile \<Rightarrow> bool \<times> LogFile" where
  "rollFile file_name now f =
     (let start = c_div now kRollPerSeconds * kRollPerSeconds
      in if lastRoll f < now
         then (True, f\<lparr>lastRoll := now, lastFlush := now, startOfPeriod := start, lf_files := lf_files f @ [(file_name now, [])]\<rparr>)
         else (False, f))"

definition mkLogFile :: "(int \<Rightarrow> bytes) \<Rightarrow> bytes \<Rightarrow> int \<Rightarrow> LogFile result" where
  "mkLogFile file_name basename now =
     rbind (passert (CHR ''/'' \<notin> set basename)) (\<lambda>_.
       Inr (snd (rollFile file_name now
         \<lparr>lf_count = 0, startOfPeriod = 0, lastRoll = 0, lastFlush = 0, lf_files = [], lf_flushes = 0\<rparr>)))"

definition file_append :: "bytes \<Rightarrow> LogFile \<Rightarrow> LogFile result" where
  "file_append logline f =
     (if lf_files f = [] then Inl Out_Of_Bounds
      else Inr (f\<lparr>lf_files := butlast (lf_files f) @ [(fst (last (lf_files f)), snd (last (lf_files f)) @ logline)]\<rparr>))"

definition file_flush :: "LogFile \<Rightarrow> LogFile" where
  "file_flush f = f\<lparr>lf_flushes := Suc (lf_flushes f)\<rparr>"

text \<open>\<open>now\<close> and \<open>roll_time\<close>: the clock when the period is checked and when the file is rolled.\<close>

definition append_unlocked ::
  "(int \<Rightarrow> bytes) \<Rightarrow> int \<Rightarrow> int \<Rightarrow> int \<Rightarrow> bytes \<Rightarrow> int \<Rightarrow> int \<Rightarrow> LogFile \<Rightarrow> LogFile result" where
  "append_unlocked file_name rollSize flushInterval checkEveryN logline now roll_time f =
     rbind (file_append logline f) (\<lambda>f1.
       Inr (if rollSize < int (length (snd (last (lf_files f1)))) then snd (rollFile file_name roll_time f1)
            else let f2 = f1\<lparr>lf_count := lf_count f1 + 1\<rparr>
                 in if checkEveryN \<le> lf_count f2
                    then let f3 = f2\<lparr>lf_count := 0\<rparr>; thisPeriod = c_div now kRollPerSeconds * kRollPerSeconds
                         in if thisPeriod \<noteq> startOfPeriod f3 then snd (rollFile file_name roll_time f3)
                            else if flushInterval < now - lastFlush f3 then file_flush (f3\<lparr>lastFlush := now\<rparr>) else f3
                    else f2))"

text \<open>Rolling loses nothing: the files hold, one after the other, what has been appended.\<close>

definition lf_contents :: "LogFile \<Rightarrow> bytes" where
  "lf_contents f = concat (map snd (lf_files f))"

lemma rollFile_contents [simp]:
  "lf_contents (snd (rollFile file_name now f)) = lf_contents f"
  "lf_files f \<noteq> [] \<Longrightarrow> lf_files (snd (rollFile file_name now f)) \<noteq> []"
  by (simp_all add: rollFile_def Let_def lf_contents_def)

lemma mkLogFile_opens: "0 < now \<Longrightarrow> CHR ''/'' \<notin> set basename \<Longrightarrow> \<exists>f. mkLogFile file_name basename now = Inr f \<and> lf_files f \<noteq> []"
  by (simp add: mkLogFile_def rollFile_def Let_def)

lemma append_unlocked_contents:
  assumes "lf_files f \<noteq> []"
  shows "\<exists>f'. append_unlocked file_name rollSize flushInterval checkEveryN logline now roll_time f = Inr f' \<and>
           lf_contents f' = lf_contents f @ logline \<and> lf_files f' \<noteq> []"
proof -
  define f1 where "f1 = f\<lparr>lf_files := butlast (lf_files f) @ [(fst (last (lf_files f)), snd (last (lf_files f)) @ logline)]\<rparr>"
  obtain fs l where "lf_files f = fs @ [l]" using assms by (cases "lf_files f" rule: rev_cases) auto
  then have "lf_contents f1 = lf_contents f @ logline" "lf_files f1 \<noteq> []" by (simp_all add: f1_def lf_contents_def)
  moreover have "file_append logline f = Inr f1" using assms by (simp add: file_append_def f1_def)
  moreover have "lf_contents (f1\<lparr>lf_count := n\<rparr>) = lf_contents f1" "lf_contents (file_flush (f1\<lparr>lf_count := n, lastFlush := m\<rparr>)) = lf_contents f1"
    for n m by (simp_all add: lf_contents_def file_flush_def)
  ultimately show ?thesis by (auto simp: append_unlocked_def Let_def file_flush_def)
qed

end
