(* ===== verification/Fk_String.thy ===== *)
theory Fk_String
  imports Calendar
begin

text \<open>
  \<^verbatim>\<open>FKString\<close> (\<^verbatim>\<open>inc/utils/datastructures/FKString.hpp\<close>, \<^verbatim>\<open>src/utils/datastructures/FKString.cpp\<close>): a view, a pointer and a
  length, on bytes that something else owns.  The memory is a map from blocks to their bytes; a pointer is a block with an
  offset, and reading outside of a block, from a freed block or through the null pointer is a fault.  Lemmas: on views that
  lie in their block the operations are those of the byte strings they show, with the exceptions of the two comparisons.
\<close>

section \<open>Memory\<close>

type_synonym memory = "nat \<rightharpoonup> bytes"

datatype ptr = Null | Ptr nat int

text \<open>The bytes from a pointer to the end of its block.\<close>

fun mem_from :: "memory \<Rightarrow> ptr \<Rightarrow> bytes option" where
  "mem_from m Null = None"
| "mem_from m (Ptr b off) =
     (case m b of None \<Rightarrow> None | Some bs \<Rightarrow> if 0 \<le> off \<and> nat off \<le> length bs then Some (drop (nat off) bs) else None)"

fun ptr_add :: "ptr \<Rightarrow> int \<Rightarrow> ptr" where
  "ptr_add Null n = Null"
| "ptr_add (Ptr b off) n = Ptr b (off + n)"

definition load_bytes :: "memory \<Rightarrow> ptr \<Rightarrow> nat \<Rightarrow> bytes result" where
  "load_bytes m p n =
     (if n = 0 then Inr []
      else case mem_from m p of None \<Rightarrow> Inl Out_Of_Bounds | Some bs \<Rightarrow> if n \<le> length bs then Inr (take n bs) else Inl Out_Of_Bounds)"

definition strlen :: "memory \<Rightarrow> ptr \<Rightarrow> nat result" where
  "strlen m p =
     (case mem_from m p of
        None \<Rightarrow> Inl Out_Of_Bounds
      | Some bs \<Rightarrow> if NUL \<in> set bs then Inr (length (takeWhile (\<lambda>c. c \<noteq> NUL) bs)) else Inl Out_Of_Bounds)"

text \<open>Whether \<^verbatim>\<open>strncmp\<close> returns 0: it stops behind a difference and behind a common zero byte.\<close>

fun strncmp_zero :: "nat \<Rightarrow> bytes \<Rightarrow> bytes \<Rightarrow> bool result" where
  "strncmp_zero 0 xs ys = Inr True"
| "strncmp_zero (Suc n) (x # xs) (y # ys) = (if x \<noteq> y then Inr False else if x = NUL then Inr True else strncmp_zero n xs ys)"
| "strncmp_zero (Suc n) xs ys = Inl Out_Of_Bounds"

definition strncmp_eq :: "memory \<Rightarrow> ptr \<Rightarrow> ptr \<Rightarrow> nat \<Rightarrow> bool result" where
  "strncmp_eq m p q n =
     (if n = 0 then Inr True
      else case (mem_from m p, mem_from m q) of
             (Some xs, Some ys) \<Rightarrow> strncmp_zero n xs ys
           | _ \<Rightarrow> Inl Out_Of_Bounds)"

definition memcmp_eq :: "memory \<Rightarrow> ptr \<Rightarrow> ptr \<Rightarrow> nat \<Rightarrow> bool result" where
  "memcmp_eq m p q n = rbind (load_bytes m p n) (\<lambda>xs. rbind (load_bytes m q n) (\<lambda>ys. Inr (xs = ys)))"

section \<open>The view\<close>

record FKString =
  sptr :: ptr
  fk_length :: int

definition fk_empty :: FKString where
  "fk_empty = \<lparr>sptr = Null, fk_length = 0\<rparr>"

definition fk_of_cstr :: "memory \<Rightarrow> ptr \<Rightarrow> FKString result" where
  "fk_of_cstr m str = rbind (strlen m str) (\<lambda>n. Inr \<lparr>sptr = str, fk_length = int n\<rparr>)"

text \<open>A \<^verbatim>\<open>std::string\<close> whose characters, with a terminating zero behind them, are in the given block.\<close>

definition fk_of_string :: "nat \<Rightarrow> nat \<Rightarrow> FKString" where
  "fk_of_string block size_of = \<lparr>sptr = Ptr block 0, fk_length = int size_of\<rparr>"

definition fk_of_range :: "ptr \<Rightarrow> int \<Rightarrow> FKString" where
  "fk_of_range offset len = \<lparr>sptr = offset, fk_length = len\<rparr>"

definition fk_data :: "FKString \<Rightarrow> ptr" where
  "fk_data v = sptr v"

definition fk_size :: "FKString \<Rightarrow> int" where
  "fk_size v = to_signed 32 (fk_length v)"

definition fk_is_empty :: "FKString \<Rightarrow> bool" where
  "fk_is_empty v \<longleftrightarrow> fk_length v = 0"

definition fk_clear :: "FKString \<Rightarrow> FKString" where
  "fk_clear v = v\<lparr>sptr := Null, fk_length := 0\<rparr>"

definition fk_set_range :: "ptr \<Rightarrow> int \<Rightarrow> FKString \<Rightarrow> FKString" where
  "fk_set_range str len v = v\<lparr>sptr := str, fk_length := len\<rparr>"

definition fk_set :: "memory \<Rightarrow> ptr \<Rightarrow> FKString \<Rightarrow> FKString result" where
  "fk_set m str v = rbind (strlen m str) (\<lambda>n. Inr (v\<lparr>sptr := str, fk_length := int n\<rparr>))"

definition fk_index :: "memory \<Rightarrow> FKString \<Rightarrow> int \<Rightarrow> char result" where
  "fk_index m v i = rbind (load_bytes m (ptr_add (sptr v) i) 1) (\<lambda>bs. Inr (hd bs))"

definition remove_prefix :: "int \<Rightarrow> FKString \<Rightarrow> FKString" where
  "remove_prefix n v = v\<lparr>sptr := ptr_add (sptr v) n, fk_length := fk_length v - n\<rparr>"

definition remove_suffix :: "int \<Rightarrow> FKString \<Rightarrow> FKString" where
  "remove_suffix n v = v\<lparr>fk_length := fk_length v - n\<rparr>"

definition fk_equals :: "memory \<Rightarrow> FKString \<Rightarrow> FKString \<Rightarrow> bool result" where
  "fk_equals m v w =
     (if fk_length v = fk_size w then strncmp_eq m (sptr v) (fk_data w) (size_of_int (fk_length v)) else Inr False)"

definition fk_differs :: "memory \<Rightarrow> FKString \<Rightarrow> FKString \<Rightarrow> bool result" where
  "fk_differs m v w =
     (if fk_length v \<noteq> fk_size w then Inr True else strncmp_eq m (sptr v) (fk_data w) (size_of_int (fk_length v)))"

text \<open>A \<^verbatim>\<open>std::string\<close> of \<open>n\<close> bytes from a pointer; a negative length becomes one that no string can have.\<close>

definition mk_string :: "memory \<Rightarrow> ptr \<Rightarrow> int \<Rightarrow> bytes result" where
  "mk_string m p n = (if vec_max < size_of_int n then Inl Length_Error else load_bytes m p (size_of_int n))"

definition as_string :: "memory \<Rightarrow> FKString \<Rightarrow> bytes result" where
  "as_string m v = mk_string m (fk_data v) (fk_size v)"

definition CopyToString :: "memory \<Rightarrow> FKString \<Rightarrow> bytes result" where
  "CopyToString m v = mk_string m (sptr v) (fk_length v)"

definition StartWith :: "memory \<Rightarrow> FKString \<Rightarrow> FKString \<Rightarrow> bool result" where
  "StartWith m v w =
     (if fk_length w \<le> fk_length v then memcmp_eq m (sptr v) (sptr w) (size_of_int (fk_length w)) else Inr False)"

section \<open>What a view shows\<close>

definition view_ok :: "memory \<Rightarrow> FKString \<Rightarrow> bool" where
  "view_ok m v \<longleftrightarrow>
     0 \<le> fk_length v \<and> fk_length v < 2 ^ 31 \<and>
     (case mem_from m (sptr v) of None \<Rightarrow> fk_length v = 0 | Some bs \<Rightarrow> nat (fk_length v) \<le> length bs)"

definition view :: "memory \<Rightarrow> FKString \<Rightarrow> bytes" where
  "view m v = (case mem_from m (sptr v) of None \<Rightarrow> [] | Some bs \<Rightarrow> take (nat (fk_length v)) bs)"

lemma size_of_int_id: "0 \<le> n \<Longrightarrow> n < 2 ^ 64 \<Longrightarrow> size_of_int n = nat n"
  by (simp add: size_of_int_def)

lemma view_ok_size:
  assumes "view_ok m v"
  shows "fk_size v = fk_length v" "size_of_int (fk_length v) = nat (fk_length v)" "length (view m v) = nat (fk_length v)"
  using assms
  by (auto simp: view_ok_def fk_size_def view_def to_signed_id size_of_int_id split: option.splits)

lemma load_view: "view_ok m v \<Longrightarrow> k \<le> nat (fk_length v) \<Longrightarrow> load_bytes m (sptr v) k = Inr (take k (view m v))"
  by (auto simp: view_ok_def load_bytes_def view_def min_def split: option.splits)

lemma strncmp_zero_c_str:
  "n \<le> length xs \<Longrightarrow> n \<le> length ys \<Longrightarrow> strncmp_zero n xs ys = Inr (c_str (take n xs) = c_str (take n ys))"
  by (induction n xs ys rule: strncmp_zero.induct) (auto simp: c_str_def)

lemma strncmp_view:
  assumes "view_ok m v" "view_ok m w" "fk_length v = fk_length w"
  shows "strncmp_eq m (sptr v) (sptr w) (nat (fk_length v)) = Inr (c_str (view m v) = c_str (view m w))"
  using assms strncmp_zero_c_str
  by (auto simp: view_ok_def strncmp_eq_def view_def split: option.splits)

lemma memcmp_view:
  assumes "view_ok m v" "view_ok m w" "fk_length w \<le> fk_length v"
  shows "memcmp_eq m (sptr v) (sptr w) (nat (fk_length w)) = Inr (starts_with (view m w) (view m v))"
proof -
  have le: "nat (fk_length w) \<le> nat (fk_length v)" using assms(3) by simp
  have "take (nat (fk_length w)) (view m v) = view m w \<longleftrightarrow> starts_with (view m w) (view m v)"
    using view_ok_size(3) [OF assms(2)] le view_ok_size(3) [OF assms(1)]
    by (auto simp: starts_with_iff) (metis append_take_drop_id)
  moreover have "take (nat (fk_length w)) (view m w) = view m w" using view_ok_size(3) [OF assms(2)] by simp
  ultimately show ?thesis using load_view [OF assms(1) le] load_view [OF assms(2) order_refl] by (simp add: memcmp_eq_def)
qed

lemma mk_string_view: "view_ok m v \<Longrightarrow> mk_string m (sptr v) (fk_length v) = Inr (view m v)"
  using load_view [OF _ order_refl, of m v] view_ok_size [of m v]
  by (auto simp: mk_string_def vec_max_def view_ok_def)

lemma remove_prefix_view:
  assumes "view_ok m v" "0 \<le> n" "n \<le> fk_length v"
  shows "view_ok m (remove_prefix n v)" "view m (remove_prefix n v) = drop (nat n) (view m v)"
proof -
  have "mem_from m (ptr_add (sptr v) n) = map_option (drop (nat n)) (mem_from m (sptr v))"
    using assms by (cases "sptr v") (auto simp: view_ok_def nat_add_distrib add.commute split: option.splits if_splits)
  then show "view_ok m (remove_prefix n v)" "view m (remove_prefix n v) = drop (nat n) (view m v)"
    using assms by (auto simp: view_ok_def remove_prefix_def view_def drop_take nat_diff_distrib split: option.splits)
qed

lemma remove_suffix_view:
  assumes "view_ok m v" "0 \<le> n" "n \<le> fk_length v"
  shows "view_ok m (remove_suffix n v)" "view m (remove_suffix n v) = take (length (view m v) - nat n) (view m v)"
  using assms by (auto simp: view_ok_def remove_suffix_def view_def nat_diff_distrib min_def split: option.splits)

text \<open>
  On views that lie in their memory \<^verbatim>\<open>FKString\<close> implements operations on the bytes it shows, without ever
  reading outside of them: the copies are those bytes, \<^verbatim>\<open>StartWith\<close> is the prefix order, taking away at either end drops those
  bytes.  Equality, which rests on \<^verbatim>\<open>strncmp\<close>, looks no further than a zero byte.
\<close>

theorem fkstring_shows_bytes:
  assumes "view_ok m v" and "view_ok m w" and "0 \<le> n" and "n \<le> fk_length v"
  shows "as_string m v = Inr (view m v) \<and> CopyToString m v = Inr (view m v) \<and>
         StartWith m v w = Inr (starts_with (view m w) (view m v)) \<and>
         fk_equals m v w = Inr (length (view m v) = length (view m w) \<and> c_str (view m v) = c_str (view m w)) \<and>
         as_string m (remove_prefix n v) = Inr (drop (nat n) (view m v)) \<and>
         as_string m (remove_suffix n v) = Inr (take (length (view m v) - nat n) (view m v))"
proof -
  have as: "as_string m u = Inr (view m u)" if "view_ok m u" for u
    using mk_string_view [OF that] view_ok_size(1) [OF that] by (simp add: as_string_def fk_data_def)
  have pos: "0 \<le> fk_length v" "0 \<le> fk_length w" using assms by (simp_all add: view_ok_def)
  have "StartWith m v w = Inr (starts_with (view m w) (view m v))"
    using memcmp_view [OF assms(1,2)] view_ok_size [OF assms(1)] view_ok_size [OF assms(2)] pos
    by (auto simp: StartWith_def dest: starts_with_length)
  moreover have "fk_equals m v w = Inr (length (view m v) = length (view m w) \<and> c_str (view m v) = c_str (view m w))"
    using strncmp_view [OF assms(1,2)] view_ok_size [OF assms(1)] view_ok_size [OF assms(2)] pos
    by (auto simp: fk_equals_def fk_data_def)
  ultimately show ?thesis
    using as [OF assms(1)] as [OF remove_prefix_view(1)] as [OF remove_suffix_view(1)] remove_prefix_view(2) remove_suffix_view(2)
      mk_string_view [OF assms(1)] assms by (simp add: CopyToString_def)
qed

definition sample_memory :: memory where
  "sample_memory = [1 \<mapsto> ''keeper'' @ [NUL], 2 \<mapsto> ''keep'' @ [NUL]]"

theorem fkstring_shows_bytes_witness:
  "StartWith sample_memory (fk_of_string 1 6) (fk_of_string 2 4) = Inr True \<and>
   fk_equals sample_memory (fk_of_string 1 6) (fk_of_string 2 4) = Inr False \<and>
   as_string sample_memory (remove_prefix 4 (fk_of_string 1 6)) = Inr ''er''"
proof -
  let ?v = "fk_of_string 1 6" and ?w = "fk_of_string 2 4"
  have ok: "view_ok sample_memory ?v" "view_ok sample_memory ?w"
    by (simp_all add: view_ok_def sample_memory_def fk_of_string_def)
  have "(4 :: int) \<le> fk_length ?v" by (simp add: fk_of_string_def)
  from fkstring_shows_bytes [OF ok _ this] show ?thesis
    by (simp add: view_def sample_memory_def fk_of_string_def)
qed

text \<open>
  \<^verbatim>\<open>operator!=\<close> has the negation of \<^verbatim>\<open>strncmp\<close> the wrong way round: for views of the same length it is what \<^verbatim>\<open>operator==\<close> is.
\<close>

lemma fk_differs_is_equals:
  assumes "view_ok m v" "view_ok m w" "fk_length v = fk_length w"
  shows "fk_differs m v w = fk_equals m v w"
  using view_ok_size(1) [OF assms(2)] assms(3) by (simp add: fk_differs_def fk_equals_def)

lemma fk_differs_example:
  "fk_differs sample_memory (fk_of_string 2 4) (fk_of_string 2 4) = Inr True"
  by (simp add: fk_differs_def fk_of_string_def sample_memory_def fk_size_def to_signed_id fk_data_def strncmp_eq_def size_of_int_def
      numeral_eq_Suc NUL_def)

end
