(* ===== verification/File_Util.thy ===== *)
theory File_Util
  imports Fk_String
begin

text \<open>
  \<^verbatim>\<open>ReadSmallFile\<close>, \<^verbatim>\<open>AppendFile\<close> and \<^verbatim>\<open>readFile\<close> (\<^verbatim>\<open>inc/utils/FileUtil.hpp\<close>, \<^verbatim>\<open>src/utils/thread/FileUtil.cpp\<close>), and the
  inquiries of \<^verbatim>\<open>ProcessInfo\<close> that read files of \<^verbatim>\<open>/proc\<close> through them (\<^verbatim>\<open>src/utils/thread/ProcessInfo.cpp\<close>).  What the
  system calls return is an argument: error numbers are integers, the replies to \<^verbatim>\<open>read\<close> and to \<^verbatim>\<open>fwrite\<close> are
  sequences.  Lemmas: what is read, when appending returns, what is still in the buffer of the stream and what a flush and the
  destructors leave, and that a regular file cannot be read with \<^verbatim>\<open>readFile\<close>.
\<close>

section \<open>Reading\<close>

definition READ_BUFFER_LEN :: nat where
  "READ_BUFFER_LEN = 64 * 1024"

record ReadSmallFile =
  rf_fd :: int
  rf_err :: int

text \<open>\<open>opened\<close>: the descriptor, or the error number.\<close>

definition mkReadSmallFile :: "int + int \<Rightarrow> ReadSmallFile" where
  "mkReadSmallFile opened =
     (case opened of Inl e \<Rightarrow> \<lparr>rf_fd = -1, rf_err = e\<rparr> | Inr fd \<Rightarrow> \<lparr>rf_fd = fd, rf_err = 0\<rparr>)"

text \<open>What \<^verbatim>\<open>fstat\<close> reports.\<close>

datatype file_kind = Regular | Directory | Other

record file_stat =
  st_kind :: file_kind
  st_size :: int
  st_mtim :: int
  st_ctim :: int

text \<open>Linux' number for \<^verbatim>\<open>EISDIR\<close>.\<close>

definition EISDIR :: int where
  "EISDIR = 21"

text \<open>
  The reading loop over the bytes of a file.  A reply of the kernel is an error, or \<open>Inr k\<close>: it delivers at most \<open>k + 1\<close> bytes,
  never more than it was asked for, and none only at the end of the file.
\<close>

type_synonym read_replies = "nat \<Rightarrow> int + nat"

function read_loop :: "read_replies \<Rightarrow> nat \<Rightarrow> nat \<Rightarrow> bytes \<Rightarrow> int \<Rightarrow> bytes \<Rightarrow> int \<times> bytes" where
  "read_loop replies i maxSize rest err content =
     (if length content < maxSize
      then let toRead = min (maxSize - length content) READ_BUFFER_LEN
           in case replies i of
                Inl e \<Rightarrow> (e, content)
              | Inr k \<Rightarrow>
                  let d = take (min (Suc k) toRead) rest
                  in if d = [] then (err, content)
                     else read_loop replies (Suc i) maxSize (drop (length d) rest) err (content @ d)
      else (err, content))"
  by pat_completeness auto
termination
  by (relation "measure (\<lambda>(_, _, maxSize, _, _, content). maxSize - length content)")
    (auto simp: READ_BUFFER_LEN_def min_def length_greater_0_conv [symmetric] simp del: length_greater_0_conv)

declare read_loop.simps [simp del]

text \<open>
  The output parameters: \<open>Some\<close> for a pointer to a number, \<open>None\<close> for the null pointer.  \<open>errno\<close> is the thread's error number
  from an earlier call, \<open>bs\<close> the bytes of the file.
\<close>

record read_outputs =
  ro_content :: bytes
  ro_fileSize :: "int option"
  ro_modifyTime :: "int option"
  ro_createTime :: "int option"

definition readToString ::
  "file_stat option \<Rightarrow> int \<Rightarrow> read_replies \<Rightarrow> bytes \<Rightarrow> nat \<Rightarrow> read_outputs \<Rightarrow> ReadSmallFile \<Rightarrow> (int \<times> read_outputs) result" where
  "readToString info errno replies bs maxSize out f =
     (if rf_fd f < 0 then Inr (rf_err f, out)
      else
        rbind (case info of
                 None \<Rightarrow> Inr (rf_err f, out)
               | Some st \<Rightarrow>
                   rbind (case st_kind st of
                            Regular \<Rightarrow> (case ro_fileSize out of
                                          None \<Rightarrow> Inl Out_Of_Bounds
                                        | Some _ \<Rightarrow> Inr (rf_err f, out\<lparr>ro_fileSize := Some (st_size st)\<rparr>))
                          | Directory \<Rightarrow> Inr (EISDIR, out)
                          | Other \<Rightarrow> Inr (rf_err f, out)) (\<lambda>(err, o1).
                   let o2 = o1\<lparr>ro_modifyTime := map_option (\<lambda>_. st_mtim st) (ro_modifyTime o1)\<rparr>
                   in case ro_createTime o2 of
                        Some _ \<Rightarrow> Inr (err, o2\<lparr>ro_createTime := Some (st_ctim st)\<rparr>)
                      | None \<Rightarrow> Inr (errno, o2)))
          (\<lambda>(err, o3).
             let (err', content) = read_loop replies 0 maxSize bs err (ro_content o3)
             in Inr (err', o3\<lparr>ro_content := content\<rparr>)))"

text \<open>\<^verbatim>\<open>readFile\<close> passes null pointers; its result is the error number as a truth value.\<close>

definition readFile ::
  "int + int \<Rightarrow> file_stat option \<Rightarrow> int \<Rightarrow> read_replies \<Rightarrow> bytes \<Rightarrow> nat \<Rightarrow> bytes \<Rightarrow> (bool \<times> bytes) result" where
  "readFile opened info errno replies bs sizeLimt content =
     rbind (readToString info errno replies bs sizeLimt
              \<lparr>ro_content = content, ro_fileSize = None, ro_modifyTime = None, ro_createTime = None\<rparr>
              (mkReadSmallFile opened)) (\<lambda>(err, out). Inr (err \<noteq> 0, ro_content out))"

text \<open>
  \<open>got\<close>: the result of \<^verbatim>\<open>pread\<close>, an error number or at most \<open>size_of\<close> bytes.  The result is the new buffer with 0, or the
  thread's error number, also when the file was not opened.
\<close>

definition readToBuffer :: "int + bytes \<Rightarrow> int \<Rightarrow> bytes \<Rightarrow> nat \<Rightarrow> ReadSmallFile \<Rightarrow> (int \<times> bytes) result" where
  "readToBuffer got errno buffer size_of f =
     (if rf_fd f < 0 then Inr (errno, buffer)
      else case got of
             Inl e \<Rightarrow> Inr (e, buffer)
           | Inr d \<Rightarrow>
               (let b1 = take size_of d
                in rbind (write_at 0 (b1 @ (if length b1 < size_of then [NUL] else [])) buffer) (\<lambda>b2. Inr (0, b2))))"

section \<open>Appending\<close>

text \<open>
  A reply of \<^verbatim>\<open>fwrite_unlocked\<close>: the number of bytes it took, at most those it was given, and whether \<^verbatim>\<open>ferror\<close> then
  reports an error.
\<close>

type_synonym fwrite_reply = "nat \<times> bool"

record AppendFile =
  af_bytes :: bytes
  writtenBytes :: nat
  af_replies :: nat

definition mkAppendFile :: "bytes \<Rightarrow> bool \<Rightarrow> AppendFile result" where
  "mkAppendFile old opened = rbind (passert opened) (\<lambda>_. Inr \<lparr>af_bytes = old, writtenBytes = 0, af_replies = 0\<rparr>)"

definition af_write :: "(nat \<Rightarrow> fwrite_reply) \<Rightarrow> bytes \<Rightarrow> AppendFile \<Rightarrow> fwrite_reply \<times> AppendFile" where
  "af_write replies d f =
     (let n = min (fst (replies (af_replies f))) (length d)
      in ((n, snd (replies (af_replies f))), f\<lparr>af_bytes := af_bytes f @ take n d, af_replies := Suc (af_replies f)\<rparr>))"

partial_function (option) append_loop :: "(nat \<Rightarrow> fwrite_reply) \<Rightarrow> bytes \<Rightarrow> nat \<Rightarrow> AppendFile \<Rightarrow> (nat \<times> AppendFile) option" where
  [code]: "append_loop replies d written f =
     (if written = length d then Some (written, f)
      else case af_write replies (drop written d) f of
             ((n, err), f1) \<Rightarrow>
               if n \<noteq> length d - written \<and> err then Some (written, f1)
               else append_loop replies d (written + n) f1)"

definition append_file :: "(nat \<Rightarrow> fwrite_reply) \<Rightarrow> bytes \<Rightarrow> AppendFile \<Rightarrow> AppendFile option" where
  "append_file replies logline f =
     map_option (\<lambda>(written, f1). f1\<lparr>writtenBytes := writtenBytes f1 + written\<rparr>) (append_loop replies logline 0 f)"

section \<open>What is read\<close>

lemma read_loop_all:
  assumes "\<forall>i. \<exists>k. replies i = Inr k"
  shows "read_loop replies i maxSize rest err content = (err, content @ take (maxSize - length content) rest)"
  using assms
proof (induction replies i maxSize rest err content rule: read_loop.induct)
  case (1 replies i maxSize rest err content)
  obtain k where k: "replies i = Inr k" using "1.prems" by blast
  define d where "d = take (min (Suc k) (min (maxSize - length content) READ_BUFFER_LEN)) rest"
  have le: "length d \<le> maxSize - length content" "d = take (length d) rest" by (auto simp: d_def min_def)
  show ?case
  proof (cases "length content < maxSize \<and> d \<noteq> []")
    case True
    then have "read_loop replies i maxSize rest err content = (err, (content @ d) @ take (maxSize - length (content @ d)) (drop (length d) rest))"
      using "1.IH" [OF _ refl k d_def] "1.prems" k by (subst read_loop.simps) (simp add: Let_def d_def [symmetric] del: take_eq_Nil)
    moreover have "d @ take (maxSize - length (content @ d)) (drop (length d) rest) = take (maxSize - length content) rest"
      using le by (metis diff_diff_left length_append le_add_diff_inverse take_add)
    ultimately show ?thesis by simp
  next
    case False
    then have "length content < maxSize \<Longrightarrow> rest = []" by (auto simp: d_def READ_BUFFER_LEN_def min_def split: if_splits)
    then show ?thesis using False k by (subst read_loop.simps) (auto simp: Let_def d_def [symmetric] simp del: take_eq_Nil)
  qed
qed

text \<open>
  A regular file is read up to the limit: with all output parameters given and a kernel that reports no error, in
  however small pieces it delivers, \<^verbatim>\<open>readToString\<close> returns 0 and appends the first bytes of the file, all of them when they
  fit under the limit, and reports the size and the times.
\<close>

theorem readToString_reads_file:
  assumes "0 \<le> fd" and "st_kind st = Regular" and "\<forall>i. \<exists>k. replies i = Inr k"
    and "ro_fileSize out \<noteq> None" and "ro_modifyTime out \<noteq> None" and "ro_createTime out \<noteq> None"
  shows "readToString (Some st) errno replies bs maxSize out (mkReadSmallFile (Inr fd)) =
           Inr (0, \<lparr>ro_content = ro_content out @ take (maxSize - length (ro_content out)) bs,
                    ro_fileSize = Some (st_size st), ro_modifyTime = Some (st_mtim st), ro_createTime = Some (st_ctim st)\<rparr>)"
  using assms by (cases out) (auto simp: readToString_def mkReadSmallFile_def Let_def read_loop_all)

theorem readToString_reads_file_witness:
  "readToString (Some \<lparr>st_kind = Regular, st_size = 5, st_mtim = 10, st_ctim = 20\<rparr>) 0 (\<lambda>i. Inr 1) ''hello'' 4
     \<lparr>ro_content = [], ro_fileSize = Some 0, ro_modifyTime = Some 0, ro_createTime = Some 0\<rparr> (mkReadSmallFile (Inr 3)) =
   Inr (0, \<lparr>ro_content = ''hell'', ro_fileSize = Some 5, ro_modifyTime = Some 10, ro_createTime = Some 20\<rparr>)"
  by (subst readToString_reads_file) simp_all

lemma readFile_regular:
  "0 \<le> fd \<Longrightarrow> st_kind st = Regular \<Longrightarrow> readFile (Inr fd) (Some st) errno replies bs sizeLimt content = Inl Out_Of_Bounds"
  by (simp add: readFile_def readToString_def mkReadSmallFile_def)

text \<open>
  \<^verbatim>\<open>readFile\<close> cannot read a regular file: it passes a null pointer for the size, which \<^verbatim>\<open>readToString\<close> writes through for
  every regular file.  For a file that cannot be opened it returns true, its documented sign of success.
\<close>

theorem readFile_faults:
  assumes "0 \<le> fd" and "st_kind st = Regular" and "e \<noteq> 0"
  shows "readFile (Inr fd) (Some st) errno replies bs sizeLimt content = Inl Out_Of_Bounds \<and>
         readFile (Inl e) info errno replies bs sizeLimt content = Inr (True, content)"
  using assms by (simp add: readFile_def readToString_def mkReadSmallFile_def)

theorem readFile_faults_witness:
  "readFile (Inr 3) (Some \<lparr>st_kind = Regular, st_size = 5, st_mtim = 10, st_ctim = 20\<rparr>) 0 (\<lambda>i. Inr 9) ''hello'' 1000 [] = Inl Out_Of_Bounds \<and>
   readFile (Inl 2) None 0 (\<lambda>i. Inr 9) ''hello'' 1000 [] = Inr (True, [])"
  by (rule readFile_faults) simp_all

section \<open>What is appended\<close>

text \<open>
  Of the data a prefix reaches the file: \<open>c\<close>, which the loop counts, and \<open>e\<close>, what the last write took when it ended in an error, which the
  loop does not count.  \<open>y\<close> is what is left, and there is something left exactly when there was an error.
\<close>

definition appended :: "(nat \<Rightarrow> fwrite_reply) \<Rightarrow> bytes \<Rightarrow> AppendFile \<Rightarrow> AppendFile \<Rightarrow> bytes \<Rightarrow> bytes \<Rightarrow> bytes \<Rightarrow> bool" where
  "appended replies d f f' c e y \<longleftrightarrow>
     af_bytes f' = af_bytes f @ c @ e \<and> d = c @ e @ y \<and>
     (if y = [] then e = []
      else snd (replies (af_replies f' - 1)) \<and> length e = fst (replies (af_replies f' - 1)))"

lemma append_loop_returns:
  assumes "\<forall>i. 0 < fst (replies i) \<or> snd (replies i)" and "written \<le> length d"
  shows "\<exists>f' c e y. append_loop replies d written f = Some (written + length c, f') \<and> writtenBytes f' = writtenBytes f \<and>
           appended replies (drop written d) f f' c e y"
  using assms(2)
proof (induction "length d - written" arbitrary: written f rule: less_induct)
  case less
  show ?case
  proof (cases "written = length d")
    case True
    then show ?thesis by (intro exI [of _ f] exI [of _ "[]"], subst append_loop.simps) (simp add: appended_def)
  next
    case False
    define n where "n = min (fst (replies (af_replies f))) (length d - written)"
    define f1 where "f1 = f\<lparr>af_bytes := af_bytes f @ take n (drop written d), af_replies := Suc (af_replies f)\<rparr>"
    have w: "af_write replies (drop written d) f = ((n, snd (replies (af_replies f))), f1)"
      by (simp add: af_write_def n_def f1_def Let_def)
    show ?thesis
    proof (cases "n \<noteq> length d - written \<and> snd (replies (af_replies f))")
      case True
      then have "n = fst (replies (af_replies f))" "n < length d - written" by (auto simp: n_def min_def split: if_splits)
      then have "appended replies (drop written d) f f1 [] (take n (drop written d)) (drop n (drop written d))"
        using True by (simp add: appended_def f1_def min_def del: drop_drop)
      moreover have "append_loop replies d written f = Some (written, f1)" using True False w by (subst append_loop.simps) simp
      moreover have "writtenBytes f1 = writtenBytes f" by (simp add: f1_def)
      ultimately have "append_loop replies d written f = Some (written + length ([] :: bytes), f1) \<and> writtenBytes f1 = writtenBytes f \<and>
          appended replies (drop written d) f f1 [] (take n (drop written d)) (drop n (drop written d))" by (simp del: drop_drop)
      then show ?thesis by blast
    next
      case cont: False
      have n: "0 < n" "written + n \<le> length d" using cont False less.prems assms(1) by (auto simp: n_def min_def)
      have "length d - (written + n) < length d - written" using n by simp
      from less.hyps [OF this n(2), of f1] obtain f' c e y where
        r: "append_loop replies d (written + n) f1 = Some (written + n + length c, f')" "writtenBytes f' = writtenBytes f1"
          "appended replies (drop (written + n) d) f1 f' c e y" by blast
      have split: "drop written d = take n (drop written d) @ drop (written + n) d" by (metis append_take_drop_id drop_drop add.commute)
      have "af_bytes f' = af_bytes f @ (take n (drop written d) @ c) @ e" using r(3) by (simp add: appended_def f1_def)
      moreover have "drop written d = (take n (drop written d) @ c) @ e @ y" using r(3) split unfolding appended_def by (metis append_assoc)
      moreover have "if y = [] then e = [] else snd (replies (af_replies f' - 1)) \<and> length e = fst (replies (af_replies f' - 1))"
        using r(3) unfolding appended_def by blast
      ultimately have "appended replies (drop written d) f f' (take n (drop written d) @ c) e y" unfolding appended_def by blast
      moreover have "append_loop replies d written f = Some (written + length (take n (drop written d) @ c), f')"
        using False w cont r(1) n by (subst append_loop.simps) (auto simp: add.assoc)
      moreover have "writtenBytes f' = writtenBytes f" using r(2) by (simp add: f1_def)
      ultimately show ?thesis by blast
    qed
  qed
qed

lemma append_loop_stuck:
  assumes "(\<forall>i. replies i = (0, False)) \<and> logline \<noteq> []"
  shows "append_loop replies logline 0 f = None"
proof -
  have "\<not> (rs = replies \<and> d = logline \<and> written = 0)" if "append_loop rs d written f = Some r" for rs d written f r
  proof (rule append_loop.raw_induct [of "\<lambda>rs d written f r. \<not> (rs = replies \<and> d = logline \<and> written = 0)", OF _ that])
    fix loop rs d written f r
    assume ih: "\<And>rs d written f r. loop rs d written f = Some r \<Longrightarrow> \<not> (rs = replies \<and> d = logline \<and> written = 0)"
      and res: "(if written = length d then Some (written, f)
        else case af_write rs (drop written d) f of
               ((n, err), f1) \<Rightarrow> if n \<noteq> length d - written \<and> err then Some (written, f1) else loop rs d (written + n) f1) = Some r"
    show "\<not> (rs = replies \<and> d = logline \<and> written = 0)"
    proof
      assume e: "rs = replies \<and> d = logline \<and> written = 0"
      then have "loop replies logline 0 (f\<lparr>af_replies := Suc (af_replies f)\<rparr>) = Some r"
        using res assms by (simp add: af_write_def Let_def)
      then show False using ih by blast
    qed
  qed
  then show ?thesis by (metis option.exhaust)
qed

text \<open>
  C33 (termination). \<^verbatim>\<open>append\<close> returns if every write makes progress or reports an error.  Then a prefix of the line is behind the old contents
  of the file: all of it, counted in \<^verbatim>\<open>writtenBytes_\<close>, or, when something is left over, the counted bytes of the writes before the last and the
  bytes of the last one, which reported an error and is not counted.  If the stream takes nothing and reports no error, the loop does not end.
\<close>

theorem append_file_returns:
  "((\<forall>i. 0 < fst (replies i) \<or> snd (replies i)) \<longrightarrow>
      (\<exists>f' c e y. append_file replies logline f = Some f' \<and> af_bytes f' = af_bytes f @ c @ e \<and> logline = c @ e @ y \<and>
         writtenBytes f' = writtenBytes f + length c \<and>
         (if y = [] then e = []
          else snd (replies (af_replies f' - 1)) \<and> length e = fst (replies (af_replies f' - 1))))) \<and>
   ((\<forall>i. replies i = (0, False)) \<and> logline \<noteq> [] \<longrightarrow> append_file replies logline f = None)"
proof (intro conjI impI)
  assume "\<forall>i. 0 < fst (replies i) \<or> snd (replies i)"
  from append_loop_returns [OF this, of 0 logline f]
  obtain f1 c e y where r: "append_loop replies logline 0 f = Some (length c, f1)" "writtenBytes f1 = writtenBytes f"
    "appended replies logline f f1 c e y" by auto
  let ?f = "f1\<lparr>writtenBytes := writtenBytes f1 + length c\<rparr>"
  have "append_file replies logline f = Some ?f" by (simp add: append_file_def r(1))
  moreover have "af_bytes ?f = af_bytes f @ c @ e" "logline = c @ e @ y" "af_replies ?f = af_replies f1"
    using r(3) unfolding appended_def by simp_all
  moreover have "writtenBytes ?f = writtenBytes f + length c" by (simp add: r(2))
  moreover have "if y = [] then e = [] else snd (replies (af_replies f1 - 1)) \<and> length e = fst (replies (af_replies f1 - 1))"
    using r(3) unfolding appended_def by blast
  ultimately show "\<exists>f' c e y. append_file replies logline f = Some f' \<and> af_bytes f' = af_bytes f @ c @ e \<and> logline = c @ e @ y \<and>
      writtenBytes f' = writtenBytes f + length c \<and>
      (if y = [] then e = [] else snd (replies (af_replies f' - 1)) \<and> length e = fst (replies (af_replies f' - 1)))"
    by metis
next
  assume a: "(\<forall>i. replies i = (0, False)) \<and> logline \<noteq> []"
  then have "append_loop replies logline 0 f = None" by (rule append_loop_stuck)
  then show "append_file replies logline f = None" by (auto simp: append_file_def)
qed

theorem append_file_returns_witness:
  "\<exists>f'. append_file (\<lambda>i. (2, False)) ''line'' \<lparr>af_bytes = ''old'', writtenBytes = 0, af_replies = 0\<rparr> = Some f' \<and>
     af_bytes f' = ''oldline'' \<and> writtenBytes f' = 4 \<and>
     append_file (\<lambda>i. (0, False)) ''line'' f' = None"
proof -
  let ?f = "\<lparr>af_bytes = ''old'', writtenBytes = 0, af_replies = 0\<rparr>"
  have "\<exists>f' c e y. append_file (\<lambda>i. (2, False)) ''line'' ?f = Some f' \<and> af_bytes f' = af_bytes ?f @ c @ e \<and> ''line'' = c @ e @ y \<and>
      writtenBytes f' = writtenBytes ?f + length c \<and> (if y = [] then e = [] else snd (2 :: nat, False) \<and> length e = fst (2 :: nat, False))"
    using append_file_returns [of "\<lambda>i. (2, False)" "''line''" ?f] by (elim conjE) (erule mp, simp)
  then obtain f' c e y where f': "append_file (\<lambda>i. (2, False)) ''line'' ?f = Some f'" "af_bytes f' = af_bytes ?f @ c @ e"
      "''line'' = c @ e @ y" "writtenBytes f' = writtenBytes ?f + length c"
      "if y = [] then e = [] else snd (2 :: nat, False) \<and> length e = fst (2 :: nat, False)" by blast
  from f'(5) have ye: "y = []" "e = []" by (simp_all split: if_splits)
  from f'(3) have "c = ''line''" by (simp add: ye)
  with f'(2,4) ye have "af_bytes f' = ''oldline''" "writtenBytes f' = 4" by simp_all
  moreover have "append_file (\<lambda>i. (0, False)) ''line'' f' = None"
    using append_file_returns [of "\<lambda>i. (0, False)" "''line''" f'] by simp
  ultimately show ?thesis using f'(1) by blast
qed

section \<open>Buffers and the ends of the objects\<close>

text \<open>
  The stream behind an \<^verbatim>\<open>AppendFile\<close>, in two parts: what the system has, and what is still in the 64 KiB buffer that the constructor
  gives to the stream.  On a write the C library may hand more to the system than it has to; \<open>k\<close> is how much it does.
\<close>

definition append_buffer_len :: nat where
  "append_buffer_len = 64 * 1024"

record out_stream =
  on_disk :: bytes
  in_buffer :: bytes
  is_closed :: bool

definition stream_write :: "nat \<Rightarrow> bytes \<Rightarrow> out_stream \<Rightarrow> out_stream" where
  "stream_write k d s =
     (let whole = in_buffer s @ d;
          m = max (min k (length whole)) (length whole - append_buffer_len)
      in s\<lparr>on_disk := on_disk s @ take m whole, in_buffer := drop m whole\<rparr>)"

definition append_flush :: "out_stream \<Rightarrow> out_stream" where
  "append_flush s = s\<lparr>on_disk := on_disk s @ in_buffer s, in_buffer := []\<rparr>"

text \<open>\<^verbatim>\<open>fclose\<close> flushes the stream first.\<close>

definition append_file_destroy :: "out_stream \<Rightarrow> out_stream" where
  "append_file_destroy s = (append_flush s)\<lparr>is_closed := True\<rparr>"

definition written_bytes :: "AppendFile \<Rightarrow> nat" where
  "written_bytes f = writtenBytes f"

definition read_file_destroy :: "ReadSmallFile \<Rightarrow> int set \<Rightarrow> int set" where
  "read_file_destroy f open_fds = (if 0 \<le> rf_fd f then open_fds - {rf_fd f} else open_fds)"

text \<open>
  Whatever is written, in whatever pieces and however the library empties its buffer: the bytes on disk are a prefix of it, at most 64 KiB are
  missing, and after a flush or at the end of the object none is.
\<close>

lemma stream_write_keeps:
  "on_disk (stream_write k d s) @ in_buffer (stream_write k d s) = on_disk s @ in_buffer s @ d"
  "length (in_buffer (stream_write k d s)) \<le> append_buffer_len"
  by (simp_all add: stream_write_def Let_def del: take_append drop_append)

definition stream_writes :: "(nat \<times> bytes) list \<Rightarrow> out_stream \<Rightarrow> out_stream" where
  "stream_writes ws s = fold (\<lambda>(k, d). stream_write k d) ws s"

lemma buffered_writes:
  assumes "length (in_buffer s) \<le> append_buffer_len"
  shows "on_disk (stream_writes ws s) @ in_buffer (stream_writes ws s) = on_disk s @ in_buffer s @ concat (map snd ws) \<and>
           length (in_buffer (stream_writes ws s)) \<le> append_buffer_len"
  using assms
proof (induction ws arbitrary: s)
  case (Cons w ws)
  then show ?case using stream_write_keeps [of "fst w" "snd w" s] by (simp add: stream_writes_def case_prod_beta flip: append_assoc)
qed (simp add: stream_writes_def)

definition fresh_stream :: "bytes \<Rightarrow> out_stream" where
  "fresh_stream old = \<lparr>on_disk = old, in_buffer = [], is_closed = False\<rparr>"

lemma nothing_left_in_buffer:
  "on_disk (append_flush (stream_writes ws (fresh_stream old))) = old @ concat (map snd ws)"
  "on_disk (append_file_destroy (stream_writes ws (fresh_stream old))) = old @ concat (map snd ws)"
  "is_closed (append_file_destroy s)"
  using buffered_writes [of "fresh_stream old" ws] by (simp_all add: fresh_stream_def append_flush_def append_file_destroy_def)

text \<open>An object that could not open its file closes nothing; otherwise it closes what it opened.\<close>

lemma read_file_closes_its_own:
  "0 \<le> fd \<Longrightarrow> fd \<notin> open_fds \<Longrightarrow> read_file_destroy (mkReadSmallFile (Inr fd)) (insert fd open_fds) = open_fds"
  "read_file_destroy (mkReadSmallFile (Inl e)) open_fds = open_fds"
  by (simp_all add: read_file_destroy_def mkReadSmallFile_def)

end
