(* ===== verification/Process_Info.thy ===== *)
theory Process_Info
  imports File_Util Calendar
begin

text \<open>
  \<^verbatim>\<open>ProcessInfo\<close> (\<^verbatim>\<open>inc/utils/ProcessInfo.hpp\<close>, \<^verbatim>\<open>src/utils/thread/ProcessInfo.cpp\<close>): inquiries about the running process.
  What the system reports (identifiers, directory entries, limits, the files of \<^verbatim>\<open>/proc\<close>) is an argument.  Lemmas: what is read
  from the texts of \<^verbatim>\<open>/proc\<close>, and that those texts cannot be had, since \<^verbatim>\<open>readFile\<close> faults on regular files.
\<close>

section \<open>Directories\<close>

text \<open>The two filters are called with every entry; both select nothing, so that \<^verbatim>\<open>scandir\<close> allocates no list.\<close>

definition fdDirFilter :: "bytes \<Rightarrow> nat \<Rightarrow> nat" where
  "fdDirFilter d_name t_numOpenedFiles =
     (case d_name of [] \<Rightarrow> t_numOpenedFiles | c # _ \<Rightarrow> if isdigit c then Suc t_numOpenedFiles else t_numOpenedFiles)"

definition taskDirFilter :: "bytes \<Rightarrow> int list result \<Rightarrow> int list result" where
  "taskDirFilter d_name t_pids =
     rbind t_pids (\<lambda>pids.
       case d_name of
         [] \<Rightarrow> Inr pids
       | c # _ \<Rightarrow> if isdigit c then rbind (atoi (d_name @ [NUL])) (\<lambda>pid. Inr (pids @ [pid])) else Inr pids)"

definition scanDir :: "bytes list \<Rightarrow> (bytes \<Rightarrow> 's \<Rightarrow> 's) \<Rightarrow> 's \<Rightarrow> 's" where
  "scanDir entries flt s = fold flt entries s"

definition openedFiles :: "bytes list \<Rightarrow> nat" where
  "openedFiles fd_entries = scanDir fd_entries fdDirFilter 0"

text \<open>\<open>limit\<close>: the soft limit that \<^verbatim>\<open>getrlimit\<close> reports, if it does.\<close>

definition maxOpenFiles :: "int option \<Rightarrow> bytes list \<Rightarrow> int" where
  "maxOpenFiles limit fd_entries = (case limit of None \<Rightarrow> int (openedFiles fd_entries) | Some rlim_cur \<Rightarrow> to_int32 rlim_cur)"

definition info_threads :: "bytes list \<Rightarrow> int list result" where
  "info_threads task_entries = rbind (scanDir task_entries taskDirFilter (Inr [])) (\<lambda>result. Inr (sort result))"

section \<open>Identity\<close>

text \<open>
  What the system says of the process; the last three are read once, when the program starts.  \<open>ndebug\<close>: whether it is built with
  \<^verbatim>\<open>NDEBUG\<close>.
\<close>

record process =
  sys_pid :: int
  sys_uid :: int
  sys_euid :: int
  g_startTime :: TimeStamp
  g_clockTicks :: int
  g_pageSize :: int

definition info_startTime :: "process \<Rightarrow> TimeStamp" where
  "info_startTime p = g_startTime p"

definition clockTicksPerSec :: "process \<Rightarrow> int" where
  "clockTicksPerSec p = g_clockTicks p"

definition pageSize :: "process \<Rightarrow> int" where
  "pageSize p = to_int32 (g_pageSize p)"

definition isDebugBuild :: "bool \<Rightarrow> bool" where
  "isDebugBuild ndebug = (\<not> ndebug)"

text \<open>
  \<open>fdiv\<close>: the quotient of two integers as a \<^verbatim>\<open>double\<close>; \<open>tms\<close>: the user and system ticks of \<^verbatim>\<open>times\<close>, and the value it returns.
\<close>

record 'f CpuTime =
  userSeconds :: 'f
  systemSeconds :: 'f

definition cpuTime :: "(int \<Rightarrow> int \<Rightarrow> 'f) \<Rightarrow> int \<times> int \<times> int \<Rightarrow> process \<Rightarrow> ('f :: zero) CpuTime" where
  "cpuTime fdiv tms p =
     (case tms of (ret, utime, stime) \<Rightarrow>
        if 0 \<le> ret
        then \<lparr>userSeconds = fdiv utime (clockTicksPerSec p), systemSeconds = fdiv stime (clockTicksPerSec p)\<rparr>
        else \<lparr>userSeconds = 0, systemSeconds = 0\<rparr>)"

definition cpu_total :: "('f :: plus) CpuTime \<Rightarrow> 'f" where
  "cpu_total t = userSeconds t + systemSeconds t"

definition getVersion :: bytes where
  "getVersion = ''1.0.0''"

section \<open>Names\<close>

definition pidString :: "int \<Rightarrow> bytes" where
  "pidString pid = take 31 (int_to_string pid)"

definition username :: "bytes option \<Rightarrow> bytes" where
  "username pw_name = (case pw_name of None \<Rightarrow> ''unknownuser'' | Some name \<Rightarrow> c_str name)"

definition hostName :: "bytes option \<Rightarrow> bytes" where
  "hostName reported = (case reported of None \<Rightarrow> ''unknownhost'' | Some name \<Rightarrow> c_str (take 255 name))"

definition exePath :: "int + bytes \<Rightarrow> bytes" where
  "exePath target = (case target of Inl e \<Rightarrow> [] | Inr path \<Rightarrow> take 1024 path)"

section \<open>The files of \<open>/proc\<close>\<close>

record proc_file =
  pf_opened :: "int + int"
  pf_stat :: "file_stat option"
  pf_errno :: int
  pf_replies :: read_replies
  pf_bytes :: bytes

definition read_proc :: "proc_file \<Rightarrow> bytes result" where
  "read_proc p =
     rbind (readFile (pf_opened p) (pf_stat p) (pf_errno p) (pf_replies p) (pf_bytes p) (1024 * 1024) []) (\<lambda>(_, res). Inr res)"

definition procStatus :: "(bytes \<Rightarrow> proc_file) \<Rightarrow> bytes result" where
  "procStatus proc = read_proc (proc ''/proc/self/status'')"

definition procStat :: "(bytes \<Rightarrow> proc_file) \<Rightarrow> bytes result" where
  "procStat proc = read_proc (proc ''/proc/self/stat'')"

definition threadStat :: "int \<Rightarrow> (bytes \<Rightarrow> proc_file) \<Rightarrow> bytes result" where
  "threadStat tid proc = read_proc (proc (take 63 (''/proc/self/task/'' @ int_to_string tid @ ''/stat'')))"

text \<open>The view that \<^verbatim>\<open>procName(stat)\<close> returns, on the characters of its argument in the given block.\<close>

definition procName_of :: "nat \<Rightarrow> bytes \<Rightarrow> FKString" where
  "procName_of block stat =
     (case (str_find ''('' stat, str_find '')'' stat) of
        (Some lp, Some rp) \<Rightarrow>
          if lp < rp then fk_set_range (Ptr block (int lp + 1)) (to_int32 (int (rp - lp - 1))) fk_empty else fk_empty
      | _ \<Rightarrow> fk_empty)"

definition procName :: "nat \<Rightarrow> (bytes \<Rightarrow> proc_file) \<Rightarrow> bytes result" where
  "procName block proc =
     rbind (procStat proc) (\<lambda>stat. as_string [block \<mapsto> stat @ [NUL]] (procName_of block stat))"

definition numThreads :: "(bytes \<Rightarrow> proc_file) \<Rightarrow> int result" where
  "numThreads proc =
     rbind (procStatus proc) (\<lambda>status.
       case str_find ''Threads:'' status of
         None \<Rightarrow> Inr 0
       | Some pos \<Rightarrow> atoi (drop (pos + 8) (status @ [NUL])))"

section \<open>What is found\<close>

lemma openedFiles_counts: "openedFiles ds = length (filter (\<lambda>d. d \<noteq> [] \<and> isdigit (hd d)) ds)"
proof -
  have "fold fdDirFilter ds n = n + length (filter (\<lambda>d. d \<noteq> [] \<and> isdigit (hd d)) ds)" for n
    by (induction ds arbitrary: n) (auto simp: fdDirFilter_def split: list.splits)
  then show ?thesis by (simp add: openedFiles_def scanDir_def)
qed

lemma nul_not_digit: "\<not> isdigit NUL"
  by (simp add: isdigit_def NUL_def code_def)

lemma info_threads_sorted:
  assumes "list_all (\<lambda>d. d \<noteq> [] \<and> list_all isdigit d \<and> dec_val d < 2 ^ 31 \<or> d = ''.'' \<or> d = ''..'') ds"
  shows "info_threads ds = Inr (sort (map (\<lambda>d. int (dec_val d)) (filter (\<lambda>d. isdigit (hd d)) ds)))"
proof -
  have "scanDir ds taskDirFilter (Inr ps) = Inr (ps @ map (\<lambda>d. int (dec_val d)) (filter (\<lambda>d. isdigit (hd d)) ds))" for ps
    using assms
  proof (induction ds arbitrary: ps)
    case (Cons d ds)
    then consider "d \<noteq> []" "list_all isdigit d" "dec_val d < 2 ^ 31" | "d = ''.'' \<or> d = ''..''" by auto
    then show ?case
    proof cases
      case 1
      then have "isdigit (hd d)" "atoi (d @ [NUL]) = Inr (int (dec_val d))"
        using atoi_number [of "[]" d NUL "[]"] nul_not_digit by (cases d; simp)+
      then show ?thesis using Cons 1(1) by (cases d) (simp_all add: scanDir_def taskDirFilter_def)
    next
      case 2
      then have "\<not> isdigit (hd d)" by (auto simp: isdigit_def code_def)
      then show ?thesis using Cons 2 by (auto simp: scanDir_def taskDirFilter_def)
    qed
  qed (simp add: scanDir_def)
  then show ?thesis by (simp add: info_threads_def)
qed

text \<open>
  The name of the process in a line of \<^verbatim>\<open>/proc/self/stat\<close>, if the name has no parenthesis; one with a closing parenthesis is cut there.
\<close>

lemma procName_of_view:
  assumes "CHR ''('' \<notin> set pre" "CHR '')'' \<notin> set pre" "CHR '')'' \<notin> set name" "length name < 2 ^ 31"
  shows "as_string [block \<mapsto> (pre @ ''('' @ name @ '')'' @ rest) @ [NUL]] (procName_of block (pre @ ''('' @ name @ '')'' @ rest)) = Inr name"
proof -
  let ?stat = "pre @ ''('' @ name @ '')'' @ rest"
  have "str_find ''('' ?stat = Some (length pre)" using str_find_char_split [of _ pre] assms(1) by simp
  moreover have "str_find '')'' ?stat = Some (length pre + 1 + length name)"
    using str_find_char_split [of _ "pre @ ''('' @ name" rest] assms(2,3) by simp
  ultimately have p: "procName_of block ?stat = \<lparr>sptr = Ptr block (int (length pre) + 1), fk_length = int (length name)\<rparr>"
    using assms(4) by (simp add: procName_of_def fk_set_range_def fk_empty_def to_int32_def)
  let ?m = "[block \<mapsto> ?stat @ [NUL]]" and ?v = "procName_of block ?stat"
  have "mem_from ?m (sptr ?v) = Some (name @ '')'' @ rest @ [NUL])" "fk_length ?v = int (length name)"
    unfolding p by (simp_all add: nat_add_distrib)
  then have "view_ok ?m ?v" "view ?m ?v = name" using assms(4) unfolding view_ok_def view_def by simp_all
  then show ?thesis using mk_string_view [of ?m ?v] view_ok_size(1) [of ?m ?v] by (simp add: as_string_def fk_data_def)
qed

lemma procName_cut_at_parenthesis: "as_string [1 \<mapsto> ''7 (a)b) S'' @ [NUL]] (procName_of 1 ''7 (a)b) S'') = Inr ''a''"
  using procName_of_view [of "''7 ''" "''a''" 1 "''b) S''"] by simp

lemma numThreads_found:
  assumes "procStatus proc = Inr (pre @ ''Threads:'' @ ws @ ds @ c # rest)" and "str_find ''Threads:'' (pre @ ''Threads:'' @ ws @ ds @ c # rest) = Some (length pre)"
    and "list_all isspace ws" "ds \<noteq> []" "list_all isdigit ds" "dec_val ds < 2 ^ 31" "\<not> isdigit c"
  shows "numThreads proc = Inr (int (dec_val ds))"
  using assms(1,2) atoi_number [OF assms(3-7), of "rest @ [NUL]"] by (simp add: numThreads_def)

text \<open>
  The files of \<^verbatim>\<open>/proc\<close> are regular files, so every inquiry that reads one writes through a null pointer.
\<close>

theorem proc_inquiries_fault:
  assumes "\<forall>path. \<exists>fd st. pf_opened (proc path) = Inr fd \<and> 0 \<le> fd \<and> pf_stat (proc path) = Some st \<and> st_kind st = Regular"
  shows "procStatus proc = Inl Out_Of_Bounds \<and> procStat proc = Inl Out_Of_Bounds \<and> threadStat tid proc = Inl Out_Of_Bounds \<and>
         procName block proc = Inl Out_Of_Bounds \<and> numThreads proc = Inl Out_Of_Bounds"
proof -
  have "read_proc (proc path) = Inl Out_Of_Bounds" for path
  proof -
    obtain fd st where f: "pf_opened (proc path) = Inr fd" "0 \<le> fd" "pf_stat (proc path) = Some st" "st_kind st = Regular"
      using assms by blast
    then show ?thesis using readFile_regular [of fd st] by (simp add: read_proc_def)
  qed
  then show ?thesis by (simp add: procStatus_def procStat_def threadStat_def procName_def numThreads_def)
qed

definition sample_proc :: "bytes \<Rightarrow> proc_file" where
  "sample_proc path =
     \<lparr>pf_opened = Inr 5, pf_stat = Some \<lparr>st_kind = Regular, st_size = 0, st_mtim = 0, st_ctim = 0\<rparr>, pf_errno = 0,
      pf_replies = (\<lambda>i. Inr 4095), pf_bytes = ''7 (keeper) S''\<rparr>"

theorem proc_inquiries_fault_witness:
  "procName 1 sample_proc = Inl Out_Of_Bounds \<and> numThreads sample_proc = Inl Out_Of_Bounds"
  using proc_inquiries_fault [of sample_proc 0 1] by (simp add: sample_proc_def)

end
