(* ===== verification/Inet_Address.thy ===== *)
theory Inet_Address
  imports Prelude "HOL-Library.Word"
begin

unbundle bit_operations_syntax

text \<open>
  \<^verbatim>\<open>Endian.hpp\<close>, \<^verbatim>\<open>InetAddress\<close> and the address functions of \<^verbatim>\<open>SocketsOps\<close> (\<^verbatim>\<open>inc/network\<close>, \<^verbatim>\<open>src/network\<close>), on a little-endian
  machine.  A socket address is the memory of the union, 28 bytes: family at 0, port at 2, the IPv4 address at 4, the IPv6 address
  at 8.  \<^verbatim>\<open>inet_pton\<close> and \<^verbatim>\<open>inet_ntop\<close> are modelled for IPv4; for IPv6 they are parameters.  Lemmas: byte orders, and that an
  address prints as what it was made from.
\<close>

section \<open>Byte order\<close>

definition octet_of :: "nat \<Rightarrow> 'a :: len word \<Rightarrow> 'a word" where
  "octet_of k w = take_bit 8 (drop_bit (8 * k) w)"

definition hostToNetwork16 :: "16 word \<Rightarrow> 16 word" where
  "hostToNetwork16 w = push_bit 8 (octet_of 0 w) OR octet_of 1 w"

definition hostToNetwork32 :: "32 word \<Rightarrow> 32 word" where
  "hostToNetwork32 w =
     push_bit 24 (octet_of 0 w) OR push_bit 16 (octet_of 1 w) OR push_bit 8 (octet_of 2 w) OR octet_of 3 w"

definition hostToNetwork64 :: "64 word \<Rightarrow> 64 word" where
  "hostToNetwork64 w =
     push_bit 56 (octet_of 0 w) OR push_bit 48 (octet_of 1 w) OR push_bit 40 (octet_of 2 w) OR push_bit 32 (octet_of 3 w) OR
     push_bit 24 (octet_of 4 w) OR push_bit 16 (octet_of 5 w) OR push_bit 8 (octet_of 6 w) OR octet_of 7 w"

definition networkToHost16 :: "16 word \<Rightarrow> 16 word" where
  "networkToHost16 w = push_bit 8 (octet_of 0 w) OR octet_of 1 w"

definition networkToHost32 :: "32 word \<Rightarrow> 32 word" where
  "networkToHost32 w =
     push_bit 24 (octet_of 0 w) OR push_bit 16 (octet_of 1 w) OR push_bit 8 (octet_of 2 w) OR octet_of 3 w"

definition networkToHost64 :: "64 word \<Rightarrow> 64 word" where
  "networkToHost64 w =
     push_bit 56 (octet_of 0 w) OR push_bit 48 (octet_of 1 w) OR push_bit 40 (octet_of 2 w) OR push_bit 32 (octet_of 3 w) OR
     push_bit 24 (octet_of 4 w) OR push_bit 16 (octet_of 5 w) OR push_bit 8 (octet_of 6 w) OR octet_of 7 w"

lemma bit_octet_of: "bit (octet_of k w) n \<longleftrightarrow> n < 8 \<and> bit w (8 * k + n)" for w :: "'a :: len word"
  by (auto simp: octet_of_def bit_simps)

lemma bit_network16:
  assumes "r < 8" "q < 2"
  shows "bit (hostToNetwork16 w) (8 * q + r) \<longleftrightarrow> bit w (8 * (1 - q) + r)"
proof -
  consider "q = 0" | "q = 1" using assms(2) by linarith
  then show ?thesis using assms(1) by cases (auto simp: hostToNetwork16_def bit_octet_of bit_or_iff bit_push_bit_iff)
qed

lemma bit_network32:
  assumes "r < 8" "q < 4"
  shows "bit (hostToNetwork32 w) (8 * q + r) \<longleftrightarrow> bit w (8 * (3 - q) + r)"
proof -
  consider "q = 0" | "q = 1" | "q = 2" | "q = 3" using assms(2) by linarith
  then show ?thesis using assms(1) by cases (auto simp: hostToNetwork32_def bit_octet_of bit_or_iff bit_push_bit_iff)
qed

lemma bit_network64:
  assumes "r < 8" "q < 8"
  shows "bit (hostToNetwork64 w) (8 * q + r) \<longleftrightarrow> bit w (8 * (7 - q) + r)"
proof -
  consider "q = 0" | "q = 1" | "q = 2" | "q = 3" | "q = 4" | "q = 5" | "q = 6" | "q = 7" using assms(2) by linarith
  then show ?thesis using assms(1) by cases (auto simp: hostToNetwork64_def bit_octet_of bit_or_iff bit_push_bit_iff)
qed

lemma byte_bits:
  assumes "\<And>q r. q < k \<Longrightarrow> r < 8 \<Longrightarrow> bit a (8 * q + r) \<longleftrightarrow> bit b (8 * q + r)" and "LENGTH('a) = 8 * k"
  shows "a = (b :: 'a :: len word)"
proof (rule bit_word_eqI)
  fix n assume "n < LENGTH('a)"
  then have "n div 8 < k" using assms(2) by (simp add: less_mult_imp_div_less mult.commute)
  then show "bit a n \<longleftrightarrow> bit b n" using assms(1) [of "n div 8" "n mod 8"] by simp
qed

lemma networkToHost_inverse:
  "networkToHost16 (hostToNetwork16 a) = a"
  "networkToHost32 (hostToNetwork32 b) = b"
  "networkToHost64 (hostToNetwork64 c) = c"
proof -
  have same: "networkToHost16 = hostToNetwork16" "networkToHost32 = hostToNetwork32" "networkToHost64 = hostToNetwork64"
    by (simp_all add: fun_eq_iff networkToHost16_def hostToNetwork16_def networkToHost32_def hostToNetwork32_def
        networkToHost64_def hostToNetwork64_def)
  show "networkToHost16 (hostToNetwork16 a) = a"
    unfolding same by (rule byte_bits [of 2]) (simp_all add: bit_network16)
  show "networkToHost32 (hostToNetwork32 b) = b"
    unfolding same by (rule byte_bits [of 4]) (simp_all add: bit_network32)
  show "networkToHost64 (hostToNetwork64 c) = c"
    unfolding same by (rule byte_bits [of 8]) (simp_all add: bit_network64)
qed

section \<open>The memory of an address\<close>

type_synonym InetAddress = bytes

definition overlay :: "nat \<Rightarrow> bytes \<Rightarrow> bytes \<Rightarrow> bytes" where
  "overlay i d s = take i s @ d @ drop (i + length d) s"

definition bytes_of16 :: "16 word \<Rightarrow> bytes" where
  "bytes_of16 w = [char_of (unat w mod 256), char_of (unat w div 256)]"

definition word_of16 :: "bytes \<Rightarrow> 16 word" where
  "word_of16 d = (case d of [a, b] \<Rightarrow> word_of_nat (code a + 256 * code b) | _ \<Rightarrow> 0)"

definition bytes_of32 :: "32 word \<Rightarrow> bytes" where
  "bytes_of32 w =
     [char_of (unat w mod 256), char_of (unat w div 256 mod 256), char_of (unat w div 256 ^ 2 mod 256), char_of (unat w div 256 ^ 3)]"

definition AF_INET :: "16 word" where "AF_INET = 2"
definition AF_INET6 :: "16 word" where "AF_INET6 = 10"

definition sockaddr_size :: nat where
  "sockaddr_size = 28"

definition family :: "InetAddress \<Rightarrow> 16 word" where
  "family a = word_of16 (chunk 0 2 a)"

definition portNetEndian :: "InetAddress \<Rightarrow> 16 word" where
  "portNetEndian a = word_of16 (chunk 2 2 a)"

definition sin_addr :: "InetAddress \<Rightarrow> bytes" where
  "sin_addr a = chunk 4 4 a"

definition sin6_addr :: "InetAddress \<Rightarrow> bytes" where
  "sin6_addr a = chunk 8 16 a"

section \<open>Texts of IPv4 addresses\<close>

fun split_dots :: "bytes \<Rightarrow> bytes list" where
  "split_dots [] = [[]]"
| "split_dots (c # cs) =
     (if c = CHR ''.'' then [] # split_dots cs
      else case split_dots cs of [] \<Rightarrow> [[c]] | p # ps \<Rightarrow> (c # p) # ps)"

definition parse_octet :: "bytes \<Rightarrow> char option" where
  "parse_octet s =
     (if s \<noteq> [] \<and> length s \<le> 3 \<and> list_all isdigit s \<and> (hd s = CHR ''0'' \<longrightarrow> length s = 1) \<and> dec_val s < 256
      then Some (char_of (dec_val s)) else None)"

definition inet_pton4 :: "bytes \<Rightarrow> bytes option" where
  "inet_pton4 ip =
     (case map parse_octet (split_dots (c_str ip)) of [Some a, Some b, Some c, Some d] \<Rightarrow> Some [a, b, c, d] | _ \<Rightarrow> None)"

definition inet_ntop4 :: "bytes \<Rightarrow> bytes" where
  "inet_ntop4 d =
     (case d of
        [a, b, c, e] \<Rightarrow> nat_to_string (code a) @ ''.'' @ nat_to_string (code b) @ ''.'' @ nat_to_string (code c) @ ''.'' @ nat_to_string (code e)
      | _ \<Rightarrow> [])"

section \<open>Operations\<close>

text \<open>\<open>junk\<close>: what is in the memory of the object before its constructor runs.\<close>

definition isIpV6Address :: "bytes \<Rightarrow> bool" where
  "isIpV6Address ip \<longleftrightarrow> CHR '':'' \<in> set (c_str ip)"

definition addr_zero4 :: "16 word \<Rightarrow> bytes \<Rightarrow> InetAddress" where
  "addr_zero4 port junk =
     overlay 2 (bytes_of16 (hostToNetwork16 port)) (overlay 0 (bytes_of16 AF_INET) (overlay 0 (replicate 16 NUL) junk))"

definition addr_zero6 :: "16 word \<Rightarrow> bytes \<Rightarrow> InetAddress" where
  "addr_zero6 port junk =
     overlay 2 (bytes_of16 (hostToNetwork16 port)) (overlay 0 (bytes_of16 AF_INET6) (overlay 0 (replicate 28 NUL) junk))"

definition mkInetAddress_any :: "bytes \<Rightarrow> 16 word \<Rightarrow> bool \<Rightarrow> InetAddress" where
  "mkInetAddress_any junk port loopbackOnly =
     overlay 4 (bytes_of32 (hostToNetwork32 (if loopbackOnly then 0x7F000001 else 0))) (addr_zero4 port junk)"

definition mkInetAddress_flag :: "(bytes \<Rightarrow> bytes option) \<Rightarrow> bytes \<Rightarrow> bytes \<Rightarrow> 16 word \<Rightarrow> bool \<Rightarrow> InetAddress" where
  "mkInetAddress_flag inet_pton6 junk ip port ipv6 =
     (if ipv6
      then case inet_pton6 (c_str ip) of None \<Rightarrow> addr_zero6 port junk | Some d \<Rightarrow> overlay 8 d (addr_zero6 port junk)
      else case inet_pton4 (c_str ip) of None \<Rightarrow> addr_zero4 port junk | Some d \<Rightarrow> overlay 4 d (addr_zero4 port junk))"

definition mkInetAddress :: "(bytes \<Rightarrow> bytes option) \<Rightarrow> bytes \<Rightarrow> bytes \<Rightarrow> 16 word \<Rightarrow> InetAddress" where
  "mkInetAddress inet_pton6 junk ip port =
     (if isIpV6Address ip
      then case inet_pton6 (c_str ip) of None \<Rightarrow> addr_zero6 port junk | Some d \<Rightarrow> overlay 8 d (addr_zero6 port junk)
      else case inet_pton4 (c_str ip) of None \<Rightarrow> addr_zero4 port junk | Some d \<Rightarrow> overlay 4 d (addr_zero4 port junk))"

definition toIp :: "(bytes \<Rightarrow> bytes) \<Rightarrow> InetAddress \<Rightarrow> bytes" where
  "toIp inet_ntop6 a =
     (if family a = AF_INET then inet_ntop4 (sin_addr a)
      else if family a = AF_INET6 then inet_ntop6 (sin6_addr a)
      else [])"

text \<open>The buffer has 64 bytes; \<^verbatim>\<open>snprintf\<close> cuts what does not fit.\<close>

definition toIpPort :: "(bytes \<Rightarrow> bytes) \<Rightarrow> InetAddress \<Rightarrow> bytes" where
  "toIpPort inet_ntop6 a =
     (let port = nat_to_string (unat (networkToHost16 (portNetEndian a)))
      in if family a = AF_INET then take 63 (inet_ntop4 (sin_addr a) @ '':'' @ port)
         else if family a = AF_INET6 then take 63 (''['' @ inet_ntop6 (sin6_addr a) @ '']:'' @ port)
         else [])"

definition addr_port :: "InetAddress \<Rightarrow> 16 word" where
  "addr_port a = networkToHost16 (portNetEndian a)"

definition ipv4NetEndian :: "InetAddress \<Rightarrow> bytes result" where
  "ipv4NetEndian a = rbind (passert (family a = AF_INET)) (\<lambda>_. Inr (sin_addr a))"

text \<open>\<open>ent\<close>: the address type and the first address that \<^verbatim>\<open>gethostbyname_r\<close> found, if it did.\<close>

definition resolve :: "(16 word \<times> bytes) option \<Rightarrow> InetAddress \<Rightarrow> (bool \<times> InetAddress) result" where
  "resolve ent result =
     (case ent of
        Some (h_addrtype, h_addr) \<Rightarrow> rbind (passert (h_addrtype = AF_INET)) (\<lambda>_. Inr (True, overlay 4 (take 4 h_addr) result))
      | None \<Rightarrow> Inr (False, result))"

section \<open>Addresses in \<open>SocketsOps\<close>\<close>

text \<open>The buffer holds \<open>old\<close>; a family that is neither of the two leaves it as it was.\<close>

definition sockets_toIp :: "(bytes \<Rightarrow> bytes) \<Rightarrow> nat \<Rightarrow> bytes \<Rightarrow> bytes \<Rightarrow> bytes result" where
  "sockets_toIp inet_ntop6 size_of old a =
     (if family a = AF_INET then rbind (passert (16 \<le> size_of)) (\<lambda>_. Inr (inet_ntop4 (sin_addr a)))
      else if family a = AF_INET6 then rbind (passert (46 \<le> size_of)) (\<lambda>_. Inr (inet_ntop6 (sin6_addr a)))
      else Inr old)"

definition sockets_toIpPort :: "(bytes \<Rightarrow> bytes) \<Rightarrow> nat \<Rightarrow> bytes \<Rightarrow> bytes \<Rightarrow> bytes result" where
  "sockets_toIpPort inet_ntop6 size_of old a =
     rbind (sockets_toIp inet_ntop6 size_of old a) (\<lambda>buf.
       Inr (take (size_of - 1) (buf @ '':'' @ nat_to_string (unat (networkToHost16 (portNetEndian a))))))"

definition fromIpPort :: "bytes \<Rightarrow> 16 word \<Rightarrow> bytes \<Rightarrow> bytes" where
  "fromIpPort ip port addr =
     (let a1 = overlay 2 (bytes_of16 (hostToNetwork16 port)) (overlay 0 (bytes_of16 AF_INET) addr)
      in case inet_pton4 (c_str ip) of None \<Rightarrow> a1 | Some d \<Rightarrow> overlay 4 d a1)"

definition fromIpPort6 :: "(bytes \<Rightarrow> bytes option) \<Rightarrow> bytes \<Rightarrow> 16 word \<Rightarrow> bytes \<Rightarrow> bytes" where
  "fromIpPort6 inet_pton6 ip port addr =
     (let a1 = overlay 2 (bytes_of16 (hostToNetwork16 port)) (overlay 0 (bytes_of16 AF_INET6) addr)
      in case inet_pton6 (c_str ip) of None \<Rightarrow> a1 | Some d \<Rightarrow> overlay 8 d a1)"

text \<open>\<open>got\<close>: the option, or the error number when \<^verbatim>\<open>getsockopt\<close> fails.\<close>

definition getSocketError :: "int + int \<Rightarrow> int" where
  "getSocketError got = (case got of Inl e \<Rightarrow> e | Inr optval \<Rightarrow> optval)"

text \<open>What \<^verbatim>\<open>getsockname\<close> and \<^verbatim>\<open>getpeername\<close> stored, if they did.\<close>

definition getLocalAddr :: "bytes option \<Rightarrow> InetAddress" where
  "getLocalAddr got = (case got of None \<Rightarrow> replicate 28 NUL | Some d \<Rightarrow> overlay 0 (take 28 d) (replicate 28 NUL))"

definition getPeerAddr :: "bytes option \<Rightarrow> InetAddress" where
  "getPeerAddr got = (case got of None \<Rightarrow> replicate 28 NUL | Some d \<Rightarrow> overlay 0 (take 28 d) (replicate 28 NUL))"

definition isSelfConnect :: "bytes option \<Rightarrow> bytes option \<Rightarrow> bool" where
  "isSelfConnect local_got peer_got =
     (let localaddr = getLocalAddr local_got; peeraddr = getPeerAddr peer_got
      in if family localaddr = AF_INET
         then portNetEndian localaddr = portNetEndian peeraddr \<and> sin_addr localaddr = sin_addr peeraddr
         else if family localaddr = AF_INET6
         then portNetEndian localaddr = portNetEndian peeraddr \<and> sin6_addr localaddr = sin6_addr peeraddr
         else False)"

text \<open>\<open>ok\<close>: whether the system call succeeded.\<close>

definition createNonblockingOrDie :: "int option \<Rightarrow> int result" where
  "createNonblockingOrDie sockfd = (case sockfd of None \<Rightarrow> Inl Fatal_Log | Some fd \<Rightarrow> Inr fd)"

definition bindOrDie :: "bool \<Rightarrow> unit result" where
  "bindOrDie ok = (if ok then Inr () else Inl Fatal_Log)"

definition listenOrDie :: "bool \<Rightarrow> unit result" where
  "listenOrDie ok = (if ok then Inr () else Inl Fatal_Log)"

text \<open>\<^verbatim>\<open>Socket::accept\<close>: the peer's address is stored when there is a connection.\<close>

definition socket_accept :: "int \<Rightarrow> bytes \<Rightarrow> InetAddress \<Rightarrow> int \<times> InetAddress" where
  "socket_accept connfd addr peeraddr = (connfd, if 0 \<le> connfd then addr else peeraddr)"
section \<open>Lemmas\<close>

lemma length_overlay [simp]: "i + length d \<le> length s \<Longrightarrow> length (overlay i d s) = length s"
  by (simp add: overlay_def)

lemma chunk_overlay [simp]: "i + length d \<le> length s \<Longrightarrow> n = length d \<Longrightarrow> chunk i n (overlay i d s) = d"
  by (simp add: overlay_def chunk_def)

lemma chunk_overlay_before [simp]: "j + n \<le> i \<Longrightarrow> i \<le> length s \<Longrightarrow> chunk j n (overlay i d s) = chunk j n s"
  by (simp add: overlay_def chunk_def take_drop min_def)

lemma chunk_overlay_after [simp]: "i + length d \<le> j \<Longrightarrow> i + length d \<le> length s \<Longrightarrow> chunk j n (overlay i d s) = chunk j n s"
  by (simp add: overlay_def chunk_def)

lemma length_bytes_of16 [simp]: "length (bytes_of16 w) = 2"
  by (simp add: bytes_of16_def)

lemma unat16_less: "unat (w :: 16 word) < 65536"
proof -
  have "unat w < 2 ^ LENGTH(16)" by (rule unsigned_less)
  then show ?thesis by simp
qed

lemma word_of16_bytes [simp]: "word_of16 (bytes_of16 w) = w"
proof -
  have "unat w < 256 * 256" using unat16_less [of w] by simp
  then have "unat w div 256 < 256" by (simp add: less_mult_imp_div_less)
  then have "code (char_of (unat w mod 256)) + 256 * code (char_of (unat w div 256)) = unat w"
    by (simp only: code_char_of mod_less_divisor zero_less_numeral mod_mult_div_eq)
  then show ?thesis unfolding word_of16_def bytes_of16_def by (simp only: list.case) simp
qed

lemma AF_INET6_not: "AF_INET6 \<noteq> AF_INET"
  by (simp add: AF_INET_def AF_INET6_def)

lemma addr_zero4_fields [simp]:
  assumes "length junk = sockaddr_size"
  shows "length (addr_zero4 port junk) = 28" "family (addr_zero4 port junk) = AF_INET"
    "portNetEndian (addr_zero4 port junk) = hostToNetwork16 port"
  using assms by (simp_all add: addr_zero4_def sockaddr_size_def family_def portNetEndian_def)

lemma addr_zero6_fields [simp]:
  assumes "length junk = sockaddr_size"
  shows "length (addr_zero6 port junk) = 28" "family (addr_zero6 port junk) = AF_INET6"
    "portNetEndian (addr_zero6 port junk) = hostToNetwork16 port"
  using assms by (simp_all add: addr_zero6_def sockaddr_size_def family_def portNetEndian_def)

lemma split_dots_nonempty: "split_dots s \<noteq> []"
  by (induction s) (auto split: list.splits)

lemma split_dots_last: "CHR ''.'' \<notin> set p \<Longrightarrow> split_dots p = [p]"
  by (induction p) auto

lemma split_dots_cons: "CHR ''.'' \<notin> set p \<Longrightarrow> split_dots (p @ CHR ''.'' # s) = p # split_dots s"
  by (induction p) auto

lemma parse_octet_printed:
  assumes "n < 256"
  shows "parse_octet (nat_to_string n) = Some (char_of n)"
proof -
  have zero: "digit_val CHR ''0'' = 0" by (simp add: digit_val_def code_def)
  consider "n < 10" | "10 \<le> n" "n < 100" | "100 \<le> n" by linarith
  then have "length (nat_to_string n) \<le> 3 \<and> (hd (nat_to_string n) = CHR ''0'' \<longrightarrow> length (nat_to_string n) = 1)"
  proof cases
    case 2
    then have n: "hd (nat_to_string n) = char_of (48 + n div 10)" "length (nat_to_string n) = 2" "0 < n div 10" "n div 10 < 10"
      by (simp_all add: nat_to_string.simps div_greater_zero_iff)
    then have "hd (nat_to_string n) \<noteq> CHR ''0''" using digit_char [OF n(4)] zero by (metis less_irrefl)
    then show ?thesis using n(2) by simp
  next
    case 3
    then have "n div 100 < 10" "\<not> n div 10 < 10"
      using assms div_le_mono [of 100 n 10] by (simp_all add: less_mult_imp_div_less)
    then have n: "hd (nat_to_string n) = char_of (48 + n div 100)" "length (nat_to_string n) = 3" "0 < n div 100" "n div 100 < 10"
      using 3 by (simp_all add: nat_to_string.simps div_greater_zero_iff div_mult2_eq [symmetric])
    then have "hd (nat_to_string n) \<noteq> CHR ''0''" using digit_char [OF n(4)] zero by (metis less_irrefl)
    then show ?thesis using n(2) by simp
  qed (simp add: nat_to_string.simps)
  then show ?thesis
    using assms nat_to_string_digits [of n] by (simp add: parse_octet_def dec_val_nat_to_string)
qed

definition dotted :: "nat \<Rightarrow> nat \<Rightarrow> nat \<Rightarrow> nat \<Rightarrow> bytes" where
  "dotted a b c d = nat_to_string a @ ''.'' @ nat_to_string b @ ''.'' @ nat_to_string c @ ''.'' @ nat_to_string d"

lemma digits_not:
  "x \<in> set (nat_to_string n) \<Longrightarrow> isdigit x"
  using nat_to_string_digits [of n] by (simp add: list_all_iff)

lemma dotted_chars: "x \<in> set (dotted a b c d) \<Longrightarrow> isdigit x \<or> x = CHR ''.''"
  by (auto simp: dotted_def dest: digits_not)

lemma no_dot: "CHR ''.'' \<notin> set (nat_to_string n)"
  using digits_not [of "CHR ''.''" n] by (auto simp: isdigit_def code_def)

lemma dotted_plain: "c_str (dotted a b c d) = dotted a b c d" "\<not> isIpV6Address (dotted a b c d)"
proof -
  have "NUL \<notin> set (dotted a b c d)" "CHR '':'' \<notin> set (dotted a b c d)"
    using dotted_chars [of NUL] dotted_chars [of "CHR '':''"] by (auto simp: isdigit_def code_def NUL_def)
  then show "c_str (dotted a b c d) = dotted a b c d" "\<not> isIpV6Address (dotted a b c d)"
    by (auto simp: c_str_def takeWhile_eq_all_conv isIpV6Address_def dest: set_takeWhileD)
qed

lemma inet_pton4_dotted:
  assumes "a < 256" "b < 256" "c < 256" "d < 256"
  shows "inet_pton4 (dotted a b c d) = Some [char_of a, char_of b, char_of c, char_of d]"
  using assms split_dots_cons [OF no_dot] split_dots_last [OF no_dot]
  by (simp add: inet_pton4_def dotted_plain(1)) (simp add: dotted_def parse_octet_printed)

lemma unat16_lt: "unat (w :: 16 word) < 10 ^ 5"
  using unat16_less [of w] by simp

text \<open>The network order of a port in memory: the high byte comes first.\<close>

lemma bytes_of16_network: "bytes_of16 (hostToNetwork16 w) = [char_of (unat w div 256), char_of (unat w mod 256)]"
proof -
  have beyond: "\<not> bit w n" if "16 \<le> n" for n using that bit_imp_le_length [of w n] by force
  have lo: "take_bit 8 (hostToNetwork16 w) = drop_bit 8 w"
    by (rule bit_word_eqI) (auto simp: hostToNetwork16_def bit_octet_of bit_simps beyond)
  have hi: "drop_bit 8 (hostToNetwork16 w) = take_bit 8 w"
    by (rule bit_word_eqI) (auto simp: hostToNetwork16_def bit_octet_of bit_simps beyond)
  have octet: "unat (take_bit 8 v) = unat v mod 256" for v :: "16 word"
    by (simp only: unsigned_take_bit_eq) (simp add: take_bit_eq_mod)
  have rest: "unat (drop_bit 8 v) = unat v div 256" for v :: "16 word"
    by (simp only: unat_drop_bit_eq) (simp add: drop_bit_eq_div)
  have "unat (hostToNetwork16 w) mod 256 = unat (take_bit 8 (hostToNetwork16 w))" by (rule octet [symmetric])
  also have "\<dots> = unat w div 256" unfolding lo by (rule rest)
  finally have a: "unat (hostToNetwork16 w) mod 256 = unat w div 256" .
  have "unat (hostToNetwork16 w) div 256 = unat (drop_bit 8 (hostToNetwork16 w))" by (rule rest [symmetric])
  also have "\<dots> = unat w mod 256" unfolding hi by (rule octet)
  finally show ?thesis using a by (simp add: bytes_of16_def)
qed

text \<open>
  C34 (roundtrip). An address that is made from the text of an IPv4 address and a port has the port in network byte order in its memory, the
  high byte first, and the four bytes of the address behind it, whatever was in the memory before; it prints as the text, alone and with the port, and gives the
  port back.
\<close>

theorem inet_address_roundtrip:
  assumes "a < 256" and "b < 256" and "c < 256" and "d < 256" and "length junk = sockaddr_size"
  shows "toIp ntop6 (mkInetAddress pton6 junk (dotted a b c d) port) = dotted a b c d \<and>
         toIpPort ntop6 (mkInetAddress pton6 junk (dotted a b c d) port) = dotted a b c d @ '':'' @ nat_to_string (unat port) \<and>
         addr_port (mkInetAddress pton6 junk (dotted a b c d) port) = port \<and>
         chunk 2 6 (mkInetAddress pton6 junk (dotted a b c d) port) =
           [char_of (unat port div 256), char_of (unat port mod 256), char_of a, char_of b, char_of c, char_of d]"
proof -
  let ?d = "[char_of a, char_of b, char_of c, char_of d] :: bytes"
  have mk: "mkInetAddress pton6 junk (dotted a b c d) port = overlay 4 ?d (addr_zero4 port junk)"
    using inet_pton4_dotted [OF assms(1-4)] by (simp add: mkInetAddress_def dotted_plain)
  have f: "family (overlay 4 ?d (addr_zero4 port junk)) = AF_INET" "sin_addr (overlay 4 ?d (addr_zero4 port junk)) = ?d"
    "portNetEndian (overlay 4 ?d (addr_zero4 port junk)) = hostToNetwork16 port"
    using addr_zero4_fields [OF assms(5)] by (simp_all add: family_def sin_addr_def portNetEndian_def)
  have p: "inet_ntop4 ?d = dotted a b c d" using assms by (simp add: inet_ntop4_def dotted_def)
  have three: "length (nat_to_string n) \<le> 3" if "n < 256" for n using length_nat_to_string [of 3 n] that by simp
  then have "length (dotted a b c d) \<le> 15"
    using three [OF assms(1)] three [OF assms(2)] three [OF assms(3)] three [OF assms(4)] by (simp add: dotted_def)
  then have "length (dotted a b c d @ '':'' @ nat_to_string (unat port)) \<le> 63"
    using length_nat_to_string [OF _ unat16_lt [of port]] by simp
  moreover have "chunk 2 6 (overlay 4 ?d (addr_zero4 port junk)) = [char_of (unat port div 256), char_of (unat port mod 256)] @ ?d"
    using assms(5) by (simp add: addr_zero4_def bytes_of16_network chunk_def overlay_def sockaddr_size_def)
  ultimately show ?thesis
    unfolding mk toIp_def toIpPort_def addr_port_def Let_def using f p by (simp add: networkToHost_inverse)
qed

theorem inet_address_roundtrip_witness:
  "toIpPort (\<lambda>d. []) (mkInetAddress (\<lambda>s. None) (replicate 28 CHR ''x'') ''127.0.0.1'' 8080) = ''127.0.0.1:8080'' \<and>
   chunk 2 6 (mkInetAddress (\<lambda>s. None) (replicate 28 CHR ''x'') ''127.0.0.1'' 8080) =
     map char_of [31 :: nat, 144, 127, 0, 0, 1]"
proof -
  have "dotted 127 0 0 1 = ''127.0.0.1''" by (simp add: dotted_def nat_to_string.simps)
  with inet_address_roundtrip [of 127 0 0 1 "replicate 28 CHR ''x''" "\<lambda>d. []" "\<lambda>s. None" 8080]
  show ?thesis by (simp add: sockaddr_size_def nat_to_string.simps)
qed

text \<open>The same for IPv6, where the text conversions are inverse to each other.\<close>

lemma inet6_address_roundtrip:
  assumes "isIpV6Address ip" "pton6 (c_str ip) = Some d" "length d = 16" "ntop6 d = ip" "length ip \<le> 45" "length junk = sockaddr_size"
  shows "toIpPort ntop6 (mkInetAddress pton6 junk ip port) = ''['' @ ip @ '']:'' @ nat_to_string (unat port)"
proof -
  have f: "family (overlay 8 d (addr_zero6 port junk)) = AF_INET6" "sin6_addr (overlay 8 d (addr_zero6 port junk)) = d"
    "portNetEndian (overlay 8 d (addr_zero6 port junk)) = hostToNetwork16 port"
    using addr_zero6_fields [OF assms(6)] assms(3) by (simp_all add: family_def sin6_addr_def portNetEndian_def)
  have "length (''['' @ ip @ '']:'' @ nat_to_string (unat port)) \<le> 63"
    using length_nat_to_string [OF _ unat16_lt [of port]] assms(5) by simp
  then show ?thesis
    using assms f by (simp add: mkInetAddress_def toIpPort_def networkToHost_inverse AF_INET6_not)
qed

lemma mkInetAddress_any_listens:
  assumes "length junk = sockaddr_size"
  shows "toIp ntop6 (mkInetAddress_any junk port loopbackOnly) = (if loopbackOnly then ''127.0.0.1'' else ''0.0.0.0'')"
proof -
  let ?a = "mkInetAddress_any junk port loopbackOnly"
  have "hostToNetwork32 0x7F000001 = 0x0100007F" "hostToNetwork32 0 = 0"
    by (simp_all add: hostToNetwork32_def octet_of_def)
  then have "sin_addr ?a = (if loopbackOnly then [CHR 0x7F, NUL, NUL, CHR 0x01] else [NUL, NUL, NUL, NUL])" "family ?a = AF_INET"
    using addr_zero4_fields [OF assms]
    by (simp_all add: mkInetAddress_any_def bytes_of32_def sin_addr_def family_def NUL_def char_of_def bit_0)
  then show ?thesis by (simp add: toIp_def inet_ntop4_def NUL_def code_def nat_to_string.simps)
qed

text \<open>A connection is taken for a connection with itself exactly when its two ends have the same address and port.\<close>

lemma isSelfConnect_endpoints:
  assumes "a < 256" "b < 256" "c < 256" "d < 256" "a' < 256" "b' < 256" "c' < 256" "d' < 256"
    and "length junk = sockaddr_size" "length junk' = sockaddr_size"
  shows "isSelfConnect (Some (mkInetAddress pton6 junk (dotted a b c d) port)) (Some (mkInetAddress pton6 junk' (dotted a' b' c' d') port'))
           \<longleftrightarrow> (a, b, c, d, port) = (a', b', c', d', port')"
proof -
  let ?d = "[char_of a, char_of b, char_of c, char_of d] :: bytes" and ?d' = "[char_of a', char_of b', char_of c', char_of d'] :: bytes"
  have mk: "mkInetAddress pton6 junk (dotted a b c d) port = overlay 4 ?d (addr_zero4 port junk)"
    "mkInetAddress pton6 junk' (dotted a' b' c' d') port' = overlay 4 ?d' (addr_zero4 port' junk')"
    using inet_pton4_dotted assms by (simp_all add: mkInetAddress_def dotted_plain)
  have got: "getLocalAddr (Some x) = x" "getPeerAddr (Some x) = x" if "length x = 28" for x
    using that by (simp_all add: getLocalAddr_def getPeerAddr_def overlay_def)
  have f: "family (overlay 4 e (addr_zero4 p j)) = AF_INET" "sin_addr (overlay 4 e (addr_zero4 p j)) = e"
    "portNetEndian (overlay 4 e (addr_zero4 p j)) = hostToNetwork16 p" "length (overlay 4 e (addr_zero4 p j)) = 28"
    if "length j = sockaddr_size" "length e = 4" for e p j
    using addr_zero4_fields [OF that(1)] that(2) by (simp_all add: family_def sin_addr_def portNetEndian_def)
  have ports: "hostToNetwork16 port = hostToNetwork16 port' \<longleftrightarrow> port = port'" by (metis networkToHost_inverse(1))
  have "?d = ?d' \<longleftrightarrow> (a, b, c, d) = (a', b', c', d')"
    using assms code_char_of by (metis list.inject prod.inject)
  then show ?thesis using f assms(9,10) got ports unfolding mk isSelfConnect_def Let_def by auto
qed

end
