(* ===== verification/Pollers.thy ===== *)
theory Pollers
  imports Channel Calendar
begin

text \<open>
  \<^verbatim>\<open>Poller\<close>, \<^verbatim>\<open>EPollPoller\<close> and \<^verbatim>\<open>PollPoller\<close> (\<^verbatim>\<open>inc/network/Poller.hpp\<close>, \<^verbatim>\<open>src/network/Poller.cpp\<close>,
  \<^verbatim>\<open>inc/network/poller\<close>, \<^verbatim>\<open>src/network/poller\<close>).  The channels are objects the pollers share with their owners: a store maps
  their addresses to them, and both pollers keep their own bookkeeping in the \<^verbatim>\<open>index\<close> of a channel.

  The kernel is outside: \<open>kctl\<close> is \<^verbatim>\<open>epoll_ctl\<close> on the kernel's state of an epoll descriptor (\<open>None\<close> when it fails),
  \<open>waited\<close> is what \<^verbatim>\<open>epoll_wait\<close> or \<^verbatim>\<open>poll\<close> returns (\<open>None\<close> for \<open>-1\<close>).  All calls are made in the thread of the loop.
\<close>

section \<open>Definitions\<close>

type_synonym chan_ptr = nat
type_synonym chans = "chan_ptr \<Rightarrow> Channel"

subsection \<open>epoll\<close>

definition kNew :: int where "kNew = -1"
definition kAdded :: int where "kAdded = 1"
definition kDeleted :: int where "kDeleted = 2"

lemmas ep_index_defs = kNew_def kAdded_def kDeleted_def

datatype ctl_op = EPOLL_CTL_ADD | EPOLL_CTL_DEL | EPOLL_CTL_MOD

type_synonym 'k epoll_ctl = "ctl_op \<Rightarrow> int \<Rightarrow> chan_ptr \<times> events \<Rightarrow> 'k \<Rightarrow> 'k option"

record 'k EPollPoller =
  ep_channels :: "int \<rightharpoonup> chan_ptr"
  ep_kernel :: 'k
  ep_events_size :: nat

definition kInitEventListSize :: nat where
  "kInitEventListSize = 16"

definition mkEPollPoller :: "'k \<Rightarrow> 'k EPollPoller" where
  "mkEPollPoller k = \<lparr>ep_channels = Map.empty, ep_kernel = k, ep_events_size = kInitEventListSize\<rparr>"

definition operationToString :: "ctl_op \<Rightarrow> bytes" where
  "operationToString op = (case op of EPOLL_CTL_ADD \<Rightarrow> ''ADD'' | EPOLL_CTL_DEL \<Rightarrow> ''DEL'' | EPOLL_CTL_MOD \<Rightarrow> ''MOD'')"

definition ep_update :: "'k epoll_ctl \<Rightarrow> ctl_op \<Rightarrow> chan_ptr \<Rightarrow> chans \<times> 'k EPollPoller \<Rightarrow> (chans \<times> 'k EPollPoller) result" where
  "ep_update kctl operation c s =
     (let ch = fst s c
      in case kctl operation (ch_fd ch) (c, ch_events ch) (ep_kernel (snd s)) of
           None \<Rightarrow> if operation = EPOLL_CTL_DEL then Inr s else Inl Fatal_Log
         | Some k \<Rightarrow> Inr (fst s, (snd s)\<lparr>ep_kernel := k\<rparr>))"

definition set_index :: "chan_ptr \<Rightarrow> int \<Rightarrow> chans \<Rightarrow> chans" where
  "set_index c i st = st(c := (st c)\<lparr>ch_index := i\<rparr>)"

definition set_revents :: "chan_ptr \<Rightarrow> events \<Rightarrow> chans \<Rightarrow> chans" where
  "set_revents c r st = st(c := (st c)\<lparr>ch_revents := r\<rparr>)"

definition ep_updateChannel :: "'k epoll_ctl \<Rightarrow> chan_ptr \<Rightarrow> chans \<times> 'k EPollPoller \<Rightarrow> (chans \<times> 'k EPollPoller) result" where
  "ep_updateChannel kctl c s =
     (let st = fst s; p = snd s; index = ch_index (st c); fd = ch_fd (st c)
      in if index = kNew \<or> index = kDeleted
         then if index = kNew
              then rbind (passert (ep_channels p fd = None)) (\<lambda>_.
                     ep_update kctl EPOLL_CTL_ADD c (set_index c kAdded st, p\<lparr>ep_channels := (ep_channels p)(fd \<mapsto> c)\<rparr>))
              else rbind (passert (ep_channels p fd \<noteq> None)) (\<lambda>_.
                   rbind (passert (ep_channels p fd = Some c)) (\<lambda>_.
                     ep_update kctl EPOLL_CTL_ADD c (set_index c kAdded st, p)))
         else rbind (passert (ep_channels p fd \<noteq> None)) (\<lambda>_.
              rbind (passert (ep_channels p fd = Some c)) (\<lambda>_.
              rbind (passert (index = kAdded)) (\<lambda>_.
                if isNoneEvent (st c)
                then rbind (ep_update kctl EPOLL_CTL_DEL c s) (\<lambda>s1. Inr (set_index c kDeleted (fst s1), snd s1))
                else ep_update kctl EPOLL_CTL_MOD c s))))"

definition ep_removeChannel :: "'k epoll_ctl \<Rightarrow> chan_ptr \<Rightarrow> chans \<times> 'k EPollPoller \<Rightarrow> (chans \<times> 'k EPollPoller) result" where
  "ep_removeChannel kctl c s =
     (let st = fst s; p = snd s; index = ch_index (st c); fd = ch_fd (st c)
      in rbind (passert (ep_channels p fd \<noteq> None)) (\<lambda>_.
         rbind (passert (ep_channels p fd = Some c)) (\<lambda>_.
         rbind (passert (isNoneEvent (st c))) (\<lambda>_.
         rbind (passert (index = kAdded \<or> index = kDeleted)) (\<lambda>_.
         let s1 = (st, p\<lparr>ep_channels := (ep_channels p)(fd := None)\<rparr>)
         in rbind (if index = kAdded then ep_update kctl EPOLL_CTL_DEL c s1 else Inr s1) (\<lambda>s2.
              Inr (set_index c kNew (fst s2), snd s2)))))))"

definition ep_hasChannel :: "chan_ptr \<Rightarrow> chans \<times> 'k EPollPoller \<Rightarrow> bool" where
  "ep_hasChannel c s \<longleftrightarrow> ep_channels (snd s) (ch_fd (fst s c)) = Some c"

text \<open>The events returned: the address given at registration, and the events that occurred.\<close>

fun ep_fill :: "(chan_ptr \<times> events) list \<Rightarrow> chan_ptr list \<Rightarrow> chans \<times> 'k EPollPoller \<Rightarrow> (chan_ptr list \<times> chans) result" where
  "ep_fill [] active s = Inr (active, fst s)"
| "ep_fill (e # es) active s =
     rbind (passert (ep_channels (snd s) (ch_fd (fst s (fst e))) \<noteq> None)) (\<lambda>_.
     rbind (passert (ep_channels (snd s) (ch_fd (fst s (fst e))) = Some (fst e))) (\<lambda>_.
       ep_fill es (active @ [fst e]) (set_revents (fst e) (snd e) (fst s), snd s)))"

definition ep_fillActiveChannels ::
  "(chan_ptr \<times> events) list \<Rightarrow> chan_ptr list \<Rightarrow> chans \<times> 'k EPollPoller \<Rightarrow> (chan_ptr list \<times> chans) result" where
  "ep_fillActiveChannels es active s =
     rbind (passert (length es \<le> ep_events_size (snd s))) (\<lambda>_. ep_fill es active s)"

definition ep_poll ::
  "(chan_ptr \<times> events) list option \<Rightarrow> chan_ptr list \<Rightarrow> chans \<times> 'k EPollPoller \<Rightarrow>
     (chan_ptr list \<times> chans \<times> 'k EPollPoller) result" where
  "ep_poll waited active s =
     (case waited of
        Some (e # es) \<Rightarrow>
          rbind (ep_fillActiveChannels (e # es) active s) (\<lambda>(active1, st1).
            Inr (active1, st1,
                 if length (e # es) = ep_events_size (snd s)
                 then (snd s)\<lparr>ep_events_size := ep_events_size (snd s) * 2\<rparr> else snd s))
      | _ \<Rightarrow> Inr (active, s))"

subsection \<open>poll\<close>

record pollfd =
  pf_fd :: int
  pf_events :: "16 word"
  pf_revents :: "16 word"

record PollPoller =
  pp_channels :: "int \<rightharpoonup> chan_ptr"
  pollfds :: "pollfd list"

definition mkPollPoller :: PollPoller where
  "mkPollPoller = \<lparr>pp_channels = Map.empty, pollfds = []\<rparr>"

definition pp_updateChannel :: "chan_ptr \<Rightarrow> chans \<times> PollPoller \<Rightarrow> (chans \<times> PollPoller) result" where
  "pp_updateChannel c s =
     (let st = fst s; p = snd s; fd = ch_fd (st c); idx = ch_index (st c)
      in if idx < 0
         then rbind (passert (pp_channels p fd = None)) (\<lambda>_.
                Inr (set_index c (int (length (pollfds p))) st,
                     p\<lparr>pollfds := pollfds p @ [\<lparr>pf_fd = fd, pf_events = ucast (ch_events (st c)), pf_revents = 0\<rparr>],
                       pp_channels := (pp_channels p)(fd \<mapsto> c)\<rparr>))
         else rbind (passert (pp_channels p fd \<noteq> None)) (\<lambda>_.
              rbind (passert (pp_channels p fd = Some c)) (\<lambda>_.
              rbind (passert (0 \<le> idx \<and> idx < int (length (pollfds p)))) (\<lambda>_.
              let i = nat idx; pfd = pollfds p ! i
              in rbind (passert (pf_fd pfd = fd \<or> pf_fd pfd = - fd - 1)) (\<lambda>_.
                   Inr (st, p\<lparr>pollfds := (pollfds p)[i :=
                     \<lparr>pf_fd = (if isNoneEvent (st c) then - fd - 1 else fd),
                      pf_events = ucast (ch_events (st c)), pf_revents = 0\<rparr>]\<rparr>))))))"

definition pp_removeChannel :: "chan_ptr \<Rightarrow> chans \<times> PollPoller \<Rightarrow> (chans \<times> PollPoller) result" where
  "pp_removeChannel c s =
     (let st = fst s; p = snd s; fd = ch_fd (st c); idx = ch_index (st c)
      in rbind (passert (pp_channels p fd \<noteq> None)) (\<lambda>_.
         rbind (passert (pp_channels p fd = Some c)) (\<lambda>_.
         rbind (passert (isNoneEvent (st c))) (\<lambda>_.
         rbind (passert (0 \<le> idx \<and> idx < int (length (pollfds p)))) (\<lambda>_.
         let i = nat idx; pfd = pollfds p ! i
         in rbind (passert (pf_fd pfd = - fd - 1 \<and> scast (pf_events pfd) = ch_events (st c))) (\<lambda>_.
            let channels1 = (pp_channels p)(fd := None)
            in if i = length (pollfds p) - 1
               then Inr (st, p\<lparr>pp_channels := channels1, pollfds := butlast (pollfds p)\<rparr>)
               else let atEnd = pf_fd (last (pollfds p));
                        channelAtEnd = (if atEnd < 0 then - atEnd - 1 else atEnd)
                    in case channels1 channelAtEnd of
                         None \<Rightarrow> Inl Out_Of_Bounds
                       | Some c' \<Rightarrow> Inr (set_index c' idx st,
                           p\<lparr>pp_channels := channels1,
                             pollfds := butlast ((pollfds p)[i := last (pollfds p)])\<rparr>)))))))"

definition pp_hasChannel :: "chan_ptr \<Rightarrow> chans \<times> PollPoller \<Rightarrow> bool" where
  "pp_hasChannel c s \<longleftrightarrow> pp_channels (snd s) (ch_fd (fst s c)) = Some c"

fun pp_fill :: "pollfd list \<Rightarrow> nat \<Rightarrow> chan_ptr list \<Rightarrow> chans \<times> PollPoller \<Rightarrow> (chan_ptr list \<times> chans) result" where
  "pp_fill [] numEvents active s = Inr (active, fst s)"
| "pp_fill (pfd # ps) numEvents active s =
     (if numEvents = 0 then Inr (active, fst s)
      else if 0 < sint (pf_revents pfd)
      then case pp_channels (snd s) (pf_fd pfd) of
             None \<Rightarrow> Inl Assertion_Failed
           | Some c \<Rightarrow> rbind (passert (ch_fd (fst s c) = pf_fd pfd)) (\<lambda>_.
               pp_fill ps (numEvents - 1) (active @ [c]) (set_revents c (scast (pf_revents pfd)) (fst s), snd s))
      else pp_fill ps numEvents active s)"

definition pp_fillActiveChannels :: "nat \<Rightarrow> chan_ptr list \<Rightarrow> chans \<times> PollPoller \<Rightarrow> (chan_ptr list \<times> chans) result" where
  "pp_fillActiveChannels numEvents active s = pp_fill (pollfds (snd s)) numEvents active s"

text \<open>\<open>waited\<close>: the count that \<^verbatim>\<open>poll\<close> returns, and the events it writes for each entry of the array.\<close>

definition pp_poll ::
  "(nat \<times> (pollfd \<Rightarrow> 16 word)) option \<Rightarrow> chan_ptr list \<Rightarrow> chans \<times> PollPoller \<Rightarrow> (chan_ptr list \<times> chans \<times> PollPoller) result" where
  "pp_poll waited active s =
     (case waited of
        None \<Rightarrow> Inr (active, s)
      | Some (numEvents, revs) \<Rightarrow>
          let p1 = (snd s)\<lparr>pollfds := map (\<lambda>pfd. pfd\<lparr>pf_revents := revs pfd\<rparr>) (pollfds (snd s))\<rparr>
          in if 0 < numEvents
             then rbind (pp_fillActiveChannels numEvents active (fst s, p1)) (\<lambda>(active1, st1). Inr (active1, st1, p1))
             else Inr (active, fst s, p1))"

datatype 'k Poller = EPoll "'k EPollPoller" | Poll PollPoller

definition newDefaultPoller :: "bytes option \<Rightarrow> 'k \<Rightarrow> 'k Poller" where
  "newDefaultPoller use_poll k = (if use_poll \<noteq> None then Poll mkPollPoller else EPoll (mkEPollPoller k))"

section \<open>The interface of a poller\<close>

text \<open>The events a channel can be interested in.\<close>

definition masks :: "events set" where
  "masks = {0, kReadEvent, kWriteEvent, kReadEvent OR kWriteEvent}"

text \<open>
  A client sets the events of a channel and calls \<^verbatim>\<open>updateChannel\<close>, or calls \<^verbatim>\<open>removeChannel\<close>.  \<open>registered\<close> are the channels
  that the poller knows by their descriptor; \<open>interest\<close> are the descriptors it makes the kernel watch, with the events.
  Of a channel the pollers only write the index.
\<close>

definition set_events :: "chan_ptr \<Rightarrow> events \<Rightarrow> chans \<Rightarrow> chans" where
  "set_events c ev st = st(c := (st c)\<lparr>ch_events := ev\<rparr>)"

definition index_only :: "chan_ptr set \<Rightarrow> chans \<Rightarrow> chans \<Rightarrow> bool" where
  "index_only C st st' \<longleftrightarrow> (\<forall>c. c \<notin> C \<longrightarrow> st' c = st c) \<and> (\<forall>c. \<exists>i. st' c = (st c)\<lparr>ch_index := i\<rparr>)"

datatype poll_cmd = Set_events chan_ptr events | Remove chan_ptr

text \<open>
  What a poller is for: a registry of the events each descriptor is watched for.  \<open>spec_cmd\<close> says when a call is allowed,
  and what it does: a channel that was never registered comes with some event; a registered one changes its events, other
  than from none to none; one without events is removed.  \<open>fd\<close> gives the descriptor of a channel, \<open>used\<close> are the channels
  that have been registered.
\<close>

type_synonym registry = "(int \<rightharpoonup> chan_ptr \<times> events) \<times> chan_ptr set"

fun spec_cmd :: "(chan_ptr \<Rightarrow> int) \<Rightarrow> poll_cmd \<Rightarrow> registry \<Rightarrow> registry option" where
  "spec_cmd fd (Set_events c ev) (r, used) =
     (if ev \<in> masks \<and>
         (case r (fd c) of None \<Rightarrow> c \<notin> used \<and> ev \<noteq> 0 | Some (c', ev') \<Rightarrow> c' = c \<and> (ev \<noteq> 0 \<or> ev' \<noteq> 0))
      then Some (r(fd c \<mapsto> (c, ev)), insert c used) else None)"
| "spec_cmd fd (Remove c) (r, used) = (if r (fd c) = Some (c, 0) then Some (r(fd c := None), used) else None)"

fun spec_cmds :: "(chan_ptr \<Rightarrow> int) \<Rightarrow> poll_cmd list \<Rightarrow> registry \<Rightarrow> registry option" where
  "spec_cmds fd [] R = Some R"
| "spec_cmds fd (c # cs) R = (case spec_cmd fd c R of None \<Rightarrow> None | Some R' \<Rightarrow> spec_cmds fd cs R')"

definition watched :: "(int \<rightharpoonup> chan_ptr \<times> events) \<Rightarrow> (int \<rightharpoonup> chan_ptr \<times> events)" where
  "watched r fd = (case r fd of Some (c, ev) \<Rightarrow> if ev = 0 then None else Some (c, ev) | None \<Rightarrow> None)"

fun do_cmd ::
  "(chan_ptr \<Rightarrow> chans \<times> 'p \<Rightarrow> (chans \<times> 'p) result) \<Rightarrow> (chan_ptr \<Rightarrow> chans \<times> 'p \<Rightarrow> (chans \<times> 'p) result) \<Rightarrow>
     poll_cmd \<Rightarrow> chans \<times> 'p \<Rightarrow> (chans \<times> 'p) result" where
  "do_cmd update remove (Set_events c ev) s = update c (set_events c ev (fst s), snd s)"
| "do_cmd update remove (Remove c) s = remove c s"

fun do_cmds ::
  "(chan_ptr \<Rightarrow> chans \<times> 'p \<Rightarrow> (chans \<times> 'p) result) \<Rightarrow> (chan_ptr \<Rightarrow> chans \<times> 'p \<Rightarrow> (chans \<times> 'p) result) \<Rightarrow>
     poll_cmd list \<Rightarrow> chans \<times> 'p \<Rightarrow> (chans \<times> 'p) result" where
  "do_cmds update remove [] s = Inr s"
| "do_cmds update remove (c # cs) s = rbind (do_cmd update remove c s) (do_cmds update remove cs)"

locale poller =
  fixes update :: "chan_ptr \<Rightarrow> chans \<times> 'p \<Rightarrow> (chans \<times> 'p) result"
    and remove :: "chan_ptr \<Rightarrow> chans \<times> 'p \<Rightarrow> (chans \<times> 'p) result"
    and registered :: "'p \<Rightarrow> int \<rightharpoonup> chan_ptr"
    and interest :: "'p \<Rightarrow> int \<rightharpoonup> chan_ptr \<times> events"
    and invar :: "chans \<times> 'p \<Rightarrow> bool"
  assumes invar_events: "invar (st, p) \<Longrightarrow> invar (set_events c ev st, p)"
    and registered_fd: "invar (st, p) \<Longrightarrow> registered p fd = Some c \<Longrightarrow> ch_fd (st c) = fd"
    and update_ok: "\<lbrakk>invar (st, p); ch_fd (st c) = fd; 0 \<le> fd; ch_events (st c) = ev; ev \<in> masks;
        registered p fd = Some c \<or> registered p fd = None \<and> ch_index (st c) = -1; ev \<noteq> 0 \<or> interest p fd \<noteq> None\<rbrakk> \<Longrightarrow>
        \<exists>st' p'. update c (st, p) = Inr (st', p') \<and> invar (st', p') \<and> registered p' = (registered p)(fd \<mapsto> c) \<and>
          interest p' = (interest p)(fd := if ev = 0 then None else Some (c, ev)) \<and> index_only {c} st st'"
    and remove_ok: "\<lbrakk>invar (st, p); ch_fd (st c) = fd; ch_events (st c) = 0; registered p fd = Some c; interest p fd = None\<rbrakk> \<Longrightarrow>
        \<exists>st' p'. remove c (st, p) = Inr (st', p') \<and> invar (st', p') \<and> registered p' = (registered p)(fd := None) \<and>
          interest p' = interest p \<and> index_only (insert c (ran (registered p))) st st'"
begin

text \<open>The registry a state stands for.\<close>

definition represents :: "(chan_ptr \<Rightarrow> int) \<Rightarrow> registry \<Rightarrow> chans \<times> 'p \<Rightarrow> bool" where
  "represents fd R s \<longleftrightarrow>
     invar s \<and> (\<forall>c. ch_fd (fst s c) = fd c \<and> 0 \<le> fd c) \<and> (\<forall>c. c \<notin> snd R \<longrightarrow> ch_index (fst s c) = -1) \<and>
     registered (snd s) = (\<lambda>f. map_option fst (fst R f)) \<and> interest (snd s) = watched (fst R) \<and>
     (\<forall>f c ev. fst R f = Some (c, ev) \<longrightarrow> ch_events (fst s c) = ev \<and> c \<in> snd R)"

lemma represents_fd: "represents fd (r, used) s \<Longrightarrow> r f = Some (c, ev) \<Longrightarrow> f = fd c"
  using registered_fd [of "fst s" "snd s" f c] by (auto simp: represents_def)

lemma watched_upd: "watched (r(f \<mapsto> (c, ev))) = (watched r)(f := if ev = 0 then None else Some (c, ev))"
  by (auto simp: watched_def fun_eq_iff)

lemma do_cmd_refines:
  assumes rep: "represents fd R s" and spec: "spec_cmd fd cmd R = Some R'"
  shows "\<exists>s'. do_cmd update remove cmd s = Inr s' \<and> represents fd R' s'"
proof (cases cmd)
  case (Set_events c ev)
  obtain r used st p where R: "R = (r, used)" and s: "s = (st, p)" by fastforce
  define st1 where "st1 = set_events c ev st"
  have ok: "ev \<in> masks" "r (fd c) = None \<and> c \<notin> used \<and> ev \<noteq> 0 \<or> (\<exists>ev'. r (fd c) = Some (c, ev') \<and> (ev \<noteq> 0 \<or> ev' \<noteq> 0))"
    and R': "R' = (r(fd c \<mapsto> (c, ev)), insert c used)"
    using spec by (auto simp: Set_events R split: if_splits option.splits)
  have "\<exists>st' p'. update c (st1, p) = Inr (st', p') \<and> invar (st', p') \<and> registered p' = (registered p)(fd c \<mapsto> c) \<and>
          interest p' = (interest p)(fd c := if ev = 0 then None else Some (c, ev)) \<and> index_only {c} st1 st'"
    using ok rep
    by (intro update_ok) (auto simp: st1_def set_events_def represents_def R s invar_events [unfolded set_events_def] watched_def)
  then obtain st' p' where u: "update c (st1, p) = Inr (st', p')" "invar (st', p')" "registered p' = (registered p)(fd c \<mapsto> c)"
    "interest p' = (interest p)(fd c := if ev = 0 then None else Some (c, ev))" "index_only {c} st1 st'" by blast
  have "represents fd R' (st', p')"
    unfolding represents_def
  proof (intro conjI allI impI)
    show "invar (st', p')" by (rule u(2))
    fix c'
    obtain i where i: "st' c' = (st1 c')\<lparr>ch_index := i\<rparr>" using u(5) by (auto simp: index_only_def)
    show "ch_fd (fst (st', p') c') = fd c'" "0 \<le> fd c'"
      using rep by (auto simp: i represents_def s st1_def set_events_def)
    show "ch_index (fst (st', p') c') = -1" if "c' \<notin> snd R'"
      using that u(5) rep by (auto simp: index_only_def R' represents_def s R st1_def set_events_def)
    fix f ev' assume f: "fst R' f = Some (c', ev')"
    show "c' \<in> snd R'" using f rep by (auto simp: R' represents_def R split: if_splits)
    have "c' \<noteq> c" if "f \<noteq> fd c" using represents_fd [OF rep [unfolded R]] f that by (auto simp: R')
    then show "ch_events (fst (st', p') c') = ev'"
      using f rep by (auto simp: R' i st1_def set_events_def represents_def R s split: if_splits)
  qed (use u rep in \<open>auto simp: R' represents_def R s watched_upd fun_eq_iff\<close>)
  then show ?thesis using u(1) by (simp add: Set_events s st1_def)
next
  case (Remove c)
  obtain r used st p where R: "R = (r, used)" and s: "s = (st, p)" by fastforce
  have r: "r (fd c) = Some (c, 0)" and R': "R' = (r(fd c := None), used)"
    using spec by (auto simp: Remove R split: if_splits)
  have "\<exists>st' p'. remove c (st, p) = Inr (st', p') \<and> invar (st', p') \<and> registered p' = (registered p)(fd c := None) \<and>
          interest p' = interest p \<and> index_only (insert c (ran (registered p))) st st'"
    using rep r by (intro remove_ok) (auto simp: represents_def R s watched_def)
  then obtain st' p' where u: "remove c (st, p) = Inr (st', p')" "invar (st', p')" "registered p' = (registered p)(fd c := None)"
    "interest p' = interest p" "index_only (insert c (ran (registered p))) st st'" by blast
  have kn: "ran (registered p) \<subseteq> used" "c \<in> used" using rep r by (auto simp: represents_def R s ran_def)
  have "represents fd R' (st', p')"
    unfolding represents_def
  proof (intro conjI allI impI)
    show "invar (st', p')" by (rule u(2))
    fix c'
    obtain i where i: "st' c' = (st c')\<lparr>ch_index := i\<rparr>" using u(5) by (auto simp: index_only_def)
    show "ch_fd (fst (st', p') c') = fd c'" "0 \<le> fd c'" using rep by (auto simp: i represents_def s)
    show "ch_index (fst (st', p') c') = -1" if "c' \<notin> snd R'"
      using that u(5) kn rep by (auto simp: index_only_def R' represents_def s R)
    show "ch_events (fst (st', p') c') = ev'" "c' \<in> snd R'" if "fst R' f = Some (c', ev')" for f ev'
      using that rep by (auto simp: i R' represents_def R s split: if_splits)
  qed (use u rep r in \<open>auto simp: R' represents_def R s watched_def fun_eq_iff\<close>)
  then show ?thesis using u(1) by (simp add: Remove s)
qed

lemma do_cmds_refines:
  "represents fd R s \<Longrightarrow> spec_cmds fd cmds R = Some R' \<Longrightarrow>
     \<exists>s'. do_cmds update remove cmds s = Inr s' \<and> represents fd R' s'"
proof (induction cmds arbitrary: R s)
  case (Cons c cs)
  then obtain R1 where R1: "spec_cmd fd c R = Some R1" "spec_cmds fd cs R1 = Some R'" by (auto split: option.splits)
  from do_cmd_refines [OF Cons.prems(1) R1(1)] show ?case using Cons.IH [OF _ R1(2)] by fastforce
qed simp

text \<open>From fresh channels and an empty poller.\<close>

lemma do_cmds_watches:
  assumes "invar (st, p)" "registered p = Map.empty" "interest p = Map.empty" "\<forall>c. st c = mkChannel (fd c) \<and> 0 \<le> fd c"
    and "spec_cmds fd cmds (Map.empty, {}) = Some (r, used)"
  shows "\<exists>s'. do_cmds update remove cmds (st, p) = Inr s' \<and> interest (snd s') = watched r \<and>
           registered (snd s') = (\<lambda>f. map_option fst (r f))"
proof -
  have "represents fd (Map.empty, {}) (st, p)"
    using assms(1-4) by (auto simp: represents_def mkChannel_def watched_def fun_eq_iff)
  from do_cmds_refines [OF this assms(5)] show ?thesis by (auto simp: represents_def)
qed

end

section \<open>The epoll poller implements it\<close>

text \<open>
  What the poller relies on of \<^verbatim>\<open>epoll_ctl\<close>, for descriptors that are open and as long as the kernel has memory: it adds a
  descriptor that is not watched, and changes or deletes one that is.  \<open>watches\<close> is the interest list.
\<close>

locale epoll_kernel =
  fixes kctl :: "'k epoll_ctl"
    and watches :: "'k \<Rightarrow> int \<rightharpoonup> chan_ptr \<times> events"
  assumes ctl_add: "watches k fd = None \<Longrightarrow> \<exists>k'. kctl EPOLL_CTL_ADD fd x k = Some k' \<and> watches k' = (watches k)(fd \<mapsto> x)"
    and ctl_mod: "watches k fd \<noteq> None \<Longrightarrow> \<exists>k'. kctl EPOLL_CTL_MOD fd x k = Some k' \<and> watches k' = (watches k)(fd \<mapsto> x)"
    and ctl_del: "watches k fd \<noteq> None \<Longrightarrow> \<exists>k'. kctl EPOLL_CTL_DEL fd x k = Some k' \<and> watches k' = (watches k)(fd := None)"

definition ep_invar :: "('k \<Rightarrow> int \<rightharpoonup> chan_ptr \<times> events) \<Rightarrow> chans \<times> 'k EPollPoller \<Rightarrow> bool" where
  "ep_invar watches s \<longleftrightarrow>
     (\<forall>fd c. ep_channels (snd s) fd = Some c \<longrightarrow>
        ch_fd (fst s c) = fd \<and>
        (ch_index (fst s c) = kAdded \<and> (\<exists>ev. watches (ep_kernel (snd s)) fd = Some (c, ev)) \<or>
         ch_index (fst s c) = kDeleted \<and> watches (ep_kernel (snd s)) fd = None)) \<and>
     (\<forall>fd. watches (ep_kernel (snd s)) fd \<noteq> None \<longrightarrow> ep_channels (snd s) fd \<noteq> None)"

lemma index_only_set_index [simp]: "c \<in> C \<Longrightarrow> index_only C st (set_index c i st)" "index_only C st st"
proof -
  have "\<exists>i. ch = ch\<lparr>ch_index := i\<rparr>" for ch :: Channel by (rule exI [of _ "ch_index ch"]) simp
  then show "c \<in> C \<Longrightarrow> index_only C st (set_index c i st)" "index_only C st st"
    by (auto simp: index_only_def set_index_def)
qed

context epoll_kernel
begin

lemma ep_update_ok:
  assumes inv: "ep_invar watches (st, p)" and c: "ch_fd (st c) = fd" "ch_events (st c) = ev"
    and known: "ep_channels p fd = Some c \<or> ep_channels p fd = None \<and> ch_index (st c) = -1"
    and ev: "ev \<noteq> 0 \<or> watches (ep_kernel p) fd \<noteq> None"
  shows "\<exists>st' p'. ep_updateChannel kctl c (st, p) = Inr (st', p') \<and> ep_invar watches (st', p') \<and>
           ep_channels p' = (ep_channels p)(fd \<mapsto> c) \<and>
           watches (ep_kernel p') = (watches (ep_kernel p))(fd := if ev = 0 then None else Some (c, ev)) \<and> index_only {c} st st'"
proof -
  have u: "fd' = fd" if "ep_channels p fd' = Some c" for fd' using inv c(1) that by (auto simp: ep_invar_def)
  consider (new) "ep_channels p fd = None" "ch_index (st c) = kNew"
    | (deleted) "ep_channels p fd = Some c" "ch_index (st c) = kDeleted" "watches (ep_kernel p) fd = None"
    | (added) "ep_channels p fd = Some c" "ch_index (st c) = kAdded" "watches (ep_kernel p) fd \<noteq> None"
    using known inv by (fastforce simp: ep_invar_def kNew_def)
  then show ?thesis
  proof cases
    case new
    then have w: "watches (ep_kernel p) fd = None" using inv unfolding ep_invar_def by (metis snd_conv)
    then have "ev \<noteq> 0" using ev by simp
    obtain k' where "kctl EPOLL_CTL_ADD fd (c, ev) (ep_kernel p) = Some k'" "watches k' = (watches (ep_kernel p))(fd \<mapsto> (c, ev))"
      using ctl_add [OF w] by blast
    then show ?thesis
      using new c inv \<open>ev \<noteq> 0\<close> w
      by (intro exI [of _ "set_index c kAdded st"] exI [of _ "p\<lparr>ep_channels := (ep_channels p)(fd \<mapsto> c), ep_kernel := k'\<rparr>"])
        (auto simp: ep_updateChannel_def ep_update_def set_index_def ep_invar_def Let_def index_only_set_index [unfolded set_index_def])
  next
    case deleted
    then have "ev \<noteq> 0" using ev by simp
    obtain k' where "kctl EPOLL_CTL_ADD fd (c, ev) (ep_kernel p) = Some k'" "watches k' = (watches (ep_kernel p))(fd \<mapsto> (c, ev))"
      using ctl_add [OF deleted(3)] by blast
    then show ?thesis
      using deleted c inv \<open>ev \<noteq> 0\<close>
      by (intro exI [of _ "set_index c kAdded st"] exI [of _ "p\<lparr>ep_kernel := k'\<rparr>"])
        (auto simp: ep_updateChannel_def ep_update_def set_index_def ep_invar_def Let_def index_only_set_index [unfolded set_index_def]
          ep_index_defs dest: u)
  next
    case added
    show ?thesis
    proof (cases "ev = 0")
      case True
      obtain k' where "kctl EPOLL_CTL_DEL fd (c, ev) (ep_kernel p) = Some k'" "watches k' = (watches (ep_kernel p))(fd := None)"
        using ctl_del [OF added(3)] by blast
      then show ?thesis
        using added c inv True
        by (intro exI [of _ "set_index c kDeleted st"] exI [of _ "p\<lparr>ep_kernel := k'\<rparr>"])
          (auto simp: ep_updateChannel_def ep_update_def set_index_def ep_invar_def Let_def isNoneEvent_def kNoneEvent_def
            index_only_set_index [unfolded set_index_def] ep_index_defs dest: u)
    next
      case False
      obtain k' where "kctl EPOLL_CTL_MOD fd (c, ev) (ep_kernel p) = Some k'" "watches k' = (watches (ep_kernel p))(fd \<mapsto> (c, ev))"
        using ctl_mod [OF added(3)] by blast
      then show ?thesis
        using added c inv False
        by (intro exI [of _ st] exI [of _ "p\<lparr>ep_kernel := k'\<rparr>"])
          (auto simp: ep_updateChannel_def ep_update_def ep_invar_def Let_def isNoneEvent_def kNoneEvent_def ep_index_defs)
    qed
  qed
qed

lemma ep_remove_ok:
  assumes inv: "ep_invar watches (st, p)" and c: "ch_fd (st c) = fd" "ch_events (st c) = 0"
    and known: "ep_channels p fd = Some c" and w: "watches (ep_kernel p) fd = None"
  shows "\<exists>st' p'. ep_removeChannel kctl c (st, p) = Inr (st', p') \<and> ep_invar watches (st', p') \<and>
           ep_channels p' = (ep_channels p)(fd := None) \<and> watches (ep_kernel p') = watches (ep_kernel p) \<and>
           index_only (insert c (ran (ep_channels p))) st st'"
proof -
  have u: "fd' = fd" if "ep_channels p fd' = Some c" for fd' using inv c(1) that by (auto simp: ep_invar_def)
  have "ch_index (st c) = kDeleted" using inv known w by (fastforce simp: ep_invar_def)
  then show ?thesis
    using inv c known w
    by (intro exI [of _ "set_index c kNew st"] exI [of _ "p\<lparr>ep_channels := (ep_channels p)(fd := None)\<rparr>"])
      (auto simp: ep_removeChannel_def Let_def isNoneEvent_def kNoneEvent_def set_index_def ep_invar_def ep_index_defs
        index_only_set_index [unfolded set_index_def] dest: u)
qed

end

sublocale epoll_kernel \<subseteq> ep: poller "ep_updateChannel kctl" "ep_removeChannel kctl" ep_channels "\<lambda>p. watches (ep_kernel p)" "ep_invar watches"
proof unfold_locales
  show "ep_invar watches (st, p) \<Longrightarrow> ep_invar watches (set_events c ev st, p)" for st p c ev
    by (auto simp: ep_invar_def set_events_def)
  show "ep_invar watches (st, p) \<Longrightarrow> ep_channels p fd = Some c \<Longrightarrow> ch_fd (st c) = fd" for st p fd c
    by (auto simp: ep_invar_def)
qed (rule ep_update_ok ep_remove_ok, assumption+)+

context epoll_kernel
begin

lemma epoll_watches:
  assumes "watches k = Map.empty" and "\<forall>c. st c = mkChannel (fd c) \<and> 0 \<le> fd c"
    and "spec_cmds fd cmds (Map.empty, {}) = Some (r, used)"
  shows "\<exists>st' p. do_cmds (ep_updateChannel kctl) (ep_removeChannel kctl) cmds (st, mkEPollPoller k) = Inr (st', p) \<and>
           watches (ep_kernel p) = watched r \<and> ep_channels p = (\<lambda>f. map_option fst (r f))"
proof -
  have "ep_invar watches (st, mkEPollPoller k)" using assms(1) by (simp add: ep_invar_def mkEPollPoller_def)
  then show ?thesis
    using ep.do_cmds_watches [of st "mkEPollPoller k" fd cmds r used] assms by (auto simp: mkEPollPoller_def)
qed

end

text \<open>The interest list of the kernel as a map, which is how its manual describes it.\<close>

definition map_ctl :: "(int \<rightharpoonup> chan_ptr \<times> events) epoll_ctl" where
  "map_ctl op fd x k =
     (case op of
        EPOLL_CTL_ADD \<Rightarrow> if k fd = None then Some (k(fd \<mapsto> x)) else None
      | EPOLL_CTL_MOD \<Rightarrow> if k fd = None then None else Some (k(fd \<mapsto> x))
      | EPOLL_CTL_DEL \<Rightarrow> if k fd = None then None else Some (k(fd := None)))"

interpretation map_kernel: epoll_kernel map_ctl "\<lambda>k. k"
  by unfold_locales (auto simp: map_ctl_def)

section \<open>The poll poller implements it\<close>

text \<open>The channel's index is the place of its entry, which carries its descriptor or, while it has no events, its complement.\<close>

definition real_fd :: "pollfd \<Rightarrow> int" where
  "real_fd e = (if pf_fd e < 0 then - pf_fd e - 1 else pf_fd e)"

definition pp_invar :: "chans \<times> PollPoller \<Rightarrow> bool" where
  "pp_invar s \<longleftrightarrow>
     (\<forall>fd c. pp_channels (snd s) fd = Some c \<longrightarrow> ch_fd (fst s c) = fd \<and> 0 \<le> fd \<and>
        (\<exists>i < length (pollfds (snd s)). ch_index (fst s c) = int i \<and> real_fd (pollfds (snd s) ! i) = fd)) \<and>
     (\<forall>i < length (pollfds (snd s)).
        (\<exists>c. pp_channels (snd s) (real_fd (pollfds (snd s) ! i)) = Some c \<and> ch_index (fst s c) = int i) \<and>
        (pf_fd (pollfds (snd s) ! i) < 0 \<longrightarrow> pf_events (pollfds (snd s) ! i) = 0))"

definition pp_interest :: "PollPoller \<Rightarrow> int \<rightharpoonup> chan_ptr \<times> events" where
  "pp_interest p fd =
     (case pp_channels p fd of
        None \<Rightarrow> None
      | Some c \<Rightarrow> (case List.find (\<lambda>x. pf_fd x = fd) (pollfds p) of None \<Rightarrow> None | Some x \<Rightarrow> Some (c, scast (pf_events x))))"

lemma masks_short: "ev \<in> masks \<Longrightarrow> scast (ucast ev :: 16 word) = ev"
  by (auto simp: masks_def kReadEvent_def kWriteEvent_def poll_bits)

lemma pp_entry:
  assumes "pp_invar (st, p)" "pp_channels p fd = Some c"
  obtains i where "i < length (pollfds p)" "ch_index (st c) = int i" "ch_fd (st c) = fd" "0 \<le> fd" "real_fd (pollfds p ! i) = fd"
  using assms by (auto simp: pp_invar_def)

lemma pp_slot:
  assumes "pp_invar (st, p)" "i < length (pollfds p)"
  obtains c where "pp_channels p (real_fd (pollfds p ! i)) = Some c" "ch_index (st c) = int i"
    "pf_fd (pollfds p ! i) < 0 \<longrightarrow> pf_events (pollfds p ! i) = 0"
  using assms by (auto simp: pp_invar_def)

lemma pp_place:
  assumes "pp_invar (st, p)" "pp_channels p fd = Some c" "ch_index (st c) = int i"
  shows "i < length (pollfds p)" "real_fd (pollfds p ! i) = fd" "ch_fd (st c) = fd" "0 \<le> fd"
  using pp_entry [OF assms(1,2)] assms(3) by (metis of_nat_eq_iff)+

text \<open>A channel is watched when its entry carries its descriptor.\<close>

lemma pp_interest_entry:
  assumes inv: "pp_invar (st, p)" and c: "pp_channels p fd = Some c" and i: "ch_index (st c) = int i"
  shows "pp_interest p fd = (if 0 \<le> pf_fd (pollfds p ! i) then Some (c, scast (pf_events (pollfds p ! i))) else None)"
proof -
  note pl = pp_place [OF inv c i]
  have only: "j = i" if j: "j < length (pollfds p)" "pf_fd (pollfds p ! j) = fd" for j
  proof -
    obtain c' where "pp_channels p (real_fd (pollfds p ! j)) = Some c'" "ch_index (st c') = int j" by (rule pp_slot [OF inv j(1)])
    then show ?thesis using j(2) c i pl(4) by (simp add: real_fd_def)
  qed
  show ?thesis
  proof (cases "0 \<le> pf_fd (pollfds p ! i)")
    case True
    then have "pf_fd (pollfds p ! i) = fd" using pl(2) by (simp add: real_fd_def)
    then have "List.find (\<lambda>x. pf_fd x = fd) (pollfds p) = Some (pollfds p ! i)"
      unfolding find_Some_iff using pl(1) only by (metis less_irrefl less_trans)
    then show ?thesis using True c by (simp add: pp_interest_def)
  next
    case False
    then have "List.find (\<lambda>x. pf_fd x = fd) (pollfds p) = None"
      unfolding find_None_iff using pl(4) only by (metis in_set_conv_nth)
    then show ?thesis using False c by (simp add: pp_interest_def)
  qed
qed

lemma pp_interest_None: "pp_channels p fd = None \<Longrightarrow> pp_interest p fd = None"
  by (simp add: pp_interest_def)

text \<open>Two states agree on a descriptor when its channel has the same entry in both, wherever it is.\<close>

lemma pp_interest_same:
  assumes "pp_invar (st, p)" "pp_invar (st', p')" "pp_channels p' fd = pp_channels p fd"
    and "\<And>c i. pp_channels p fd = Some c \<Longrightarrow> ch_index (st c) = int i \<Longrightarrow>
           \<exists>j. ch_index (st' c) = int j \<and> pollfds p' ! j = pollfds p ! i"
  shows "pp_interest p' fd = pp_interest p fd"
proof (cases "pp_channels p fd")
  case (Some c)
  obtain i where i: "ch_index (st c) = int i" by (rule pp_entry [OF assms(1) Some])
  then obtain j where "ch_index (st' c) = int j" "pollfds p' ! j = pollfds p ! i" using assms(4) Some by blast
  then show ?thesis
    using pp_interest_entry [OF assms(1) Some i] pp_interest_entry [OF assms(2)] Some assms(3) by simp
qed (use assms(3) in \<open>simp add: pp_interest_None\<close>)

lemma pp_update_known:
  assumes inv: "pp_invar (st, p)" and c: "ch_events (st c) = ev" "ev \<in> masks" and reg: "pp_channels p fd = Some c"
    and fd: "ch_fd (st c) = fd"
  shows "\<exists>p'. pp_updateChannel c (st, p) = Inr (st, p') \<and> pp_invar (st, p') \<and> pp_channels p' = pp_channels p \<and>
           pp_interest p' = (pp_interest p)(fd := if ev = 0 then None else Some (c, ev))"
proof -
  obtain i where i: "ch_index (st c) = int i" by (rule pp_entry [OF inv reg])
  note pl = pp_place [OF inv reg i]
  define e where "e = \<lparr>pf_fd = (if ev = 0 then - fd - 1 else fd), pf_events = ucast ev, pf_revents = 0\<rparr>"
  define p' where "p' = p\<lparr>pollfds := (pollfds p)[i := e]\<rparr>"
  have e: "real_fd e = fd" "pf_fd e < 0 \<longleftrightarrow> ev = 0" "scast (pf_events e) = ev" "ev = 0 \<Longrightarrow> pf_events e = 0"
    using pl(4) masks_short [OF c(2)] by (auto simp: e_def real_fd_def)
  have run: "pp_updateChannel c (st, p) = Inr (st, p')"
    using reg i c(1) pl by (auto simp: pp_updateChannel_def Let_def p'_def e_def isNoneEvent_def kNoneEvent_def real_fd_def split: if_splits)
  have inv': "pp_invar (st, p')"
    unfolding pp_invar_def fst_conv snd_conv
  proof (intro conjI allI impI)
    fix fd' c' assume "pp_channels p' fd' = Some c'"
    then have a: "pp_channels p fd' = Some c'" by (simp add: p'_def)
    obtain j where j: "ch_index (st c') = int j" by (rule pp_entry [OF inv a])
    note pl' = pp_place [OF inv a j]
    show "ch_fd (st c') = fd'" "0 \<le> fd'" by (rule pl')+
    show "\<exists>i<length (pollfds p'). ch_index (st c') = int i \<and> real_fd (pollfds p' ! i) = fd'"
      using j pl' pl e(1) by (intro exI [of _ j]) (auto simp: p'_def nth_list_update)
  next
    fix j assume "j < length (pollfds p')"
    then have j: "j < length (pollfds p)" by (simp add: p'_def)
    obtain c' where "pp_channels p (real_fd (pollfds p ! j)) = Some c'" "ch_index (st c') = int j"
      "pf_fd (pollfds p ! j) < 0 \<longrightarrow> pf_events (pollfds p ! j) = 0" by (rule pp_slot [OF inv j])
    then show "\<exists>c. pp_channels p' (real_fd (pollfds p' ! j)) = Some c \<and> ch_index (st c) = int j"
      "pf_fd (pollfds p' ! j) < 0 \<Longrightarrow> pf_events (pollfds p' ! j) = 0"
      using e reg i j pl(1) by (cases "j = i"; auto simp: p'_def)+
  qed
  have at: "pp_interest p' fd = (if ev = 0 then None else Some (c, ev))"
    using pp_interest_entry [OF inv', of fd c i] reg i pl(1) e by (auto simp: p'_def)
  have "pp_interest p' fd' = pp_interest p fd'" if "fd' \<noteq> fd" for fd'
  proof (rule pp_interest_same [OF inv inv'])
    fix c' j assume "pp_channels p fd' = Some c'" "ch_index (st c') = int j"
    then have "j \<noteq> i" using pp_place(2) [OF inv] pl(2) that by metis
    then show "\<exists>k. ch_index (st c') = int k \<and> pollfds p' ! k = pollfds p ! j"
      using \<open>ch_index (st c') = int j\<close> by (simp add: p'_def)
  qed (simp add: p'_def)
  then have "pp_interest p' = (pp_interest p)(fd := if ev = 0 then None else Some (c, ev))" using at by auto
  then show ?thesis using run inv' by (auto simp: p'_def)
qed

lemma pp_update_new:
  assumes inv: "pp_invar (st, p)" and c: "ch_events (st c) = ev" "ev \<in> masks" "ev \<noteq> 0" "ch_fd (st c) = fd" "0 \<le> fd"
    and new: "pp_channels p fd = None" "ch_index (st c) = -1"
  shows "\<exists>st' p'. pp_updateChannel c (st, p) = Inr (st', p') \<and> pp_invar (st', p') \<and> pp_channels p' = (pp_channels p)(fd \<mapsto> c) \<and>
           pp_interest p' = (pp_interest p)(fd \<mapsto> (c, ev)) \<and> index_only {c} st st'"
proof -
  define n where "n = length (pollfds p)"
  define e where "e = \<lparr>pf_fd = fd, pf_events = ucast ev, pf_revents = 0\<rparr>"
  define p' where "p' = p\<lparr>pollfds := pollfds p @ [e], pp_channels := (pp_channels p)(fd \<mapsto> c)\<rparr>"
  define st' where "st' = set_index c (int n) st"
  have run: "pp_updateChannel c (st, p) = Inr (st', p')"
    using new c by (simp add: pp_updateChannel_def Let_def p'_def e_def st'_def n_def)
  have other: "st' c' = st c'" if a: "pp_channels p fd' = Some c'" for fd' c'
  proof -
    have "ch_fd (st c') = fd'" by (rule pp_entry [OF inv a])
    then have "c' \<noteq> c" using new(1) c(4) a by auto
    then show ?thesis by (simp add: st'_def set_index_def)
  qed
  have self: "ch_index (st' c) = int n" "ch_fd (st' c) = fd" "real_fd e = fd" "pf_fd e = fd"
    using c(4,5) by (auto simp: st'_def set_index_def e_def real_fd_def)
  have inv': "pp_invar (st', p')"
    unfolding pp_invar_def fst_conv snd_conv
  proof (intro conjI allI impI)
    fix fd' c' assume a: "pp_channels p' fd' = Some c'"
    have "\<exists>i<length (pollfds p'). ch_index (st' c') = int i \<and> real_fd (pollfds p' ! i) = fd' \<and> ch_fd (st' c') = fd' \<and> 0 \<le> fd'"
    proof (cases "fd' = fd")
      case True
      then show ?thesis using a self c(5) by (intro exI [of _ n]) (auto simp: p'_def n_def)
    next
      case False
      then have a': "pp_channels p fd' = Some c'" using a by (simp add: p'_def)
      obtain j where j: "ch_index (st c') = int j" by (rule pp_entry [OF inv a'])
      show ?thesis
        using pp_place [OF inv a' j] j other [OF a'] by (intro exI [of _ j]) (simp add: p'_def nth_append)
    qed
    then show "ch_fd (st' c') = fd'" "0 \<le> fd'" "\<exists>i<length (pollfds p'). ch_index (st' c') = int i \<and> real_fd (pollfds p' ! i) = fd'"
      by blast+
  next
    fix i assume a: "i < length (pollfds p')"
    have "(\<exists>c. pp_channels p' (real_fd (pollfds p' ! i)) = Some c \<and> ch_index (st' c) = int i) \<and>
      (pf_fd (pollfds p' ! i) < 0 \<longrightarrow> pf_events (pollfds p' ! i) = 0)"
    proof (cases "i = n")
      case True
      then show ?thesis using self c(5) by (simp add: p'_def n_def)
    next
      case False
      then have i: "i < length (pollfds p)" using a by (simp add: p'_def n_def)
      obtain c' where c': "pp_channels p (real_fd (pollfds p ! i)) = Some c'" "ch_index (st c') = int i"
        "pf_fd (pollfds p ! i) < 0 \<longrightarrow> pf_events (pollfds p ! i) = 0" by (rule pp_slot [OF inv i])
      then have "real_fd (pollfds p ! i) \<noteq> fd" using new(1) by auto
      then show ?thesis using c' i other [OF c'(1)] by (simp add: p'_def nth_append)
    qed
    then show "\<exists>c. pp_channels p' (real_fd (pollfds p' ! i)) = Some c \<and> ch_index (st' c) = int i"
      "pf_fd (pollfds p' ! i) < 0 \<Longrightarrow> pf_events (pollfds p' ! i) = 0" by blast+
  qed
  have at: "pp_interest p' fd = Some (c, ev)"
    using pp_interest_entry [OF inv', of fd c n] self c(5) masks_short [OF c(2)] by (simp add: p'_def n_def) (simp add: e_def)
  have "pp_interest p' fd' = pp_interest p fd'" if "fd' \<noteq> fd" for fd'
  proof (rule pp_interest_same [OF inv inv'])
    fix c' j assume j: "pp_channels p fd' = Some c'" "ch_index (st c') = int j"
    show "\<exists>k. ch_index (st' c') = int k \<and> pollfds p' ! k = pollfds p ! j"
      using j other pp_place(1) [OF inv j] by (auto simp: p'_def nth_append)
  qed (use that in \<open>simp add: p'_def\<close>)
  then have "pp_interest p' = (pp_interest p)(fd \<mapsto> (c, ev))" using at by auto
  then show ?thesis using run inv' by (auto simp: p'_def st'_def)
qed

text \<open>The last entry takes the place of the one that is removed.\<close>

lemma pp_remove_ok:
  assumes inv: "pp_invar (st, p)" and c: "ch_fd (st c) = fd" "ch_events (st c) = 0"
    and reg: "pp_channels p fd = Some c" and unw: "pp_interest p fd = None"
  shows "\<exists>st' p'. pp_removeChannel c (st, p) = Inr (st', p') \<and> pp_invar (st', p') \<and>
           pp_channels p' = (pp_channels p)(fd := None) \<and> pp_interest p' = pp_interest p \<and>
           index_only (insert c (ran (pp_channels p))) st st'"
proof -
  obtain i where i: "ch_index (st c) = int i" by (rule pp_entry [OF inv reg])
  note pl = pp_place [OF inv reg i]
  define n where "n = length (pollfds p) - 1"
  have n: "length (pollfds p) = Suc n" "i \<le> n" using pl(1) by (auto simp: n_def)
  have neg: "pf_fd (pollfds p ! i) < 0" using pp_interest_entry [OF inv reg i] unw by (auto split: if_splits)
  then have ok: "pf_fd (pollfds p ! i) = - fd - 1" "pf_events (pollfds p ! i) = 0"
    using pl(2) inv pl(1) by (auto simp: real_fd_def pp_invar_def)
  obtain cl where cl: "pp_channels p (real_fd (pollfds p ! n)) = Some cl" "ch_index (st cl) = int n"
    by (rule pp_slot [OF inv, of n]) (simp_all add: n)
  define p' where "p' = p\<lparr>pp_channels := (pp_channels p)(fd := None), pollfds := butlast ((pollfds p)[i := pollfds p ! n])\<rparr>"
  define st' where "st' = (if i = n then st else set_index cl (int i) st)"
  have last: "last (pollfds p) = pollfds p ! n" using n by (cases "pollfds p" rule: rev_cases) auto
  have lfd: "real_fd (pollfds p ! n) \<noteq> fd" if "i \<noteq> n" using cl reg i that by auto
  have run: "pp_removeChannel c (st, p) = Inr (st', p')"
  proof (cases "i = n")
    case True
    then have "(pollfds p)[i := pollfds p ! n] = pollfds p" by simp
    then show ?thesis
      using reg c i pl ok n True by (simp add: pp_removeChannel_def Let_def isNoneEvent_def kNoneEvent_def p'_def st'_def)
  next
    case False
    have "((pp_channels p)(fd := None)) (if pf_fd (pollfds p ! n) < 0 then - pf_fd (pollfds p ! n) - 1 else pf_fd (pollfds p ! n)) = Some cl"
      using cl(1) lfd [OF False] by (simp add: real_fd_def)
    then show ?thesis
      using reg c i pl ok n False
      by (simp add: pp_removeChannel_def Let_def isNoneEvent_def kNoneEvent_def p'_def st'_def last)
  qed
  have nth': "pollfds p' ! j = (if j = i then pollfds p ! n else pollfds p ! j)" if "j < n" for j
    using that n by (simp add: p'_def nth_butlast nth_list_update)
  have len': "length (pollfds p') = n" using n by (simp add: p'_def)
  text \<open>Where the entry of another channel is afterwards.\<close>
  have moved: "\<exists>k<n. ch_index (st' c') = int k \<and> pollfds p' ! k = pollfds p ! j"
    if j: "pp_channels p fd' = Some c'" "ch_index (st c') = int j" "fd' \<noteq> fd" for fd' c' j
  proof -
    note pl' = pp_place [OF inv j(1,2)]
    have "j \<noteq> i" using pl'(2) pl(2) j(3) by auto
    show ?thesis
    proof (cases "j = n")
      case True
      then have "c' = cl" using cl(1) pl'(2) j(1) by simp
      then show ?thesis using True \<open>j \<noteq> i\<close> n nth' [of i] by (intro exI [of _ i]) (auto simp: st'_def set_index_def)
    next
      case False
      then have "j < n" using pl'(1) n by simp
      moreover have "c' \<noteq> cl" using cl(2) j(2) False by auto
      ultimately show ?thesis using j(2) \<open>j \<noteq> i\<close> nth' [of j] by (intro exI [of _ j]) (auto simp: st'_def set_index_def)
    qed
  qed
  have fds: "ch_fd (st' c') = ch_fd (st c')" for c' by (simp add: st'_def set_index_def)
  have inv': "pp_invar (st', p')"
    unfolding pp_invar_def fst_conv snd_conv
  proof (intro conjI allI impI)
    fix fd' c' assume "pp_channels p' fd' = Some c'"
    then have a: "pp_channels p fd' = Some c'" "fd' \<noteq> fd" by (auto simp: p'_def split: if_splits)
    obtain j where j: "ch_index (st c') = int j" by (rule pp_entry [OF inv a(1)])
    show "ch_fd (st' c') = fd'" "0 \<le> fd'" using pp_place [OF inv a(1) j] by (simp_all add: fds)
    show "\<exists>k<length (pollfds p'). ch_index (st' c') = int k \<and> real_fd (pollfds p' ! k) = fd'"
      using moved [OF a(1) j a(2)] pp_place(2) [OF inv a(1) j] by (auto simp: len')
  next
    fix k assume "k < length (pollfds p')"
    then have k: "k < n" by (simp add: len')
    define j where "j = (if k = i then n else k)"
    have j: "j < length (pollfds p)" "pollfds p' ! k = pollfds p ! j" using k n nth' by (auto simp: j_def)
    obtain c' where c': "pp_channels p (real_fd (pollfds p ! j)) = Some c'" "ch_index (st c') = int j"
      "pf_fd (pollfds p ! j) < 0 \<longrightarrow> pf_events (pollfds p ! j) = 0" by (rule pp_slot [OF inv j(1)])
    show "pf_fd (pollfds p' ! k) < 0 \<Longrightarrow> pf_events (pollfds p' ! k) = 0" using c'(3) j(2) by simp
    have "j \<noteq> i" using k n by (auto simp: j_def)
    then have ne: "real_fd (pollfds p ! j) \<noteq> fd" using c' reg i by auto
    have "c' = cl" if "k = i" using that c'(1) cl(1) by (simp add: j_def)
    moreover have "c' \<noteq> cl" if "k \<noteq> i" using that c'(2) cl(2) k by (auto simp: j_def)
    ultimately have "ch_index (st' c') = int k" using c'(2) k by (auto simp: st'_def set_index_def j_def)
    then show "\<exists>c. pp_channels p' (real_fd (pollfds p' ! k)) = Some c \<and> ch_index (st' c) = int k"
      using c'(1) ne j(2) by (auto simp: p'_def)
  qed
  have "pp_interest p' fd' = pp_interest p fd'" for fd'
  proof (cases "fd' = fd")
    case True
    then show ?thesis using unw by (simp add: pp_interest_None p'_def)
  next
    case False
    then show ?thesis
      using moved by (intro pp_interest_same [OF inv inv']) (simp add: p'_def, blast)
  qed
  moreover have "index_only (insert c (ran (pp_channels p))) st st'" using ranI [of "pp_channels p", OF cl(1)] by (simp add: st'_def)
  ultimately show ?thesis using run inv' by (auto simp: p'_def)
qed

interpretation pp: poller pp_updateChannel pp_removeChannel pp_channels pp_interest pp_invar
proof unfold_locales
  show "pp_invar (st, p) \<Longrightarrow> pp_invar (set_events c ev st, p)" for st p c ev
    by (auto simp: pp_invar_def set_events_def)
  show "pp_invar (st, p) \<Longrightarrow> pp_channels p fd = Some c \<Longrightarrow> ch_fd (st c) = fd" for st p fd c
    by (auto simp: pp_invar_def)
next
  fix st p c fd ev
  assume a: "pp_invar (st, p)" "ch_fd (st c) = fd" "0 \<le> fd" "ch_events (st c) = ev" "ev \<in> masks"
    "pp_channels p fd = Some c \<or> pp_channels p fd = None \<and> ch_index (st c) = -1" "ev \<noteq> 0 \<or> pp_interest p fd \<noteq> None"
  show "\<exists>st' p'. pp_updateChannel c (st, p) = Inr (st', p') \<and> pp_invar (st', p') \<and> pp_channels p' = (pp_channels p)(fd \<mapsto> c) \<and>
      pp_interest p' = (pp_interest p)(fd := if ev = 0 then None else Some (c, ev)) \<and> index_only {c} st st'"
  proof (cases "pp_channels p fd = Some c")
    case True
    then show ?thesis using pp_update_known [OF a(1,4,5) True a(2)] by (auto simp: fun_upd_idem)
  next
    case False
    then have new: "pp_channels p fd = None" "ch_index (st c) = -1" using a(6) by auto
    then have "ev \<noteq> 0" using a(7) pp_interest_None by auto
    then show ?thesis using pp_update_new [OF a(1,4,5) _ a(2,3) new] by simp
  qed
qed (rule pp_remove_ok, assumption+)

section \<open>Properties\<close>

text \<open>
  C15 (refinement). Over any sequence of calls that their interface allows, on channels that start fresh, the epoll poller
  trips none of its assertions, none of its system calls fails, and the interest list of the kernel is, at the end,
  exactly the descriptors of the registered channels that have events, each with its channel and events.
\<close>

theorem epoll_refines_registry:
  assumes "epoll_kernel kctl watches" and "watches k = Map.empty" and "\<forall>c. st c = mkChannel (fd c) \<and> 0 \<le> fd c"
    and "spec_cmds fd cmds (Map.empty, {}) = Some (r, used)"
  shows "\<exists>st' p. do_cmds (ep_updateChannel kctl) (ep_removeChannel kctl) cmds (st, mkEPollPoller k) = Inr (st', p) \<and>
           watches (ep_kernel p) = watched r \<and> ep_channels p = (\<lambda>f. map_option fst (r f))"
  using epoll_kernel.epoll_watches [OF assms] .

text \<open>
  So does the poll poller, with the array it passes to \<^verbatim>\<open>poll\<close>, whose last entry moves into the gap that a
  removed channel leaves.
\<close>

theorem poll_refines_registry:
  assumes "\<forall>c. st c = mkChannel (fd c) \<and> 0 \<le> fd c" and "spec_cmds fd cmds (Map.empty, {}) = Some (r, used)"
  shows "\<exists>st' p. do_cmds pp_updateChannel pp_removeChannel cmds (st, mkPollPoller) = Inr (st', p) \<and>
           pp_interest p = watched r \<and> pp_channels p = (\<lambda>f. map_option fst (r f))"
proof -
  have "pp_invar (st, mkPollPoller)" "pp_interest mkPollPoller = Map.empty"
    by (auto simp: pp_invar_def mkPollPoller_def pp_interest_def fun_eq_iff)
  then show ?thesis
    using pp.do_cmds_watches [of st mkPollPoller fd cmds r used] assms by (auto simp: mkPollPoller_def)
qed

text \<open>Three channels of a small client: the first one comes and goes while the others stay.\<close>

definition client_fd :: "chan_ptr \<Rightarrow> int" where
  "client_fd c = int c + 3"

definition client_cmds :: "poll_cmd list" where
  "client_cmds = [Set_events 0 kReadEvent, Set_events 1 kReadEvent, Set_events 2 kReadEvent, Set_events 1 kWriteEvent,
                  Set_events 0 0, Remove 0]"

definition client_registry :: "int \<rightharpoonup> chan_ptr \<times> events" where
  "client_registry = [4 \<mapsto> (1, kWriteEvent), 5 \<mapsto> (2, kReadEvent)]"

lemma client_spec: "spec_cmds client_fd client_cmds (Map.empty, {}) = Some (client_registry, {0, 1, 2})"
proof -
  have "insert 1 (insert 2 (insert 1 {0})) = {0, 1, 2 :: nat}" by auto
  moreover have "0 \<in> masks" "kReadEvent \<in> masks" "kWriteEvent \<in> masks" by (simp_all add: masks_def)
  ultimately show ?thesis
    by (auto simp: client_cmds_def client_fd_def client_registry_def read_write_disjoint fun_eq_iff)
qed

theorem epoll_refines_registry_witness:
  "\<exists>st' p. do_cmds (ep_updateChannel map_ctl) (ep_removeChannel map_ctl) client_cmds
       (\<lambda>c. mkChannel (client_fd c), mkEPollPoller Map.empty) = Inr (st', p) \<and>
     ep_kernel p = watched client_registry \<and> ep_channels p = (\<lambda>f. map_option fst (client_registry f))"
  by (rule epoll_refines_registry [OF map_kernel.epoll_kernel_axioms _ _ client_spec]) (simp_all add: client_fd_def)

theorem poll_refines_registry_witness:
  "\<exists>st' p. do_cmds pp_updateChannel pp_removeChannel client_cmds (\<lambda>c. mkChannel (client_fd c), mkPollPoller) = Inr (st', p) \<and>
     pp_interest p = watched client_registry \<and> pp_channels p = (\<lambda>f. map_option fst (client_registry f))"
  by (rule poll_refines_registry [OF _ client_spec]) (simp add: client_fd_def)

text \<open>
  Outside that interface: a second \<^verbatim>\<open>disableAll\<close> makes the epoll poller add the descriptor again, without events, for which
  the kernel still reports errors and hang-ups.
\<close>

lemma disableAll_twice_watches_again:
  "\<exists>st p. do_cmds (ep_updateChannel map_ctl) (ep_removeChannel map_ctl) [Set_events 0 kReadEvent, Set_events 0 0, Set_events 0 0]
       (\<lambda>c. mkChannel (int c), mkEPollPoller Map.empty) = Inr (st, p) \<and> ep_kernel p 0 = Some (0, 0)"
  by (simp add: ep_updateChannel_def ep_update_def Let_def mkEPollPoller_def mkChannel_def set_events_def set_index_def
      map_ctl_def ep_index_defs isNoneEvent_def kNoneEvent_def read_write_disjoint)

section \<open>Active channels\<close>

text \<open>When the kernel reports channels that it watches, they all become active, with the events it reports.\<close>

lemma ep_fill_ok:
  assumes "ep_invar watches (st, p)" "\<forall>e \<in> set es. \<exists>fd ev. watches (ep_kernel p) fd = Some (fst e, ev)" "distinct (map fst es)"
  shows "\<exists>st'. ep_fill es active (st, p) = Inr (active @ map fst es, st') \<and> ep_invar watches (st', p) \<and>
           (\<forall>c. st' c = (case map_of es c of None \<Rightarrow> st c | Some r \<Rightarrow> (st c)\<lparr>ch_revents := r\<rparr>))"
  using assms
proof (induction es arbitrary: st active)
  case (Cons e es)
  obtain fd ev where w: "watches (ep_kernel p) fd = Some (fst e, ev)" using Cons.prems(2) by auto
  then obtain c where c: "ep_channels p fd = Some c" using Cons.prems(1) unfolding ep_invar_def by (metis option.exhaust option.distinct(1) snd_conv)
  then have "c = fst e" "ch_fd (st c) = fd" using Cons.prems(1) w by (force simp: ep_invar_def)+
  then have run: "ep_fill (e # es) active (st, p) = ep_fill es (active @ [fst e]) (set_revents (fst e) (snd e) st, p)"
    using c by simp
  have "ep_invar watches (set_revents (fst e) (snd e) st, p)"
    using Cons.prems(1) by (auto simp: ep_invar_def set_revents_def)
  then obtain st' where st': "ep_fill es (active @ [fst e]) (set_revents (fst e) (snd e) st, p) = Inr ((active @ [fst e]) @ map fst es, st')"
    "ep_invar watches (st', p)"
    "\<forall>c. st' c = (case map_of es c of None \<Rightarrow> set_revents (fst e) (snd e) st c | Some r \<Rightarrow> (set_revents (fst e) (snd e) st c)\<lparr>ch_revents := r\<rparr>)"
    using Cons.IH [of "set_revents (fst e) (snd e) st" "active @ [fst e]"] Cons.prems(2,3) by auto
  have "map_of es (fst e) = None" using Cons.prems(3) by (simp add: map_of_eq_None_iff)
  then have "\<forall>c. st' c = (case map_of (e # es) c of None \<Rightarrow> st c | Some r \<Rightarrow> (st c)\<lparr>ch_revents := r\<rparr>)"
    using st'(3) by (auto simp: set_revents_def split: option.split)
  moreover have "ep_fill (e # es) active (st, p) = Inr (active @ map fst (e # es), st')" unfolding run st'(1) by simp
  ultimately show ?case using st'(2) by blast
qed simp

lemma ep_poll_ok:
  assumes "ep_invar watches (st, p)" "\<forall>e \<in> set es. \<exists>fd ev. watches (ep_kernel p) fd = Some (fst e, ev)" "distinct (map fst es)"
    and "length es \<le> ep_events_size p"
  shows "\<exists>st' p'. ep_poll (Some es) [] (st, p) = Inr (map fst es, st', p') \<and> ep_invar watches (st', p') \<and>
           length es \<le> ep_events_size p' \<and> (ep_events_size p \<noteq> 0 \<longrightarrow> length es < ep_events_size p') \<and>
           (\<forall>c. st' c = (case map_of es c of None \<Rightarrow> st c | Some r \<Rightarrow> (st c)\<lparr>ch_revents := r\<rparr>))"
proof -
  obtain st' where st': "ep_fill es [] (st, p) = Inr (map fst es, st')" "ep_invar watches (st', p)"
    "\<forall>c. st' c = (case map_of es c of None \<Rightarrow> st c | Some r \<Rightarrow> (st c)\<lparr>ch_revents := r\<rparr>)"
    using ep_fill_ok [OF assms(1-3), of "[]"] by auto
  define p' where "p' = (if es \<noteq> [] \<and> length es = ep_events_size p then p\<lparr>ep_events_size := ep_events_size p * 2\<rparr> else p)"
  have "ep_poll (Some es) [] (st, p) = Inr (map fst es, st', p')"
    using assms(4) st'(1) by (cases es) (simp_all add: ep_poll_def ep_fillActiveChannels_def p'_def)
  moreover have "ep_invar watches (st', p')" using st'(2) by (simp add: ep_invar_def p'_def)
  moreover have "length es \<le> ep_events_size p'" "ep_events_size p \<noteq> 0 \<longrightarrow> length es < ep_events_size p'"
    using assms(4) by (auto simp: p'_def)
  ultimately show ?thesis using st'(3) by blast
qed

end
