(* ===== verification/Event_Loop.thy ===== *)
theory Event_Loop
  imports Pollers "HOL-Library.Sublist"
begin

text \<open>
  \<^verbatim>\<open>EventLoop\<close> (\<^verbatim>\<open>inc/network/EventLoop.hpp\<close>, \<^verbatim>\<open>src/network/EventLoop.cpp\<close>): the loop of a thread with the functors that
  any thread can queue in it, and the descriptor that wakes it up.  The operations are functions on the loop's state; the
  body of \<^verbatim>\<open>loop()\<close> is a step relation, with the steps of the other threads in between.  The timer calls of the loop
  are in \<open>Timers\<close>, the pollers in \<open>Pollers\<close>.

  Outside are the functors and the callbacks of the channels: \<open>calls f\<close> and \<open>on_event c\<close> are the calls they make
  on the loop, in order, and \<open>ready\<close> the channels the poller returns.
\<close>

section \<open>Operations\<close>

type_synonym loop_task = nat

record EventLoop =
  looping :: bool
  loop_quit :: bool
  loop_handling :: bool
  callingPendingFunctors :: bool
  pendingFunctors :: "loop_task list"
  wakeup_count :: nat
  activeChannels :: "chan_ptr list"
  currentActiveChannel :: "chan_ptr option"

definition mkEventLoop :: EventLoop where
  "mkEventLoop = \<lparr>looping = False, loop_quit = False, loop_handling = False, callingPendingFunctors = False,
                  pendingFunctors = [], wakeup_count = 0, activeChannels = [], currentActiveChannel = None\<rparr>"

text \<open>The counter of the eventfd; a \<^verbatim>\<open>write\<close> that would exceed its maximum fails and only logs.\<close>

definition eventfd_max :: nat where
  "eventfd_max = 2 ^ 64 - 2"

definition wakeup :: "EventLoop \<Rightarrow> EventLoop" where
  "wakeup l = (if wakeup_count l < eventfd_max then l\<lparr>wakeup_count := Suc (wakeup_count l)\<rparr> else l)"

definition wakeup_handleRead :: "EventLoop \<Rightarrow> EventLoop" where
  "wakeup_handleRead l = l\<lparr>wakeup_count := 0\<rparr>"

definition push_functor :: "loop_task \<Rightarrow> EventLoop \<Rightarrow> EventLoop" where
  "push_functor f l = l\<lparr>pendingFunctors := pendingFunctors l @ [f]\<rparr>"

definition loop_queueInLoop :: "bool \<Rightarrow> loop_task \<Rightarrow> EventLoop \<Rightarrow> EventLoop" where
  "loop_queueInLoop in_loop f l =
     (let l1 = push_functor f l in if \<not> in_loop \<or> callingPendingFunctors l1 then wakeup l1 else l1)"

definition quit_loop :: "bool \<Rightarrow> EventLoop \<Rightarrow> EventLoop" where
  "quit_loop in_loop l = (let l1 = l\<lparr>loop_quit := True\<rparr> in if in_loop then l1 else wakeup l1)"

definition assertInLoopThread :: "bool \<Rightarrow> unit result" where
  "assertInLoopThread in_loop = (if in_loop then Inr () else Inl Fatal_Log)"

text \<open>\<open>owner\<close>: whether the channel belongs to this loop.\<close>

definition loop_updateChannel ::
  "(chan_ptr \<Rightarrow> chans \<times> 'p \<Rightarrow> (chans \<times> 'p) result) \<Rightarrow> bool \<Rightarrow> bool \<Rightarrow> chan_ptr \<Rightarrow> chans \<times> 'p \<Rightarrow> (chans \<times> 'p) result" where
  "loop_updateChannel update owner in_loop c s =
     rbind (passert owner) (\<lambda>_. rbind (assertInLoopThread in_loop) (\<lambda>_. update c s))"

definition loop_removeChannel ::
  "(chan_ptr \<Rightarrow> chans \<times> 'p \<Rightarrow> (chans \<times> 'p) result) \<Rightarrow> bool \<Rightarrow> bool \<Rightarrow> chan_ptr \<Rightarrow> EventLoop \<Rightarrow> chans \<times> 'p \<Rightarrow>
     (chans \<times> 'p) result" where
  "loop_removeChannel remove owner in_loop c l s =
     rbind (passert owner) (\<lambda>_. rbind (assertInLoopThread in_loop) (\<lambda>_.
     rbind (passert (loop_handling l \<longrightarrow> currentActiveChannel l = Some c \<or> c \<notin> set (activeChannels l))) (\<lambda>_.
       remove c s)))"

definition loop_hasChannel ::
  "(chan_ptr \<Rightarrow> chans \<times> 'p \<Rightarrow> bool) \<Rightarrow> bool \<Rightarrow> bool \<Rightarrow> chan_ptr \<Rightarrow> chans \<times> 'p \<Rightarrow> bool result" where
  "loop_hasChannel has owner in_loop c s =
     rbind (passert owner) (\<lambda>_. rbind (assertInLoopThread in_loop) (\<lambda>_. Inr (has c s)))"

section \<open>The loop among the other threads\<close>

text \<open>The calls that a functor or a callback, in the thread of the loop, makes on it.\<close>

datatype loop_call = Run_in_loop loop_task | Queue_in_loop loop_task | Quit_loop

text \<open>
  Where the thread of the loop is: outside \<^verbatim>\<open>loop()\<close>, at the head of the \<^verbatim>\<open>while\<close>, among the active channels, before the
  swap of \<^verbatim>\<open>doPendingFunctors\<close>, or among the functors taken; with the calls that the callback under way has still to make.
\<close>

datatype loop_pc =
    Outside
  | Head
  | Handling "chan_ptr list" "loop_call list"
  | Swap
  | Running "loop_task list" "loop_call list"

text \<open>
  \<open>to_wake\<close>: the other threads that have pushed a functor, or set \<^verbatim>\<open>quit_\<close>, and have yet to call \<^verbatim>\<open>wakeup()\<close>.  \<open>queued\<close> and
  \<open>functors_run\<close> record the functors queued and those that \<^verbatim>\<open>doPendingFunctors\<close> has run; \<open>queued_outside\<close> those that the loop's own
  thread has queued outside of \<^verbatim>\<open>loop()\<close> since functors were last taken.
\<close>

record loop_system =
  sys_loop :: EventLoop
  sys_pc :: loop_pc
  to_wake :: nat
  queued :: "loop_task list"
  functors_run :: "loop_task list"
  queued_outside :: "loop_task list"

definition init_system :: loop_system where
  "init_system = \<lparr>sys_loop = mkEventLoop, sys_pc = Outside, to_wake = 0, queued = [], functors_run = [], queued_outside = []\<rparr>"

text \<open>A call of the loop's own thread; \<^verbatim>\<open>runInLoop\<close> runs its functor there and then.\<close>

fun own_call :: "(loop_task \<Rightarrow> loop_call list) \<Rightarrow> loop_call \<Rightarrow> loop_call list \<Rightarrow> loop_system \<Rightarrow> loop_call list \<times> loop_system" where
  "own_call calls (Run_in_loop f) ks s = (calls f @ ks, s)"
| "own_call calls (Queue_in_loop f) ks s = (ks, s\<lparr>sys_loop := loop_queueInLoop True f (sys_loop s), queued := queued s @ [f]\<rparr>)"
| "own_call calls Quit_loop ks s = (ks, s\<lparr>sys_loop := quit_loop True (sys_loop s)\<rparr>)"

text \<open>The beginning of \<^verbatim>\<open>doPendingFunctors\<close>; the functors it swaps out are run one by one in the steps below.\<close>

definition begin_pending :: "EventLoop \<Rightarrow> EventLoop" where
  "begin_pending l = l\<lparr>callingPendingFunctors := True, pendingFunctors := []\<rparr>"

text \<open>
  \<open>outside_call\<close>: before and after \<^verbatim>\<open>loop()\<close> the thread of the loop may call the loop as well; what a functor given to \<^verbatim>\<open>runInLoop\<close> calls
  are further steps of this kind.
\<close>

inductive loop_step ::
  "(loop_task \<Rightarrow> loop_call list) \<Rightarrow> (chan_ptr \<Rightarrow> loop_call list) \<Rightarrow> chan_ptr \<Rightarrow> loop_system \<Rightarrow> loop_system \<Rightarrow> bool"
  for calls on_event wakeupChannel where
  enter: "sys_pc s = Outside \<Longrightarrow> \<not> looping (sys_loop s) \<Longrightarrow>
     loop_step calls on_event wakeupChannel s
       (s\<lparr>sys_loop := (sys_loop s)\<lparr>looping := True, loop_quit := False\<rparr>, sys_pc := Head\<rparr>)"
| leave: "sys_pc s = Head \<Longrightarrow> loop_quit (sys_loop s) \<Longrightarrow>
     loop_step calls on_event wakeupChannel s (s\<lparr>sys_loop := (sys_loop s)\<lparr>looping := False\<rparr>, sys_pc := Outside\<rparr>)"
| poll: "sys_pc s = Head \<Longrightarrow> \<not> loop_quit (sys_loop s) \<Longrightarrow> (0 < wakeup_count (sys_loop s) \<longrightarrow> wakeupChannel \<in> set ready) \<Longrightarrow>
     loop_step calls on_event wakeupChannel s
       (s\<lparr>sys_loop := (sys_loop s)\<lparr>activeChannels := ready, loop_handling := True\<rparr>, sys_pc := Handling ready []\<rparr>)"
| event: "sys_pc s = Handling (c # cs) [] \<Longrightarrow> c \<noteq> wakeupChannel \<Longrightarrow>
     loop_step calls on_event wakeupChannel s
       (s\<lparr>sys_loop := (sys_loop s)\<lparr>currentActiveChannel := Some c\<rparr>, sys_pc := Handling cs (on_event c)\<rparr>)"
| woken: "sys_pc s = Handling (wakeupChannel # cs) [] \<Longrightarrow>
     loop_step calls on_event wakeupChannel s
       (s\<lparr>sys_loop := wakeup_handleRead ((sys_loop s)\<lparr>currentActiveChannel := Some wakeupChannel\<rparr>), sys_pc := Handling cs []\<rparr>)"
| event_call: "sys_pc s = Handling cs (k # ks) \<Longrightarrow> own_call calls k ks s = (ks', s') \<Longrightarrow>
     loop_step calls on_event wakeupChannel s (s'\<lparr>sys_pc := Handling cs ks'\<rparr>)"
| handled: "sys_pc s = Handling [] [] \<Longrightarrow>
     loop_step calls on_event wakeupChannel s
       (s\<lparr>sys_loop := (sys_loop s)\<lparr>currentActiveChannel := None, loop_handling := False\<rparr>, sys_pc := Swap\<rparr>)"
| swap: "sys_pc s = Swap \<Longrightarrow>
     loop_step calls on_event wakeupChannel s
       (s\<lparr>sys_loop := begin_pending (sys_loop s),
          sys_pc := Running (pendingFunctors (sys_loop s)) [], queued_outside := []\<rparr>)"
| run_functor: "sys_pc s = Running (f # fs) [] \<Longrightarrow>
     loop_step calls on_event wakeupChannel s (s\<lparr>functors_run := functors_run s @ [f], sys_pc := Running fs (calls f)\<rparr>)"
| functor_call: "sys_pc s = Running fs (k # ks) \<Longrightarrow> own_call calls k ks s = (ks', s') \<Longrightarrow>
     loop_step calls on_event wakeupChannel s (s'\<lparr>sys_pc := Running fs ks'\<rparr>)"
| functors_done: "sys_pc s = Running [] [] \<Longrightarrow>
     loop_step calls on_event wakeupChannel s
       (s\<lparr>sys_loop := (sys_loop s)\<lparr>callingPendingFunctors := False\<rparr>, sys_pc := Head\<rparr>)"
| outside_call: "sys_pc s = Outside \<Longrightarrow> own_call calls k [] s = (ks', s') \<Longrightarrow>
     loop_step calls on_event wakeupChannel s
       (s'\<lparr>queued_outside := queued_outside s @ drop (length (queued s)) (queued s')\<rparr>)"
| other_push: "loop_step calls on_event wakeupChannel s
     (s\<lparr>sys_loop := push_functor f (sys_loop s), queued := queued s @ [f], to_wake := Suc (to_wake s)\<rparr>)"
| other_quit: "loop_step calls on_event wakeupChannel s
     (s\<lparr>sys_loop := (sys_loop s)\<lparr>loop_quit := True\<rparr>, to_wake := Suc (to_wake s)\<rparr>)"
| other_wakeup: "to_wake s = Suc n \<Longrightarrow>
     loop_step calls on_event wakeupChannel s (s\<lparr>sys_loop := wakeup (sys_loop s), to_wake := n\<rparr>)"

abbreviation loop_steps where
  "loop_steps calls on_event w \<equiv> (loop_step calls on_event w)\<^sup>*\<^sup>*"

section \<open>Invariants\<close>

declare begin_pending_def [simp]

text \<open>The functors of the batch under way that have not run yet.\<close>

fun batch :: "loop_pc \<Rightarrow> loop_task list" where
  "batch (Running fs ks) = fs"
| "batch pc = []"

fun before_swap :: "loop_pc \<Rightarrow> bool" where
  "before_swap (Handling cs ks) = True"
| "before_swap Swap = True"
| "before_swap pc = False"

fun is_running :: "loop_pc \<Rightarrow> bool" where
  "is_running (Running fs ks) = True"
| "is_running pc = False"

definition loop_inv :: "loop_system \<Rightarrow> bool" where
  "loop_inv s \<longleftrightarrow>
     functors_run s @ batch (sys_pc s) @ pendingFunctors (sys_loop s) = queued s \<and>
     callingPendingFunctors (sys_loop s) = is_running (sys_pc s) \<and>
     (is_running (sys_pc s) \<longrightarrow> queued_outside s = []) \<and>
     (\<not> before_swap (sys_pc s) \<and> wakeup_count (sys_loop s) + to_wake s = 0 \<longrightarrow> pendingFunctors (sys_loop s) = queued_outside s)"

lemma wakeup_fields [simp]:
  "pendingFunctors (wakeup l) = pendingFunctors l" "callingPendingFunctors (wakeup l) = callingPendingFunctors l"
  "0 < wakeup_count (wakeup l)" "wakeup_count (wakeup l) \<noteq> 0"
  by (auto simp: wakeup_def eventfd_max_def)

lemma push_functor_fields [simp]:
  "pendingFunctors (push_functor f l) = pendingFunctors l @ [f]" "callingPendingFunctors (push_functor f l) = callingPendingFunctors l"
  "wakeup_count (push_functor f l) = wakeup_count l"
  by (simp_all add: push_functor_def)

lemma loop_queueInLoop_fields [simp]:
  "pendingFunctors (loop_queueInLoop b f l) = pendingFunctors l @ [f]"
  "callingPendingFunctors (loop_queueInLoop b f l) = callingPendingFunctors l"
  "callingPendingFunctors l \<Longrightarrow> 0 < wakeup_count (loop_queueInLoop b f l)"
  by (simp_all add: loop_queueInLoop_def Let_def)

lemma quit_loop_fields [simp]:
  "pendingFunctors (quit_loop True l) = pendingFunctors l" "callingPendingFunctors (quit_loop True l) = callingPendingFunctors l"
  "wakeup_count (quit_loop True l) = wakeup_count l"
  by (simp_all add: quit_loop_def)

text \<open>What a call of the loop's own thread keeps.\<close>

lemma own_call_inv:
  assumes "own_call calls k ks s = (ks', s')"
  shows "\<exists>new. queued s' = queued s @ new \<and> pendingFunctors (sys_loop s') = pendingFunctors (sys_loop s) @ new \<and>
           functors_run s' = functors_run s \<and> to_wake s' = to_wake s \<and> queued_outside s' = queued_outside s \<and> sys_pc s' = sys_pc s \<and>
           callingPendingFunctors (sys_loop s') = callingPendingFunctors (sys_loop s) \<and>
           (new = [] \<longrightarrow> wakeup_count (sys_loop s') = wakeup_count (sys_loop s)) \<and>
           (new \<noteq> [] \<and> callingPendingFunctors (sys_loop s) \<longrightarrow> 0 < wakeup_count (sys_loop s'))"
  using assms by (cases k) auto

lemma loop_inv_init: "loop_inv init_system"
  by (simp add: loop_inv_def init_system_def mkEventLoop_def)

lemma loop_step_inv: "loop_step calls on_event w s t \<Longrightarrow> loop_inv s \<Longrightarrow> loop_inv t"
proof (induction rule: loop_step.induct)
  case (event_call s cs k ks ks' s')
  then show ?case using own_call_inv [OF event_call.hyps(2)] by (auto simp: loop_inv_def)
next
  case (functor_call s fs k ks ks' s')
  from own_call_inv [OF functor_call.hyps(2)] functor_call show ?case by (auto simp: loop_inv_def)
next
  case (outside_call s k ks' s')
  from own_call_inv [OF outside_call.hyps(2)] obtain new where
    new: "queued s' = queued s @ new" "pendingFunctors (sys_loop s') = pendingFunctors (sys_loop s) @ new"
      "functors_run s' = functors_run s" "to_wake s' = to_wake s" "sys_pc s' = sys_pc s"
      "callingPendingFunctors (sys_loop s') = callingPendingFunctors (sys_loop s)"
    by blast
  have "wakeup_count (sys_loop s') = wakeup_count (sys_loop s)"
    using outside_call by (cases k) (auto simp: loop_inv_def loop_queueInLoop_def)
  then show ?case using new outside_call.prems outside_call.hyps(1) by (auto simp: loop_inv_def)
qed (auto simp: loop_inv_def wakeup_handleRead_def)

lemma loop_steps_inv: "loop_steps calls on_event w s t \<Longrightarrow> loop_inv s \<Longrightarrow> loop_inv t"
  by (induction rule: rtranclp_induct) (auto intro: loop_step_inv)

lemma loop_step_records:
  assumes "loop_step calls on_event w s t"
  shows "prefix (queued s) (queued t)" "prefix (functors_run s) (functors_run t)" "prefix (functors_run s @ batch (sys_pc s)) (functors_run t @ batch (sys_pc t)) "
  using assms by (induction rule: loop_step.induct) (auto dest!: own_call_inv)

text \<open>The batch that the loop takes is all that is queued, and the loop stays with it until all of it has run.\<close>

lemma loop_step_before:
  assumes "loop_step calls on_event w s t" "before_swap (sys_pc s)" "loop_inv s"
  shows "before_swap (sys_pc t) \<or> is_running (sys_pc t) \<and> functors_run t @ batch (sys_pc t) = queued s"
  using assms by (induction rule: loop_step.induct) (auto simp: loop_inv_def)

lemma loop_step_running:
  assumes "loop_step calls on_event w s t" "is_running (sys_pc s)"
  shows "is_running (sys_pc t) \<or> batch (sys_pc s) = []"
  using assms by (induction rule: loop_step.induct) auto

text \<open>
  No functor is lost or run out of order: what has been queued when the loop is about to take the pending functors has been run
  when it is next at its head.
\<close>

lemma functors_run_by_head:
  assumes reach: "loop_steps calls on_event w init_system s" and before: "before_swap (sys_pc s)"
    and steps: "loop_steps calls on_event w s t" and head: "sys_pc t = Head"
  shows "prefix (queued s) (functors_run t) \<and> prefix (functors_run t) (queued t)"
proof -
  have inv: "loop_inv s" by (rule loop_steps_inv [OF reach loop_inv_init])
  have "prefix (queued s) (functors_run t) \<or> before_swap (sys_pc t) \<and> prefix (queued s) (queued t) \<or>
      prefix (queued s) (functors_run t @ batch (sys_pc t)) \<and> is_running (sys_pc t)"
    using steps
  proof (induction rule: rtranclp_induct)
    case base
    then show ?case using before by simp
  next
    case (step t u)
    have "loop_inv t" using step.hyps(1) inv by (rule loop_steps_inv)
    note rec = loop_step_records [OF step.hyps(2)]
    from step.IH consider "prefix (queued s) (functors_run t)" | "before_swap (sys_pc t)" "prefix (queued s) (queued t)"
      | "prefix (queued s) (functors_run t @ batch (sys_pc t))" "is_running (sys_pc t)" by blast
    then show ?case
    proof cases
      case 2
      then show ?thesis
        using loop_step_before [OF step.hyps(2) _ \<open>loop_inv t\<close>] rec(1) prefix_order.trans by fastforce
    next
      case 3
      then show ?thesis
        using loop_step_running [OF step.hyps(2)] rec(2,3) by (auto intro: prefix_order.trans)
    qed (use rec(2) in \<open>auto intro: prefix_order.trans\<close>)
  qed
  then have "prefix (queued s) (functors_run t)" by (simp add: head)
  moreover have "loop_inv t" using steps inv by (rule loop_steps_inv)
  then have "queued t = functors_run t @ pendingFunctors (sys_loop t)" by (simp add: loop_inv_def head)
  ultimately show ?thesis by (simp add: prefixI)
qed

section \<open>Every iteration ends\<close>

text \<open>
  What a functor or a callback costs: one for each call it makes, and for \<^verbatim>\<open>runInLoop\<close>, which runs its argument there and then,
  what that costs.  \<open>nests wt calls\<close> says that these nested runs come to an end.
\<close>

fun call_weight :: "(loop_task \<Rightarrow> nat) \<Rightarrow> loop_call \<Rightarrow> nat" where
  "call_weight wt (Run_in_loop f) = wt f"
| "call_weight wt (Queue_in_loop f) = 1"
| "call_weight wt Quit_loop = 1"

definition calls_weight :: "(loop_task \<Rightarrow> nat) \<Rightarrow> loop_call list \<Rightarrow> nat" where
  "calls_weight wt ks = sum_list (map (call_weight wt) ks)"

definition nests :: "(loop_task \<Rightarrow> nat) \<Rightarrow> (loop_task \<Rightarrow> loop_call list) \<Rightarrow> bool" where
  "nests wt calls \<longleftrightarrow> (\<forall>f. calls_weight wt (calls f) < wt f)"

fun pc_rank :: "(loop_task \<Rightarrow> nat) \<Rightarrow> (chan_ptr \<Rightarrow> loop_call list) \<Rightarrow> loop_pc \<Rightarrow> nat \<times> nat" where
  "pc_rank wt on_event Outside = (0, 0)"
| "pc_rank wt on_event Head = (0, 0)"
| "pc_rank wt on_event (Handling cs ks) = (3, sum_list (map (\<lambda>c. Suc (calls_weight wt (on_event c))) cs) + calls_weight wt ks)"
| "pc_rank wt on_event Swap = (2, 0)"
| "pc_rank wt on_event (Running fs ks) = (1, sum_list (map wt fs) + calls_weight wt ks)"

lemma calls_weight_simps [simp]:
  "calls_weight wt [] = 0"
  "calls_weight wt (k # ks) = call_weight wt k + calls_weight wt ks"
  "calls_weight wt (ks @ ks') = calls_weight wt ks + calls_weight wt ks'"
  by (simp_all add: calls_weight_def)

lemma own_call_weight:
  assumes "own_call calls k ks s = (ks', s')" "nests wt calls"
  shows "calls_weight wt ks' < call_weight wt k + calls_weight wt ks"
  using assms by (cases k) (auto simp: nests_def)

lemma loop_step_rank:
  assumes "loop_step calls on_event w s t" "nests wt calls" "before_swap (sys_pc s) \<or> is_running (sys_pc s)"
  shows "sys_pc t = sys_pc s \<or> (pc_rank wt on_event (sys_pc t), pc_rank wt on_event (sys_pc s)) \<in> less_than <*lex*> less_than"
  using assms
proof (induction rule: loop_step.induct)
  case (event_call s cs k ks ks' s')
  then show ?case using own_call_weight [OF event_call.hyps(2)] by simp
next
  case (functor_call s fs k ks ks' s')
  then show ?case using own_call_weight [OF functor_call.hyps(2)] by simp
qed (auto simp: nests_def)

lemma loop_step_stays:
  assumes "loop_step calls on_event w s t" "before_swap (sys_pc s) \<or> is_running (sys_pc s)" "sys_pc t \<noteq> Head"
  shows "before_swap (sys_pc t) \<or> is_running (sys_pc t)"
  using assms by (induction rule: loop_step.induct) auto

text \<open>A run: an infinite sequence of steps in which the thread of the loop always takes another step some time.\<close>

definition loop_run :: "(loop_task \<Rightarrow> loop_call list) \<Rightarrow> (chan_ptr \<Rightarrow> loop_call list) \<Rightarrow> chan_ptr \<Rightarrow> (nat \<Rightarrow> loop_system) \<Rightarrow> bool" where
  "loop_run calls on_event w run \<longleftrightarrow>
     run 0 = init_system \<and> (\<forall>i. loop_step calls on_event w (run i) (run (Suc i))) \<and>
     (\<forall>i. \<exists>j \<ge> i. sys_pc (run (Suc j)) \<noteq> sys_pc (run j))"

lemma loop_run_steps: "loop_run calls on_event w run \<Longrightarrow> i \<le> j \<Longrightarrow> loop_steps calls on_event w (run i) (run j)"
  unfolding loop_run_def by (induction j) (auto simp: le_Suc_eq intro: rtranclp.rtrancl_into_rtrancl)

lemma loop_run_head:
  assumes run: "loop_run calls on_event w run" and wt: "nests wt calls" and "before_swap (sys_pc (run i)) \<or> is_running (sys_pc (run i))"
  shows "\<exists>j \<ge> i. sys_pc (run j) = Head"
  using assms(3)
proof (induction "pc_rank wt on_event (sys_pc (run i))" arbitrary: i rule: wf_induct_rule [OF wf_lex_prod [OF wf_less_than wf_less_than]])
  case (1 i)
  define j where "j = (LEAST j. i \<le> j \<and> sys_pc (run (Suc j)) \<noteq> sys_pc (run j))"
  have j: "i \<le> j" "sys_pc (run (Suc j)) \<noteq> sys_pc (run j)"
    using LeastI_ex [of "\<lambda>j. i \<le> j \<and> sys_pc (run (Suc j)) \<noteq> sys_pc (run j)"] run unfolding loop_run_def j_def by blast+
  have same: "i \<le> k \<Longrightarrow> k < j \<Longrightarrow> sys_pc (run (Suc k)) = sys_pc (run k)" for k
    using not_less_Least unfolding j_def by blast
  have "i + d \<le> j \<Longrightarrow> sys_pc (run (i + d)) = sys_pc (run i)" for d
  proof (induction d)
    case (Suc d)
    then show ?case using same [of "i + d"] by simp
  qed simp
  from this [of "j - i"] have pc: "sys_pc (run j) = sys_pc (run i)" using j(1) by simp
  have step: "loop_step calls on_event w (run j) (run (Suc j))" using run by (simp add: loop_run_def)
  show ?case
  proof (cases "sys_pc (run (Suc j)) = Head")
    case True
    then show ?thesis using j(1) le_SucI by blast
  next
    case False
    have "(pc_rank wt on_event (sys_pc (run (Suc j))), pc_rank wt on_event (sys_pc (run i))) \<in> less_than <*lex*> less_than"
      using loop_step_rank [OF step wt] "1.prems" j(2) unfolding pc by blast
    moreover have "before_swap (sys_pc (run (Suc j))) \<or> is_running (sys_pc (run (Suc j)))"
      using loop_step_stays [OF step _ False] "1.prems" unfolding pc by blast
    ultimately have "\<exists>k \<ge> Suc j. sys_pc (run k) = Head" by (rule "1.hyps")
    then show ?thesis using j(1) by (meson Suc_leD le_trans)
  qed
qed

section \<open>Properties\<close>

text \<open>
  C13 (liveness). Every functor is run.  In any run in which the thread of the loop keeps being scheduled, and functors and
  callbacks do not run each other for ever, what has been queued by the time the loop is about to take the pending
  functors, by whichever thread, has been run when it comes back to its head, which it does: in the order of queueing and each once.
\<close>

theorem loop_runs_queued_functors:
  assumes "loop_run calls on_event w run" and "nests wt calls" and "before_swap (sys_pc (run i))"
  shows "\<exists>j \<ge> i. sys_pc (run j) = Head \<and> prefix (queued (run i)) (functors_run (run j)) \<and> prefix (functors_run (run j)) (queued (run j))"
proof -
  obtain j where j: "i \<le> j" "sys_pc (run j) = Head" using loop_run_head [OF assms(1,2)] assms(3) by blast
  have "loop_steps calls on_event w init_system (run i)"
    using loop_run_steps [OF assms(1), of 0 i] assms(1) by (simp add: loop_run_def)
  from functors_run_by_head [OF this assms(3) loop_run_steps [OF assms(1) j(1)] j(2)] j show ?thesis by blast
qed

text \<open>
  C19 (invariant). The loop never goes to sleep over a functor that it was not to find by itself: when it is at its head, before it polls, and
  functors are pending, then the wakeup descriptor is readable, or the thread that queued one of them is about to write to it, or all of them were
  queued by the loop's own thread before it entered \<^verbatim>\<open>loop()\<close> and none has been added since; the poll that follows then ends by its timeout.
\<close>

theorem loop_no_lost_wakeup:
  assumes "loop_steps calls on_event w init_system s" and "sys_pc s = Head" and "pendingFunctors (sys_loop s) \<noteq> []"
  shows "0 < wakeup_count (sys_loop s) \<or> 0 < to_wake s \<or> pendingFunctors (sys_loop s) = queued_outside s"
  using loop_steps_inv [OF assms(1) loop_inv_init] assms(2,3) by (auto simp: loop_inv_def)

text \<open>The last case is real: a functor queued before \<^verbatim>\<open>loop()\<close> is pending at the first poll, and nothing wakes it.\<close>

lemma functor_queued_before_loop:
  "\<exists>s. loop_steps calls on_event w init_system s \<and> sys_pc s = Head \<and> pendingFunctors (sys_loop s) = [f] \<and>
     wakeup_count (sys_loop s) = 0 \<and> to_wake s = 0"
proof -
  let ?s1 = "init_system\<lparr>sys_loop := loop_queueInLoop True f mkEventLoop, queued := [f], queued_outside := [f]\<rparr>"
  let ?s2 = "?s1\<lparr>sys_loop := (sys_loop ?s1)\<lparr>looping := True, loop_quit := False\<rparr>, sys_pc := Head\<rparr>"
  have "loop_step calls on_event w init_system ?s1"
    using loop_step.outside_call [of init_system calls "Queue_in_loop f"] by (simp add: init_system_def)
  moreover have "loop_step calls on_event w ?s1 ?s2"
    using loop_step.enter [of ?s1] by (simp add: init_system_def mkEventLoop_def loop_queueInLoop_def push_functor_def)
  ultimately have "loop_steps calls on_event w init_system ?s2" by (meson converse_rtranclp_into_rtranclp rtranclp.rtrancl_refl)
  then show ?thesis
    by (intro exI [of _ ?s2]) (simp add: init_system_def mkEventLoop_def loop_queueInLoop_def push_functor_def)
qed

text \<open>An iteration: a functor that another thread queues, which queues a second one when it runs.\<close>

definition sample_calls :: "loop_task \<Rightarrow> loop_call list" where
  "sample_calls f = (if f = 7 then [Queue_in_loop 8] else [])"

definition sample_before :: loop_system where
  "sample_before = \<lparr>sys_loop = mkEventLoop\<lparr>looping := True, pendingFunctors := [7]\<rparr>, sys_pc = Swap, to_wake = 1, queued = [7], functors_run = [], queued_outside = []\<rparr>"

definition sample_after :: loop_system where
  "sample_after = \<lparr>sys_loop = mkEventLoop\<lparr>looping := True, pendingFunctors := [8], wakeup_count := 1\<rparr>, sys_pc = Head, to_wake = 1,
                   queued = [7, 8], functors_run = [7], queued_outside = []\<rparr>"

lemma sample_reaches_before: "loop_steps sample_calls (\<lambda>c. []) 0 init_system sample_before"
proof -
  let ?step = "loop_step sample_calls (\<lambda>c. []) 0"
  let ?s1 = "init_system\<lparr>sys_loop := mkEventLoop\<lparr>looping := True, loop_quit := False\<rparr>, sys_pc := Head\<rparr>"
  let ?s2 = "?s1\<lparr>sys_loop := (sys_loop ?s1)\<lparr>activeChannels := [], loop_handling := True\<rparr>, sys_pc := Handling [] []\<rparr>"
  let ?s3 = "?s2\<lparr>sys_loop := push_functor 7 (sys_loop ?s2), queued := [7], to_wake := 1\<rparr>"
  have "?step init_system ?s1" using loop_step.enter [of init_system] by (simp add: init_system_def mkEventLoop_def)
  moreover have "?step ?s1 ?s2" using loop_step.poll [of ?s1 0 "[]"] by (simp add: mkEventLoop_def)
  moreover have "?step ?s2 ?s3" using loop_step.other_push [of _ _ _ ?s2 7] by (simp add: init_system_def)
  moreover have "?step ?s3 sample_before"
    using loop_step.handled [of ?s3] by (simp add: sample_before_def init_system_def mkEventLoop_def push_functor_def)
  ultimately show ?thesis by (meson converse_rtranclp_into_rtranclp rtranclp.rtrancl_refl)
qed

lemma sample_reaches_after: "loop_steps sample_calls (\<lambda>c. []) 0 sample_before sample_after"
proof -
  let ?step = "loop_step sample_calls (\<lambda>c. []) 0"
  let ?s1 = "sample_before\<lparr>sys_loop := (sys_loop sample_before)\<lparr>callingPendingFunctors := True, pendingFunctors := []\<rparr>,
               sys_pc := Running [7] []\<rparr>"
  let ?s2 = "?s1\<lparr>functors_run := [7], sys_pc := Running [] [Queue_in_loop 8]\<rparr>"
  let ?s3 = "?s2\<lparr>sys_loop := loop_queueInLoop True 8 (sys_loop ?s2), queued := [7, 8], sys_pc := Running [] []\<rparr>"
  have "?step sample_before ?s1" using loop_step.swap [of sample_before] by (simp add: sample_before_def)
  moreover have "?step ?s1 ?s2" using loop_step.run_functor [of ?s1 7 "[]" sample_calls] by (simp add: sample_before_def sample_calls_def)
  moreover have "?step ?s2 ?s3"
    using loop_step.functor_call [of ?s2 "[]" "Queue_in_loop 8" "[]"] by (simp add: sample_before_def)
  moreover have "?step ?s3 sample_after"
    using loop_step.functors_done [of ?s3]
    by (simp add: sample_after_def sample_before_def mkEventLoop_def loop_queueInLoop_def push_functor_def wakeup_def eventfd_max_def)
  ultimately show ?thesis by (meson converse_rtranclp_into_rtranclp rtranclp.rtrancl_refl)
qed

text \<open>The same functor in an infinite run, which goes on with empty iterations.\<close>

definition idle_loop :: EventLoop where
  "idle_loop = mkEventLoop\<lparr>looping := True\<rparr>"

definition cycle_state :: "nat \<Rightarrow> loop_system" where
  "cycle_state k =
     (let s = \<lparr>sys_loop = idle_loop, sys_pc = Head, to_wake = 1, queued = [7], functors_run = [7], queued_outside = []\<rparr>
      in if k = 0 then s
         else if k = 1 then s\<lparr>sys_loop := idle_loop\<lparr>loop_handling := True\<rparr>, sys_pc := Handling [] []\<rparr>
         else if k = 2 then s\<lparr>sys_pc := Swap\<rparr>
         else s\<lparr>sys_loop := idle_loop\<lparr>callingPendingFunctors := True\<rparr>, sys_pc := Running [] []\<rparr>)"

definition first_states :: "loop_system list" where
  "first_states =
     (let s = \<lparr>sys_loop = push_functor 7 mkEventLoop, sys_pc = Outside, to_wake = 1, queued = [7], functors_run = [], queued_outside = []\<rparr>;
          l = push_functor 7 idle_loop
      in [init_system, s, s\<lparr>sys_loop := l, sys_pc := Head\<rparr>,
          s\<lparr>sys_loop := l\<lparr>loop_handling := True\<rparr>, sys_pc := Handling [] []\<rparr>,
          s\<lparr>sys_loop := l, sys_pc := Swap\<rparr>,
          s\<lparr>sys_loop := begin_pending l, sys_pc := Running [7] []\<rparr>])"

definition sample_run :: "nat \<Rightarrow> loop_system" where
  "sample_run i = (if i < 6 then first_states ! i else cycle_state ((i + 1) mod 4))"

lemma cycle_state_step: "loop_step (\<lambda>f. []) (\<lambda>c. []) 0 (cycle_state (i mod 4)) (cycle_state (Suc i mod 4))"
proof -
  let ?step = "loop_step (\<lambda>f. []) (\<lambda>c. []) 0"
  have "?step (cycle_state 0) (cycle_state 1)"
    using loop_step.poll [of "cycle_state 0" 0 "[]"] by (simp add: cycle_state_def idle_loop_def mkEventLoop_def)
  moreover have "?step (cycle_state 1) (cycle_state 2)"
    using loop_step.handled [of "cycle_state 1"] by (simp add: cycle_state_def idle_loop_def mkEventLoop_def)
  moreover have "?step (cycle_state 2) (cycle_state 3)"
    using loop_step.swap [of "cycle_state 2"] by (simp add: cycle_state_def idle_loop_def mkEventLoop_def)
  moreover have "?step (cycle_state 3) (cycle_state 0)"
    using loop_step.functors_done [of "cycle_state 3"] by (simp add: cycle_state_def idle_loop_def mkEventLoop_def)
  moreover have "i mod 4 \<in> {0, 1, 2, 3}" by auto
  ultimately show ?thesis by (auto simp: mod_Suc numeral_2_eq_2 numeral_3_eq_3)
qed

lemma length_first_states [simp]: "length first_states = 6"
  by (simp add: first_states_def Let_def)

lemmas first_defs = first_states_def Let_def push_functor_def mkEventLoop_def idle_loop_def numeral_eq_Suc

lemma sample_run_step: "loop_step (\<lambda>f. []) (\<lambda>c. []) 0 (sample_run i) (sample_run (Suc i))"
proof -
  let ?s = "\<lambda>i. first_states ! i" and ?step = "loop_step (\<lambda>f. []) (\<lambda>c. []) 0"
  have 1: "?step (?s 0) (?s 1)"
    using loop_step.other_push [of _ _ _ init_system 7] by (simp add: first_states_def Let_def init_system_def)
  have 2: "?step (?s 1) (?s 2)" using loop_step.enter [of "?s 1"] by (simp add: first_defs)
  have 3: "?step (?s 2) (?s 3)" using loop_step.poll [of "?s 2" 0 "[]"] by (simp add: first_defs)
  have 4: "?step (?s 3) (?s 4)" using loop_step.handled [of "?s 3"] by (simp add: first_defs)
  have 5: "?step (?s 4) (?s 5)" using loop_step.swap [of "?s 4"] by (simp add: first_defs)
  have 6: "?step (?s 5) (cycle_state 3)"
    using loop_step.run_functor [of "?s 5" 7 "[]" "\<lambda>f. []"] by (simp add: first_defs cycle_state_def)
  have first: "i < 5 \<Longrightarrow> ?step (?s i) (?s (i + 1))"
    using 1 2 3 4 5 by (auto simp: less_Suc_eq numeral_eq_Suc)
  consider "i < 5" | "i = 5" | "6 \<le> i" by linarith
  then show ?thesis
  proof cases
    case 1
    then show ?thesis using first by (simp add: sample_run_def)
  next
    case 2
    then show ?thesis using 6 by (simp add: sample_run_def)
  next
    case 3
    then show ?thesis using cycle_state_step [of "i + 1"] by (simp add: sample_run_def)
  qed
qed

lemma sample_run_fair: "\<exists>j \<ge> i. sys_pc (sample_run (Suc j)) \<noteq> sys_pc (sample_run j)"
proof -
  have "sys_pc (cycle_state (Suc k mod 4)) \<noteq> sys_pc (cycle_state (k mod 4))" for k
    by (auto simp: cycle_state_def Let_def mod_Suc)
  from this [of "Suc (i + 6)"] show ?thesis by (intro exI [of _ "i + 6"]) (simp add: sample_run_def)
qed

lemma sample_run_run: "loop_run (\<lambda>f. []) (\<lambda>c. []) 0 sample_run"
  using sample_run_step sample_run_fair by (simp add: loop_run_def) (simp add: sample_run_def first_states_def Let_def)

theorem loop_runs_queued_functors_witness:
  "\<exists>j \<ge> 3. sys_pc (sample_run j) = Head \<and> prefix [7] (functors_run (sample_run j))"
proof -
  have "before_swap (sys_pc (sample_run 3))" "queued (sample_run 3) = [7]"
    by (simp_all add: sample_run_def first_states_def Let_def numeral_eq_Suc)
  moreover have "nests (\<lambda>f. 1) (\<lambda>f. [])" by (simp add: nests_def)
  ultimately show ?thesis using loop_runs_queued_functors [OF sample_run_run, of "\<lambda>f. 1" 3] by auto
qed

theorem loop_no_lost_wakeup_witness:
  "0 < wakeup_count (sys_loop sample_after) \<or> 0 < to_wake sample_after \<or> pendingFunctors (sys_loop sample_after) = queued_outside sample_after"
  by (rule loop_no_lost_wakeup [OF rtranclp_trans [OF sample_reaches_before sample_reaches_after]])
    (simp_all add: sample_after_def)

end
