(* ===== verification/Loop_Threads.thy ===== *)
theory Loop_Threads
  imports Event_Loop
begin

text \<open>
  Threads: \<^verbatim>\<open>AtomicIntegerT\<close> (\<^verbatim>\<open>inc/utils/datastructures/Atomic.hpp\<close>), \<^verbatim>\<open>CurrentThread\<close> and \<^verbatim>\<open>Thread\<close> (\<^verbatim>\<open>inc/utils/thread\<close>,
  \<^verbatim>\<open>src/utils/thread\<close>), and \<^verbatim>\<open>EventLoopThread\<close> (\<^verbatim>\<open>inc/network\<close>, \<^verbatim>\<open>src/network\<close>), which runs an event loop in a thread of its
  own.  The last is a step relation of two threads, the owner of the object and the thread it starts, over the loop that lives on
  the stack of the second.  Lemmas: what the owner is given, and the two ways in which its destructor fails.
\<close>

section \<open>Atomic integers\<close>

definition atomic_get :: "int \<Rightarrow> int" where
  "atomic_get v = v"

definition getAndSet :: "int \<Rightarrow> int \<Rightarrow> int \<times> int" where
  "getAndSet newValue v = (v, newValue)"

definition getAndAdd :: "int \<Rightarrow> int \<Rightarrow> int \<times> int" where
  "getAndAdd x v = (v, to_signed 64 (v + x))"

definition addAndGet :: "int \<Rightarrow> int \<Rightarrow> int \<times> int" where
  "addAndGet x v = (case getAndAdd x v of (old, new) \<Rightarrow> (to_signed 64 (old + x), new))"

definition incrementAndGet :: "int \<Rightarrow> int \<times> int" where
  "incrementAndGet v = addAndGet 1 v"

definition decrementAndGet :: "int \<Rightarrow> int \<times> int" where
  "decrementAndGet v = addAndGet (-1) v"

definition atomic_add :: "int \<Rightarrow> int \<Rightarrow> int" where
  "atomic_add x v = snd (getAndAdd x v)"

definition increment :: "int \<Rightarrow> int" where
  "increment v = snd (incrementAndGet v)"

definition decrement :: "int \<Rightarrow> int" where
  "decrement v = snd (decrementAndGet v)"

text \<open>What \<^verbatim>\<open>addAndGet\<close> returns is what it has stored, for every value and also when the sum wraps around.\<close>

lemma addAndGet_returns_stored: "fst (addAndGet x v) = snd (addAndGet x v)"
  by (simp add: addAndGet_def getAndAdd_def)

text \<open>A decrement undoes an increment, at both ends of the range too.\<close>

lemma decrement_increment: "- (2 ^ 63) \<le> v \<Longrightarrow> v < 2 ^ 63 \<Longrightarrow> decrement (increment v) = v"
  by (cases "v = 2 ^ 63 - 1")
    (simp_all add: decrement_def increment_def decrementAndGet_def incrementAndGet_def addAndGet_def getAndAdd_def to_signed_def)

section \<open>The current thread\<close>

record thread_locals =
  t_cachedTid :: int
  t_tidString :: bytes
  t_tidStringLength :: nat
  t_threadName :: bytes

definition mkThreadLocals :: thread_locals where
  "mkThreadLocals = \<lparr>t_cachedTid = 0, t_tidString = [], t_tidStringLength = 6, t_threadName = ''unknown''\<rparr>"

definition cacheTid :: "int \<Rightarrow> thread_locals \<Rightarrow> thread_locals" where
  "cacheTid gettid t =
     (if t_cachedTid t = 0
      then t\<lparr>t_cachedTid := gettid, t_tidString := take 31 (fmt_blank 5 gettid), t_tidStringLength := length (fmt_blank 5 gettid)\<rparr>
      else t)"

definition thread_tid :: "int \<Rightarrow> thread_locals \<Rightarrow> int \<times> thread_locals" where
  "thread_tid gettid t = (let t1 = (if t_cachedTid t = 0 then cacheTid gettid t else t) in (t_cachedTid t1, t1))"

definition setName :: "bytes \<Rightarrow> thread_locals \<Rightarrow> thread_locals" where
  "setName name t = t\<lparr>t_threadName := name\<rparr>"

definition isMainThread :: "int \<Rightarrow> int \<Rightarrow> thread_locals \<Rightarrow> bool" where
  "isMainThread getpid gettid t \<longleftrightarrow> fst (thread_tid gettid t) = getpid"

definition sleepUsec :: "int \<Rightarrow> int \<times> int" where
  "sleepUsec usec = (c_div usec 1000000, c_mod usec 1000000)"

text \<open>The identifier is asked for once: later calls give the first one, whatever the system would say.\<close>

lemma thread_tid_cached:
  "g \<noteq> 0 \<Longrightarrow> t_cachedTid t = 0 \<Longrightarrow> fst (thread_tid g t) = g \<and> fst (thread_tid g' (snd (thread_tid g t))) = g"
  by (simp add: thread_tid_def cacheTid_def Let_def)

section \<open>Thread\<close>

record Thread =
  th_started :: bool
  th_joined :: bool
  th_tid :: int
  th_name :: bytes

text \<open>The static counter is passed along; the name is built from it when none is given.\<close>

definition setDefaultName :: "int \<Rightarrow> Thread \<Rightarrow> int \<times> Thread" where
  "setDefaultName numCreated t =
     (case incrementAndGet numCreated of
        (num, counter) \<Rightarrow>
          (counter, if th_name t = [] then t\<lparr>th_name := take 31 (''Thread'' @ int_to_string (to_signed 32 num))\<rparr> else t))"

definition mkThread :: "bytes \<Rightarrow> int \<Rightarrow> int \<times> Thread" where
  "mkThread name numCreated = setDefaultName numCreated \<lparr>th_started = False, th_joined = False, th_tid = 0, th_name = name\<rparr>"

text \<open>
  What the new thread does with the function it is given, by how that ends: it returns, or it throws an \<^verbatim>\<open>FKException\<close>, another
  \<^verbatim>\<open>std::exception\<close>, or something else.  The first component is what it stores through \<^verbatim>\<open>tid_\<close> before it counts the latch
  down; the name is the one the thread has at the end.
\<close>

datatype func_end = Returns | Throws_FKException | Throws_std | Throws_other
datatype thread_end = Finished | Aborts | Rethrows

definition runInThread :: "int \<Rightarrow> bytes \<Rightarrow> func_end \<Rightarrow> thread_locals \<Rightarrow> int \<times> thread_locals \<times> thread_end" where
  "runInThread gettid name func t =
     (case thread_tid gettid t of
        (tid, t1) \<Rightarrow>
          let t2 = setName (if name = [] then ''flkeeperThread'' else name) t1 in
          case func of
            Returns \<Rightarrow> (tid, setName ''finished'' t2, Finished)
          | Throws_other \<Rightarrow> (tid, setName ''crashed'' t2, Rethrows)
          | _ \<Rightarrow> (tid, setName ''crashed'' t2, Aborts))"

text \<open>
  \<open>created\<close>: whether \<^verbatim>\<open>pthread_create\<close> succeeded; \<open>tid\<close>: what the new thread has stored before it lets the latch go, after which
  it does not use the object any more.
\<close>

definition thread_start :: "bool \<Rightarrow> int \<Rightarrow> Thread \<Rightarrow> Thread result" where
  "thread_start created tid t =
     rbind (passert (\<not> th_started t)) (\<lambda>_.
       if created
       then let t1 = t\<lparr>th_started := True, th_tid := tid\<rparr> in rbind (passert (0 < th_tid t1)) (\<lambda>_. Inr t1)
       else Inl Fatal_Log)"

definition thread_join :: "bool \<Rightarrow> Thread \<Rightarrow> Thread result" where
  "thread_join joined t =
     rbind (passert (th_started t)) (\<lambda>_. rbind (passert (\<not> th_joined t)) (\<lambda>_.
       if joined then Inr (t\<lparr>th_joined := True\<rparr>) else Inl Fatal_Log))"

text \<open>Started with what the new thread stores, a thread can be joined once, and no assertion fails; a second join does.\<close>

lemma thread_lifecycle:
  assumes "mkThread name n = (n', t)" and "0 < g" and "runInThread g (th_name t) func mkThreadLocals = (tid, locals, e)"
  shows "\<exists>t1 t2. thread_start True tid t = Inr t1 \<and> th_tid t1 = g \<and> thread_start True tid t1 = Inl Assertion_Failed \<and>
           thread_join True t1 = Inr t2 \<and> thread_join True t2 = Inl Assertion_Failed"
proof -
  have "tid = g" using assms(2,3)
    by (cases func) (auto simp: runInThread_def thread_tid_def cacheTid_def mkThreadLocals_def Let_def)
  moreover have "\<not> th_started t" "\<not> th_joined t"
    using assms(1) by (auto simp: mkThread_def setDefaultName_def split: prod.splits if_splits)
  ultimately show ?thesis using assms(2) by (simp add: thread_start_def thread_join_def)
qed

text \<open>Whether the destructor detaches the thread.\<close>

definition thread_detaches :: "Thread \<Rightarrow> bool" where
  "thread_detaches t \<longleftrightarrow> th_started t \<and> \<not> th_joined t"

section \<open>EventLoopThread\<close>

text \<open>
  Where the owner is: before \<^verbatim>\<open>startLoop\<close>, waiting there for the loop, in possession of it, in the destructor between the test of
  \<^verbatim>\<open>loop_\<close> and \<^verbatim>\<open>quit()\<close>, joining, and behind the destructor; \<open>O_fault\<close> when it has called \<^verbatim>\<open>quit()\<close> on a loop that was gone.
\<close>

datatype owner_pc = O_new | O_wait | O_has | O_quit | O_join | O_gone | O_fault

text \<open>Where \<^verbatim>\<open>threadFunc\<close> is.\<close>

datatype thread_pc = T_none | T_create | T_publish | T_enter | T_looping | T_leave | T_destroy | T_done

text \<open>\<open>lt_object\<close> is the loop on the stack of the thread, \<open>lt_ptr\<close> whether \<^verbatim>\<open>loop_\<close> points to it.\<close>

record loop_thread =
  lt_owner :: owner_pc
  lt_thread :: thread_pc
  lt_object :: "EventLoop option"
  lt_ptr :: bool
  lt_exiting :: bool

definition mkEventLoopThread :: loop_thread where
  "mkEventLoopThread = \<lparr>lt_owner = O_new, lt_thread = T_none, lt_object = None, lt_ptr = False, lt_exiting = False\<rparr>"

text \<open>\<open>inside\<close>: whether a functor or a callback of the loop may call \<^verbatim>\<open>quit()\<close>.\<close>

inductive loop_thread_step :: "bool \<Rightarrow> loop_thread \<Rightarrow> loop_thread \<Rightarrow> bool" for inside where
  startLoop: "lt_owner s = O_new \<Longrightarrow> loop_thread_step inside s (s\<lparr>lt_owner := O_wait, lt_thread := T_create\<rparr>)"
| startLoop_returns: "lt_owner s = O_wait \<Longrightarrow> lt_ptr s \<Longrightarrow> loop_thread_step inside s (s\<lparr>lt_owner := O_has\<rparr>)"
| destroy: "lt_owner s = O_has \<or> lt_owner s = O_new \<Longrightarrow>
     loop_thread_step inside s (s\<lparr>lt_exiting := True, lt_owner := (if lt_ptr s then O_quit else O_gone)\<rparr>)"
| destroy_quits: "lt_owner s = O_quit \<Longrightarrow> lt_object s = Some l \<Longrightarrow>
     loop_thread_step inside s (s\<lparr>lt_object := Some (quit_loop False l), lt_owner := O_join\<rparr>)"
| destroy_faults: "lt_owner s = O_quit \<Longrightarrow> lt_object s = None \<Longrightarrow> loop_thread_step inside s (s\<lparr>lt_owner := O_fault\<rparr>)"
| destroy_joins: "lt_owner s = O_join \<Longrightarrow> lt_thread s = T_done \<Longrightarrow> loop_thread_step inside s (s\<lparr>lt_owner := O_gone\<rparr>)"
| create: "lt_thread s = T_create \<Longrightarrow> loop_thread_step inside s (s\<lparr>lt_object := Some mkEventLoop, lt_thread := T_publish\<rparr>)"
| publish: "lt_thread s = T_publish \<Longrightarrow> loop_thread_step inside s (s\<lparr>lt_ptr := True, lt_thread := T_enter\<rparr>)"
| enters: "lt_thread s = T_enter \<Longrightarrow> lt_object s = Some l \<Longrightarrow>
     loop_thread_step inside s (s\<lparr>lt_object := Some (l\<lparr>looping := True, loop_quit := False\<rparr>), lt_thread := T_looping\<rparr>)"
| quits: "inside \<Longrightarrow> lt_thread s = T_looping \<Longrightarrow> lt_object s = Some l \<Longrightarrow>
     loop_thread_step inside s (s\<lparr>lt_object := Some (quit_loop True l)\<rparr>)"
| leaves: "lt_thread s = T_looping \<Longrightarrow> lt_object s = Some l \<Longrightarrow> loop_quit l \<Longrightarrow>
     loop_thread_step inside s (s\<lparr>lt_object := Some (l\<lparr>looping := False\<rparr>), lt_thread := T_leave\<rparr>)"
| unpublish: "lt_thread s = T_leave \<Longrightarrow> loop_thread_step inside s (s\<lparr>lt_ptr := False, lt_thread := T_destroy\<rparr>)"
| ends: "lt_thread s = T_destroy \<Longrightarrow> loop_thread_step inside s (s\<lparr>lt_object := None, lt_thread := T_done\<rparr>)"

abbreviation loop_thread_steps where
  "loop_thread_steps inside \<equiv> (loop_thread_step inside)\<^sup>*\<^sup>*"

inductive_cases loop_thread_stepE: "loop_thread_step inside s t"

section \<open>What holds\<close>

text \<open>The loop is alive while the thread is in it, and \<^verbatim>\<open>loop_\<close> points to nothing else.\<close>

definition lt_inv :: "loop_thread \<Rightarrow> bool" where
  "lt_inv s \<longleftrightarrow>
     (lt_object s \<noteq> None \<longleftrightarrow> lt_thread s \<in> {T_publish, T_enter, T_looping, T_leave, T_destroy}) \<and>
     (lt_ptr s \<longleftrightarrow> lt_thread s \<in> {T_enter, T_looping, T_leave}) \<and>
     (lt_owner s = O_new \<longrightarrow> lt_thread s = T_none) \<and>
     (lt_owner s \<in> {O_has, O_quit, O_join} \<longrightarrow> lt_thread s \<in> {T_enter, T_looping, T_leave, T_destroy, T_done}) \<and>
     (lt_owner s = O_gone \<longrightarrow> lt_thread s \<in> {T_none, T_destroy, T_done})"

lemma lt_step_inv: "loop_thread_step inside s t \<Longrightarrow> lt_inv s \<Longrightarrow> lt_inv t"
  by (induction rule: loop_thread_step.induct) (auto simp: lt_inv_def)

lemma lt_steps_inv: "loop_thread_steps inside mkEventLoopThread s \<Longrightarrow> lt_inv s"
  by (induction rule: rtranclp_induct) (auto intro: lt_step_inv, simp add: lt_inv_def mkEventLoopThread_def)

text \<open>Without a \<^verbatim>\<open>quit()\<close> from inside, the loop can only end once the destructor has called it.\<close>

definition quiet :: "loop_thread \<Rightarrow> bool" where
  "quiet s \<longleftrightarrow>
     lt_owner s \<noteq> O_fault \<and>
     (lt_owner s \<notin> {O_join, O_gone} \<longrightarrow>
        lt_thread s \<in> {T_none, T_create, T_publish, T_enter, T_looping} \<and> (\<forall>l. lt_object s = Some l \<longrightarrow> \<not> loop_quit l)) \<and>
     (lt_owner s = O_gone \<longrightarrow> lt_thread s \<in> {T_none, T_done})"

lemma quiet_step:
  assumes "loop_thread_step False s t" "lt_inv s" "quiet s"
  shows "quiet t"
  using assms
proof (induction rule: loop_thread_step.induct)
  case (destroy s)
  then have "lt_ptr s \<or> lt_thread s = T_none" "lt_ptr s \<longrightarrow> lt_owner s = O_has"
    by (cases "lt_owner s"; auto simp: lt_inv_def quiet_def)+
  then show ?case using destroy by (cases "lt_ptr s") (simp_all add: quiet_def)
next
  case (leaves s l)
  then show ?case by (cases "lt_owner s") (auto simp: lt_inv_def quiet_def)
next
  case (ends s)
  then show ?case by (cases "lt_owner s") (auto simp: lt_inv_def quiet_def)
next
  case (unpublish s)
  then show ?case by (cases "lt_owner s") (auto simp: lt_inv_def quiet_def)
next
  case (destroy_faults s)
  then show ?case by (auto simp: lt_inv_def quiet_def)
qed (auto simp: quiet_def mkEventLoop_def quit_loop_def)

text \<open>
  C32 (safety). As long as nothing in the loop quits it, the owner of an \<^verbatim>\<open>EventLoopThread\<close> only ever deals with a live loop: it never
  calls \<^verbatim>\<open>quit()\<close> on one that is gone, \<^verbatim>\<open>startLoop\<close> returns a loop that is there, and when the destructor is through the thread
  has ended, unless it was never started.
\<close>

theorem event_loop_thread_safe:
  assumes "loop_thread_steps False mkEventLoopThread s"
  shows "lt_owner s \<noteq> O_fault \<and> (lt_owner s = O_has \<longrightarrow> lt_object s \<noteq> None) \<and>
         (lt_owner s = O_gone \<longrightarrow> lt_object s = None \<and> lt_thread s \<in> {T_none, T_done})"
proof -
  have "quiet s" using assms
  proof (induction rule: rtranclp_induct)
    case (step s t)
    then show ?case using quiet_step lt_steps_inv by blast
  qed (simp add: quiet_def mkEventLoopThread_def)
  moreover have "lt_inv s" using assms by (rule lt_steps_inv)
  ultimately show ?thesis by (cases "lt_thread s") (auto simp: quiet_def lt_inv_def)
qed

section \<open>What does not\<close>

text \<open>The owner has the loop, and the thread has yet to enter it.\<close>

definition early :: loop_thread where
  "early = \<lparr>lt_owner = O_has, lt_thread = T_enter, lt_object = Some mkEventLoop, lt_ptr = True, lt_exiting = False\<rparr>"

lemma early_reached: "loop_thread_steps inside mkEventLoopThread early"
proof -
  let ?s1 = "mkEventLoopThread\<lparr>lt_owner := O_wait, lt_thread := T_create\<rparr>"
  let ?s2 = "?s1\<lparr>lt_object := Some mkEventLoop, lt_thread := T_publish\<rparr>"
  let ?s3 = "?s2\<lparr>lt_ptr := True, lt_thread := T_enter\<rparr>"
  have "loop_thread_step inside mkEventLoopThread ?s1" by (rule startLoop) (simp add: mkEventLoopThread_def)
  moreover have "loop_thread_step inside ?s1 ?s2" by (rule create) simp
  moreover have "loop_thread_step inside ?s2 ?s3" by (rule publish) simp
  moreover have "loop_thread_step inside ?s3 early"
    using startLoop_returns [of ?s3] by (simp add: early_def mkEventLoopThread_def)
  ultimately show ?thesis by (meson converse_rtranclp_into_rtranclp rtranclp.rtrancl_refl)
qed

definition hanging :: "loop_thread \<Rightarrow> bool" where
  "hanging s \<longleftrightarrow> lt_owner s = O_join \<and> lt_thread s = T_looping \<and> (\<exists>l. lt_object s = Some l \<and> \<not> loop_quit l)"

lemma hanging_step: "loop_thread_step False s t \<Longrightarrow> hanging s \<Longrightarrow> hanging t"
  by (induction rule: loop_thread_step.induct) (auto simp: hanging_def)

text \<open>
  C39 (liveness). The destructor can wait for ever.  \<^verbatim>\<open>loop()\<close> clears \<^verbatim>\<open>quit_\<close> when it is entered; if \<^verbatim>\<open>startLoop\<close> has returned and the
  destructor calls \<^verbatim>\<open>quit()\<close> before the thread has got there, the request is lost: the thread loops, the owner joins, and neither
  ever does anything else.
\<close>

theorem event_loop_thread_hangs:
  "\<exists>s. loop_thread_steps inside mkEventLoopThread s \<and> lt_exiting s \<and>
       (\<forall>t. loop_thread_steps False s t \<longrightarrow> lt_owner t = O_join \<and> lt_thread t = T_looping)"
proof -
  let ?s1 = "early\<lparr>lt_exiting := True, lt_owner := O_quit\<rparr>"
  let ?s2 = "?s1\<lparr>lt_object := Some (quit_loop False mkEventLoop), lt_owner := O_join\<rparr>"
  let ?s3 = "?s2\<lparr>lt_object := Some ((quit_loop False mkEventLoop)\<lparr>looping := True, loop_quit := False\<rparr>), lt_thread := T_looping\<rparr>"
  have "loop_thread_step inside early ?s1" using destroy [of early] by (simp add: early_def)
  moreover have "loop_thread_step inside ?s1 ?s2" by (rule destroy_quits) (simp_all add: early_def)
  moreover have "loop_thread_step inside ?s2 ?s3" by (rule enters) (simp_all add: early_def)
  ultimately have "loop_thread_steps inside early ?s3" by (meson converse_rtranclp_into_rtranclp rtranclp.rtrancl_refl)
  with early_reached have "loop_thread_steps inside mkEventLoopThread ?s3" by (rule rtranclp_trans)
  moreover have "hanging t" if "loop_thread_steps False ?s3 t" for t
    using that by (induction rule: rtranclp_induct) (auto intro: hanging_step, simp add: hanging_def)
  ultimately show ?thesis by (intro exI [of _ ?s3]) (auto simp: hanging_def early_def)
qed

text \<open>
  With a \<^verbatim>\<open>quit()\<close> from inside, which is how \<^verbatim>\<open>EventLoopThreadPool::stop\<close> ends its loops, the loop can be gone between the
  destructor's test of \<^verbatim>\<open>loop_\<close>, for which it does not take the lock, and its use.
\<close>

lemma event_loop_thread_use_after_free: "\<exists>s. loop_thread_steps True early s \<and> lt_owner s = O_fault"
proof -
  let ?l = "mkEventLoop\<lparr>looping := True, loop_quit := False\<rparr>"
  let ?s1 = "early\<lparr>lt_object := Some ?l, lt_thread := T_looping\<rparr>"
  let ?s2 = "?s1\<lparr>lt_object := Some (quit_loop True ?l)\<rparr>"
  let ?s3 = "?s2\<lparr>lt_object := Some ((quit_loop True ?l)\<lparr>looping := False\<rparr>), lt_thread := T_leave\<rparr>"
  let ?s4 = "?s3\<lparr>lt_exiting := True, lt_owner := O_quit\<rparr>"
  let ?s5 = "?s4\<lparr>lt_ptr := False, lt_thread := T_destroy\<rparr>"
  let ?s6 = "?s5\<lparr>lt_object := None, lt_thread := T_done\<rparr>"
  have "loop_thread_step True early ?s1" by (rule enters) (simp_all add: early_def)
  moreover have "loop_thread_step True ?s1 ?s2" by (rule quits) simp_all
  moreover have "loop_thread_step True ?s2 ?s3" by (rule leaves) (simp_all add: quit_loop_def)
  moreover have "loop_thread_step True ?s3 ?s4" using destroy [of ?s3] by (simp add: early_def)
  moreover have "loop_thread_step True ?s4 ?s5" by (rule unpublish) simp
  moreover have "loop_thread_step True ?s5 ?s6" by (rule ends) simp
  moreover have "loop_thread_step True ?s6 (?s6\<lparr>lt_owner := O_fault\<rparr>)" by (rule destroy_faults) simp_all
  ultimately have "loop_thread_steps True early (?s6\<lparr>lt_owner := O_fault\<rparr>)"
    by (meson converse_rtranclp_into_rtranclp rtranclp.rtrancl_refl)
  then show ?thesis by (intro exI [of _ "?s6\<lparr>lt_owner := O_fault\<rparr>"]) simp
qed

theorem event_loop_thread_hangs_witness:
  "\<exists>s. loop_thread_steps False mkEventLoopThread s \<and> lt_exiting s \<and> lt_owner s = O_join \<and> lt_thread s = T_looping"
  using event_loop_thread_hangs [of False] by blast

theorem event_loop_thread_safe_witness: "lt_owner early \<noteq> O_fault \<and> lt_object early \<noteq> None"
  using event_loop_thread_safe [OF early_reached] by (simp add: early_def)

end
