(* ===== verification/Remote_Send.thy ===== *)
theory Remote_Send
  imports Tcp_Connection Fk_String
begin

text \<open>
  \<^verbatim>\<open>TcpConnection::send\<close> from a thread that is not the loop's (\<^verbatim>\<open>src/network/TcpConnection.cpp\<close>): the call binds what it is given
  into a functor, which the loop runs later, when the memory may have changed.  The memory is that of \<open>Fk_String\<close>; the functor
  is a datatype with the two things that are bound.  Lemmas: only the variant for buffers sends what the caller had.
\<close>

section \<open>The calls\<close>

datatype send_functor = Send_view FKString | Send_string bytes

definition remote_send :: "ptr \<Rightarrow> int \<Rightarrow> ('x, 'k) TcpConnection \<Rightarrow> send_functor option" where
  "remote_send data len c = (if tc_state c = kConnected then Some (Send_view (fk_of_range data len)) else None)"

definition remote_send_view :: "FKString \<Rightarrow> ('x, 'k) TcpConnection \<Rightarrow> send_functor option" where
  "remote_send_view message c = (if tc_state c = kConnected then Some (Send_view message) else None)"

definition remote_send_buffer :: "Buffer \<Rightarrow> ('x, 'k) TcpConnection \<Rightarrow> (send_functor option \<times> Buffer) result" where
  "remote_send_buffer buf c =
     (if tc_state c = kConnected
      then rbind (retrieveAllAsString buf) (\<lambda>(s, buf'). Inr (Some (Send_string s), buf'))
      else Inr (None, buf))"

text \<open>\<^verbatim>\<open>sendInLoop(const FKString&)\<close>, to which a bound string is converted when the functor runs.\<close>

definition sendInLoop_view :: "memory \<Rightarrow> FKString \<Rightarrow> ('x, 'k) TcpConnection \<Rightarrow> ('x, 'k) TcpConnection result" where
  "sendInLoop_view m message c =
     (if tc_state c = kDisconnected then Inr c
      else rbind (load_bytes m (fk_data message) (size_of_int (fk_size message))) (sendInLoop c))"

fun run_send :: "memory \<Rightarrow> send_functor \<Rightarrow> ('x, 'k) TcpConnection \<Rightarrow> ('x, 'k) TcpConnection result" where
  "run_send m (Send_view v) c = sendInLoop_view m v c"
| "run_send m (Send_string s) c = sendInLoop c s"

section \<open>What is sent\<close>

lemma run_send_view:
  assumes "view_ok m v" and "tc_state c = kConnected"
  shows "run_send m (Send_view v) c = sendInLoop c (view m v)"
  using load_view [OF assms(1) order_refl] view_ok_size [OF assms(1)] assms(2)
  by (simp add: sendInLoop_view_def fk_data_def)

lemma run_send_freed:
  assumes "mem_from m (sptr v) = None" and "0 < fk_length v" "fk_length v < 2 ^ 31" and "tc_state c \<noteq> kDisconnected"
  shows "run_send m (Send_view v) c = Inl Out_Of_Bounds"
  using assms by (simp add: sendInLoop_view_def fk_data_def fk_size_def to_signed_id size_of_int_def load_bytes_def)

lemma remote_send_buffer_ok:
  assumes "buf_ok buf" and "tc_state c = kConnected"
  shows "\<exists>buf'. remote_send_buffer buf c = Inr (Some (Send_string (contents buf)), buf') \<and> contents buf' = []"
  using retrieveAsString_ok [OF assms(1) order_refl] assms
  by (auto simp: remote_send_buffer_def retrieveAllAsString_def readableBytes_ok)

lemma sendInLoop_accepted:
  assumes "conn_inv c" and "tc_state c = kConnected" and "buf_used (tc_output c) + length d \<le> vec_max" and "\<not> gives_up c d"
  obtains c' where "sendInLoop c d = Inr c'" "stream c' = stream c @ d"
  using sendInLoop_ok [OF assms(1-3)] assms(4) by auto

text \<open>
  C40 (error). A \<^verbatim>\<open>send\<close> of raw bytes from another thread does not send the bytes the caller passed but those that are in that memory when the
  loop gets to it: if the caller has meanwhile overwritten them, the new ones; if it has freed them, the loop reads freed
  memory.  Only the buffer variant, which copies, appends what there was at the time of the call, whatever the memory is by then.
\<close>

theorem remote_send_reads_later:
  assumes "conn_inv c" and "tc_state c = kConnected"
    and "0 < len" "len < 2 ^ 31" and "m b = Some now" "nat len \<le> length now" and "freed b = None"
    and "buf_ok buf" and "buf_used (tc_output c) + max (nat len) (length (contents buf)) \<le> vec_max"
    and "\<not> gives_up c (take (nat len) now)" "\<not> gives_up c (contents buf)"
  shows "\<exists>f g buf' c1 c2.
           remote_send (Ptr b 0) len c = Some f \<and> remote_send_buffer buf c = Inr (Some g, buf') \<and>
           run_send m f c = Inr c1 \<and> stream c1 = stream c @ take (nat len) now \<and>
           run_send freed f c = Inl Out_Of_Bounds \<and>
           run_send freed g c = Inr c2 \<and> stream c2 = stream c @ contents buf"
proof -
  let ?v = "fk_of_range (Ptr b 0) len"
  have ok: "view_ok m ?v" and v: "view m ?v = take (nat len) now"
    using assms(3-6) by (simp_all add: view_ok_def view_def fk_of_range_def)
  have room: "buf_used (tc_output c) + nat len \<le> vec_max" "buf_used (tc_output c) + length (contents buf) \<le> vec_max"
    using assms(9) by linarith+
  then have fits: "buf_used (tc_output c) + length (take (nat len) now) \<le> vec_max"
    using assms(6) by (simp only: length_take min_absorb2)
  obtain c1 where c1: "sendInLoop c (take (nat len) now) = Inr c1" "stream c1 = stream c @ take (nat len) now"
    by (rule sendInLoop_accepted [OF assms(1,2) fits assms(10)])
  obtain c2 where c2: "sendInLoop c (contents buf) = Inr c2" "stream c2 = stream c @ contents buf"
    by (rule sendInLoop_accepted [OF assms(1,2) room(2) assms(11)])
  have r1: "run_send m (Send_view ?v) c = Inr c1" using run_send_view [OF ok assms(2)] v c1(1) by simp
  have r2: "run_send freed (Send_view ?v) c = Inl Out_Of_Bounds"
    by (rule run_send_freed) (use assms in \<open>simp_all add: fk_of_range_def\<close>)
  obtain buf' where "remote_send_buffer buf c = Inr (Some (Send_string (contents buf)), buf')"
    using remote_send_buffer_ok [OF assms(8,2)] by blast
  moreover have "remote_send (Ptr b 0) len c = Some (Send_view ?v)" using assms(2) by (simp add: remote_send_def)
  moreover have "run_send freed (Send_string (contents buf)) c = Inr c2" using c2(1) by simp
  ultimately show ?thesis using r1 r2 c1(2) c2(2) by blast
qed

definition idle_client :: "(nat, nat) TcpConnection" where
  "idle_client = (mkTcpConnection 5 None [])\<lparr>tc_state := kConnected, tc_channel := enableReading (mkChannel 5)\<rparr>"

lemma idle_client_ok: "conn_inv idle_client" "\<not> gives_up idle_client d" "tc_output idle_client = emptyBuffer" "tc_state idle_client = kConnected"
proof -
  show "conn_inv idle_client" unfolding conn_inv_def is_open_def by (simp add: idle_client_def mkTcpConnection_def)
  show "\<not> gives_up idle_client d"
    by (simp add: gives_up_def send_direct_def idle_client_def mkTcpConnection_def sys_write_def Let_def
        EAGAIN_def EWOULDBLOCK_def EPIPE_def ECONNRESET_def)
qed (simp_all add: idle_client_def mkTcpConnection_def)

theorem remote_send_reads_later_witness:
  "\<exists>f c1. remote_send (Ptr 1 0) 4 idle_client = Some f \<and> run_send [1 \<mapsto> ''gone''] f idle_client = Inr c1 \<and>
     stream c1 = stream idle_client @ ''gone'' \<and> run_send Map.empty f idle_client = Inl Out_Of_Bounds"
proof -
  have "buf_ok emptyBuffer" "contents emptyBuffer = []" by simp_all
  then show ?thesis
    using remote_send_reads_later [OF idle_client_ok(1,4), of 4 "[1 \<mapsto> ''gone'']" 1 "''gone''" Map.empty emptyBuffer]
      idle_client_ok by (auto simp: vec_max_def)
qed

end
