(* ===== verification/Conditions.thy ===== *)
theory Conditions
  imports Monitors Loop_Threads
begin

text \<open>
  The rest of \<^verbatim>\<open>utils/thread\<close>: \<^verbatim>\<open>PCondition\<close> (\<^verbatim>\<open>PCondition.hpp\<close>, \<^verbatim>\<open>PCondition.cpp\<close>) as a step relation over the mutex of \<open>Monitors\<close>,
  with the deadline that \<^verbatim>\<open>waitFor\<close> computes, and \<^verbatim>\<open>ThreadLocal\<close> (\<^verbatim>\<open>ThreadLocal.hpp\<close>) as a map from threads to objects; and the
  stack trace of \<^verbatim>\<open>FKException\<close> (\<^verbatim>\<open>utils/FKException.cpp\<close>), and what \<^verbatim>\<open>ThreadPool\<close> does without threads and with tasks that throw.  Lemmas: a thread owns the mutex, sleeps, or has been woken, never two
  of them; what the recorded holder is worth after a wait; deadlines.
\<close>

section \<open>PCondition\<close>

text \<open>
  \<open>sleeping\<close> and \<open>woken\<close> are the threads in \<^verbatim>\<open>pthread_cond_wait\<close> before and after the notification; the latter wait for the mutex.
  POSIX allows a thread to be woken without a notification.  Neither going to sleep nor coming back touches \<^verbatim>\<open>holder_\<close>.  A notification without a sleeping thread has no effect.
\<close>

record pcondition =
  pc_mutex :: pmutex
  sleeping :: "nat set"
  woken :: "nat set"

definition mkPCondition :: "pmutex \<Rightarrow> pcondition" where
  "mkPCondition m = \<lparr>pc_mutex = m, sleeping = {}, woken = {}\<rparr>"

definition cond_wait :: "nat \<Rightarrow> pcondition \<Rightarrow> pcondition" where
  "cond_wait t c = c\<lparr>pc_mutex := (pc_mutex c)\<lparr>owner := None\<rparr>, sleeping := insert t (sleeping c)\<rparr>"

definition cond_return :: "nat \<Rightarrow> pcondition \<Rightarrow> pcondition" where
  "cond_return t c = c\<lparr>pc_mutex := (pc_mutex c)\<lparr>owner := Some t\<rparr>, woken := woken c - {t}\<rparr>"

definition wake :: "nat \<Rightarrow> pcondition \<Rightarrow> pcondition" where
  "wake t c = c\<lparr>sleeping := sleeping c - {t}, woken := insert t (woken c)\<rparr>"

definition notifyAll :: "pcondition \<Rightarrow> pcondition" where
  "notifyAll c = c\<lparr>sleeping := {}, woken := woken c \<union> sleeping c\<rparr>"

inductive notifyOne :: "pcondition \<Rightarrow> pcondition \<Rightarrow> bool" where
  notifyOne_nobody: "sleeping c = {} \<Longrightarrow> notifyOne c c"
| notifyOne_wakes: "t \<in> sleeping c \<Longrightarrow> notifyOne c (wake t c)"

inductive cond_step :: "pcondition \<Rightarrow> pcondition \<Rightarrow> bool" where
  cond_mutex: "mutex_step (pc_mutex c) m \<Longrightarrow> \<forall>t \<in> sleeping c \<union> woken c. owner m \<noteq> Some t \<Longrightarrow>
     cond_step c (c\<lparr>pc_mutex := m\<rparr>)"
| cond_waits: "owner (pc_mutex c) = Some t \<Longrightarrow> t \<notin> to_assign (pc_mutex c) \<Longrightarrow> cond_step c (cond_wait t c)"
| cond_returns: "t \<in> woken c \<Longrightarrow> owner (pc_mutex c) = None \<Longrightarrow> cond_step c (cond_return t c)"
| cond_notifyOne: "notifyOne c d \<Longrightarrow> cond_step c d"
| cond_notifyAll: "cond_step c (notifyAll c)"
| cond_spurious: "t \<in> sleeping c \<Longrightarrow> cond_step c (wake t c)"

inductive_cases notifyOneE: "notifyOne c d"

text \<open>A thread is in one place at a time.\<close>

definition cond_inv :: "pcondition \<Rightarrow> bool" where
  "cond_inv c \<longleftrightarrow> sleeping c \<inter> woken c = {} \<and> (\<forall>t \<in> sleeping c \<union> woken c. owner (pc_mutex c) \<noteq> Some t)"

lemma cond_step_inv: "cond_step c d \<Longrightarrow> cond_inv c \<Longrightarrow> cond_inv d"
  by (induction rule: cond_step.induct)
    (auto simp: cond_inv_def cond_wait_def cond_return_def notifyAll_def wake_def elim!: notifyOneE)

lemma cond_steps_inv: "cond_step\<^sup>*\<^sup>* (mkPCondition mkPMutex) c \<Longrightarrow> cond_inv c"
  by (induction rule: rtranclp_induct) (auto intro: cond_step_inv, simp add: cond_inv_def mkPCondition_def mkPMutex_def)

text \<open>A thread that wakes up does not go on at once: it has to get the mutex first, and until then whoever owns it has it alone.\<close>

lemma sleeper_waits_for_mutex:
  assumes "cond_step\<^sup>*\<^sup>* (mkPCondition mkPMutex) c" and "cond_step c d" and "t \<in> sleeping c" and "t \<notin> sleeping d"
  shows "t \<in> woken d \<and> owner (pc_mutex d) \<noteq> Some t"
proof -
  have "t \<in> woken d" using assms(2-4)
    by (induction rule: cond_step.induct)
      (auto simp: cond_wait_def cond_return_def notifyAll_def wake_def elim!: notifyOneE)
  moreover have "cond_inv d" using cond_step_inv [OF assms(2)] cond_steps_inv [OF assms(1)] .
  ultimately show ?thesis by (auto simp: cond_inv_def)
qed

text \<open>\<^verbatim>\<open>notifyAll\<close> leaves nobody asleep, and wakes nobody who did not sleep.\<close>

lemma notifyAll_wakes: "sleeping (notifyAll c) = {} \<and> woken (notifyAll c) = woken c \<union> sleeping c"
  by (simp add: notifyAll_def)

text \<open>
  While a thread sleeps the mutex still names it as its holder, and when it comes back after another thread has used the mutex,
  it owns the mutex without being its recorded holder.
\<close>

lemma holder_wrong_after_wait:
  "\<exists>c d. cond_step\<^sup>*\<^sup>* (mkPCondition mkPMutex) c \<and> 1 \<in> sleeping c \<and> isLockedBy 1 (pc_mutex c) \<and>
     cond_step\<^sup>*\<^sup>* c d \<and> owner (pc_mutex d) = Some 1 \<and> \<not> isLockedBy 1 (pc_mutex d)"
proof -
  let ?c0 = "mkPCondition mkPMutex"
  let ?m1 = "mkPMutex\<lparr>owner := Some 1, to_assign := insert 1 (to_assign mkPMutex)\<rparr>"
  let ?m2 = "?m1\<lparr>holder := 1, to_assign := to_assign ?m1 - {1}\<rparr>"
  let ?c1 = "?c0\<lparr>pc_mutex := ?m1\<rparr>"
  let ?c2 = "?c0\<lparr>pc_mutex := ?m2\<rparr>"
  let ?c3 = "cond_wait 1 ?c2"
  let ?m4 = "(pc_mutex ?c3)\<lparr>owner := Some 2, to_assign := insert 2 (to_assign (pc_mutex ?c3))\<rparr>"
  let ?m5 = "?m4\<lparr>holder := 2, to_assign := to_assign ?m4 - {2}\<rparr>"
  let ?c4 = "?c3\<lparr>pc_mutex := ?m4\<rparr>"
  let ?c5 = "?c3\<lparr>pc_mutex := ?m5\<rparr>"
  let ?c6 = "notifyAll ?c5"
  let ?m7 = "(pc_mutex ?c6)\<lparr>owner := None, to_unassign := insert 2 (to_unassign (pc_mutex ?c6))\<rparr>"
  let ?c7 = "?c6\<lparr>pc_mutex := ?m7\<rparr>"
  let ?c8 = "cond_return 1 ?c7"
  note d = mkPCondition_def mkPMutex_def cond_wait_def notifyAll_def cond_return_def
  have "cond_step ?c0 ?c1"
    using cond_mutex [OF mutex_step.locks [of "pc_mutex ?c0" 1]] by (simp add: d)
  moreover have "cond_step ?c1 ?c2"
    using cond_mutex [of ?c1 ?m2] mutex_step.assigns [of 1 ?m1] by (simp add: d)
  moreover have "cond_step ?c2 ?c3" by (rule cond_waits) (simp_all add: d)
  ultimately have start: "cond_step\<^sup>*\<^sup>* ?c0 ?c3" by (meson converse_rtranclp_into_rtranclp rtranclp.rtrancl_refl)
  have "cond_step ?c3 ?c4"
    using cond_mutex [of ?c3 ?m4] mutex_step.locks [of "pc_mutex ?c3" 2] by (simp add: d)
  moreover have "cond_step ?c4 ?c5"
    using cond_mutex [of ?c4 ?m5] mutex_step.assigns [of 2 ?m4] by (simp add: d)
  moreover have "cond_step ?c5 ?c6" by (rule cond_notifyAll)
  moreover have "cond_step ?c6 ?c7"
    using cond_mutex [of ?c6 ?m7] mutex_step.unlocks [of "pc_mutex ?c6" 2] by (simp add: d)
  moreover have "cond_step ?c7 ?c8" by (rule cond_returns) (simp_all add: d)
  ultimately have "cond_step\<^sup>*\<^sup>* ?c3 ?c8" by (meson converse_rtranclp_into_rtranclp rtranclp.rtrancl_refl)
  with start show ?thesis by (intro exI [of _ ?c3] exI [of _ ?c8]) (simp add: d isLockedBy_def)
qed

section \<open>The deadline of a timed wait\<close>

text \<open>
  \<open>now\<close> is what \<^verbatim>\<open>clock_gettime\<close> gives, seconds and nanoseconds; \<open>timedOut\<close> is whether a valid deadline passes in
  \<^verbatim>\<open>pthread_cond_timedwait\<close>, which answers \<^verbatim>\<open>EINVAL\<close>, at once, when the nanoseconds are outside of their range.
\<close>

definition nano :: int where
  "nano = 1000000000"

definition waitFor_deadline :: "int \<times> int \<Rightarrow> int \<Rightarrow> int \<times> int" where
  "waitFor_deadline now sec =
     (let nanoseconds = to_signed 64 (sec * nano) in
      (fst now + c_div (snd now + nanoseconds) nano, c_mod (snd now + nanoseconds) nano))"

definition deadline_valid :: "int \<times> int \<Rightarrow> bool" where
  "deadline_valid d \<longleftrightarrow> 0 \<le> snd d \<and> snd d < nano"

definition waitFor :: "int \<times> int \<Rightarrow> int \<Rightarrow> (int \<times> int \<Rightarrow> bool) \<Rightarrow> bool" where
  "waitFor now sec timedOut \<longleftrightarrow> deadline_valid (waitFor_deadline now sec) \<and> timedOut (waitFor_deadline now sec)"

text \<open>For every number of seconds whose nanoseconds fit into 64 bits, the deadline is that many seconds after now, to the nanosecond.\<close>

lemma waitFor_deadline_exact:
  assumes "0 \<le> sec" and "sec < 9223372036" and "0 \<le> snd now" and "snd now < nano"
  shows "waitFor_deadline now sec = (fst now + sec, snd now) \<and> deadline_valid (waitFor_deadline now sec)"
proof -
  have "to_signed 64 (sec * nano) = sec * nano" using assms(1,2) by (intro to_signed_id) (simp_all add: nano_def)
  moreover have "c_div (snd now + sec * nano) nano = sec"
    by (rule c_div_eq [of _ _ sec "snd now"]) (use assms in simp_all)
  ultimately show ?thesis using assms(3,4) by (simp add: waitFor_deadline_def c_mod_def Let_def deadline_valid_def)
qed

text \<open>A negative number of seconds gives an invalid deadline, so that the call returns at once and says that it has not timed out.\<close>

lemma waitFor_negative:
  assumes "sec < 0" and "- 9223372036 < sec" and "0 < snd now" and "snd now < nano"
  shows "\<not> waitFor now sec timedOut"
proof -
  have fit: "to_signed 64 (sec * nano) = sec * nano" using assms(1,2) by (intro to_signed_id) (simp_all add: nano_def)
  have neg: "snd now + sec * nano < 0" using assms(1,4) by (simp add: nano_def)
  have "\<bar>snd now + sec * nano\<bar> div nano = - sec - 1"
    using assms neg int_div_pos_eq [of "\<bar>snd now + sec * nano\<bar>" nano "- sec - 1" "nano - snd now"]
    by (simp add: nano_def)
  then have "c_div (snd now + sec * nano) nano = sec + 1" using neg by (simp add: c_div_def nano_def)
  then have "c_mod (snd now + sec * nano) nano < 0" using assms(4) by (simp add: c_mod_def nano_def)
  then show ?thesis by (simp add: waitFor_def deadline_valid_def waitFor_deadline_def fit Let_def)
qed

section \<open>ThreadLocal\<close>

text \<open>The values by thread; \<open>fresh\<close> is what \<^verbatim>\<open>new T()\<close> gives.  The destructor of the key runs for a thread that ends.\<close>

type_synonym 'a thread_local = "nat \<rightharpoonup> 'a"

definition tl_value :: "'a \<Rightarrow> nat \<Rightarrow> 'a thread_local \<Rightarrow> 'a \<times> 'a thread_local" where
  "tl_value fresh t m = (case m t of None \<Rightarrow> (fresh, m(t \<mapsto> fresh)) | Some x \<Rightarrow> (x, m))"

definition tl_assign :: "'a \<Rightarrow> nat \<Rightarrow> 'a \<Rightarrow> 'a thread_local \<Rightarrow> 'a thread_local" where
  "tl_assign fresh t x m = (snd (tl_value fresh t m))(t \<mapsto> x)"

definition tl_destructor :: "nat \<Rightarrow> 'a thread_local \<Rightarrow> 'a thread_local" where
  "tl_destructor t m = m(t := None)"

text \<open>What a thread reads is what it last wrote, whatever other threads do in between.\<close>

lemma thread_local_private:
  assumes "t \<noteq> u"
  shows "fst (tl_value fresh t (tl_assign fresh u y (tl_assign fresh t x m))) = x"
    and "fst (tl_value fresh t (tl_destructor u (tl_assign fresh t x m))) = x"
  using assms by (auto simp: tl_value_def tl_assign_def tl_destructor_def split: option.splits)

section \<open>FKException\<close>

text \<open>The trace is made of the symbols \<^verbatim>\<open>backtrace_symbols\<close> gives, if any, each on a line of its own.\<close>

record FKException =
  ex_message :: bytes
  ex_stack :: bytes

definition trace :: "bytes list option \<Rightarrow> FKException \<Rightarrow> FKException" where
  "trace strings e =
     (case strings of
        None \<Rightarrow> e
      | Some ss \<Rightarrow> foldl (\<lambda>e s. e\<lparr>ex_stack := ex_stack e @ s @ [CHR 0x0A]\<rparr>) e (take 200 ss))"

definition mkFKException :: "bytes list option \<Rightarrow> bytes \<Rightarrow> FKException" where
  "mkFKException strings what = trace strings \<lparr>ex_message = what, ex_stack = []\<rparr>"

lemma trace_lines: "ex_stack (mkFKException (Some ss) what) = concat (map (\<lambda>s. s @ [CHR 0x0A]) (take 200 ss))"
proof -
  have "ex_stack (foldl (\<lambda>e s. e\<lparr>ex_stack := ex_stack e @ s @ [CHR 0x0A]\<rparr>) e xs) =
      ex_stack e @ concat (map (\<lambda>s. s @ [CHR 0x0A]) xs)" for e :: FKException and xs
    by (induction xs arbitrary: e) simp_all
  then show ?thesis by (simp add: mkFKException_def trace_def)
qed

section \<open>The thread pool, continued\<close>

text \<open>
  A call of \<^verbatim>\<open>run\<close> on a pool of \<open>n\<close> threads: without threads the caller executes the task itself, in any state of the pool; the first
  component has the tasks executed in this way.  Otherwise the caller joins those that are about to queue their tasks.
\<close>

definition pool_run :: "nat \<Rightarrow> 'a \<Rightarrow> 'a thread_pool \<Rightarrow> 'a list \<times> 'a thread_pool" where
  "pool_run n x p = (if n = 0 then ([x], p) else ([], p\<lparr>ready_runners := add_mset x (ready_runners p)\<rparr>))"

definition pool_destroy :: "'a thread_pool \<Rightarrow> 'a thread_pool" where
  "pool_destroy p = (if tp_running p then pool_stops p else p)"

text \<open>The end of a task in \<^verbatim>\<open>runInThread\<close>: the worker goes on if the task has returned, and the process ends if it has thrown.\<close>

definition worker_task_ends :: "func_end \<Rightarrow> 'a \<Rightarrow> 'a thread_pool \<Rightarrow> thread_end + 'a thread_pool" where
  "worker_task_ends e x p =
     (case e of
        Returns \<Rightarrow> Inr (p\<lparr>busy := busy p - {#x#}, at_head := Suc (at_head p)\<rparr>)
      | Throws_other \<Rightarrow> Inl Rethrows
      | _ \<Rightarrow> Inl Aborts)"

text \<open>What these do in a pool that goes on are steps of the relation of \<open>Monitors\<close>, so that what it keeps is kept.\<close>

lemma pool_calls_are_steps:
  shows "0 < n \<Longrightarrow> pool_run n x p = (ts, p') \<Longrightarrow> pool_step p p'"
    and "x \<in># busy p \<Longrightarrow> worker_task_ends e x p = Inr p' \<Longrightarrow> pool_step p p'"
    and "tp_running p \<Longrightarrow> pool_step p (pool_destroy p)"
  by (auto simp: pool_run_def pool_destroy_def worker_task_ends_def split: func_end.splits
      intro: pool_step.call_run pool_step.stops pool_step.task_ends)

text \<open>After the destructor no thread is left waiting, whether or not the pool had been stopped before.\<close>

lemma pool_destroy_wakes: "pool_inv n p \<Longrightarrow> waiting_workers (pool_destroy p) = 0 \<and> waiting_runners (pool_destroy p) = {#}"
  by (auto simp: pool_destroy_def pool_stops_def pool_inv_def)

end
