(* ===== verification/Log_Life.thy ===== *)
theory Log_Life
  imports Log_Pipeline
begin

text \<open>
  The log statements and the life of the asynchronous log: the macros of \<^verbatim>\<open>inc/utils/log/Logging.hpp\<close> with the level they test and
  the constructor they call, and \<^verbatim>\<open>start\<close>, \<^verbatim>\<open>stop\<close> and the loop of the writing thread of \<^verbatim>\<open>AsyncLogging\<close> as a step relation over the
  operations of \<open>Log_Pipeline\<close>.  Lemmas: which statements print, that fatal ones end the process, and what is in the file when
  the asynchronous log has stopped.
\<close>

section \<open>Log statements\<close>

datatype log_macro = LOG_TRACE | LOG_DEBUG | LOG_INFO | LOG_WARN | LOG_ERROR | LOG_FATAL | LOG_SYSERR | LOG_SYSFATAL

fun level_value :: "LogLevel \<Rightarrow> nat" where
  "level_value TRACE = 0"
| "level_value DEBUG = 1"
| "level_value INFO = 2"
| "level_value WARN = 3"
| "level_value ERROR = 4"
| "level_value FATAL = 5"

fun macro_level :: "log_macro \<Rightarrow> LogLevel" where
  "macro_level LOG_TRACE = TRACE"
| "macro_level LOG_DEBUG = DEBUG"
| "macro_level LOG_INFO = INFO"
| "macro_level LOG_WARN = WARN"
| "macro_level LOG_ERROR = ERROR"
| "macro_level LOG_FATAL = FATAL"
| "macro_level LOG_SYSERR = ERROR"
| "macro_level LOG_SYSFATAL = FATAL"

text \<open>Only the first three macros test the level of the program.\<close>

fun macro_prints :: "LogLevel \<Rightarrow> log_macro \<Rightarrow> bool" where
  "macro_prints g LOG_TRACE = (level_value g \<le> level_value TRACE)"
| "macro_prints g LOG_DEBUG = (level_value g \<le> level_value DEBUG)"
| "macro_prints g LOG_INFO = (level_value g \<le> level_value INFO)"
| "macro_prints g m = True"

definition macro_func :: "log_macro \<Rightarrow> bool" where
  "macro_func m \<longleftrightarrow> m = LOG_TRACE \<or> m = LOG_DEBUG"

definition macro_errno :: "log_macro \<Rightarrow> int \<Rightarrow> int" where
  "macro_errno m errno = (if m = LOG_SYSERR \<or> m = LOG_SYSFATAL then errno else 0)"

text \<open>The statement as a whole; its result has the line it prints, if any.\<close>

definition log_statement ::
  "LogLevel \<Rightarrow> log_macro \<Rightarrow> int \<Rightarrow> bytes \<Rightarrow> TimeStamp \<Rightarrow> bytes \<Rightarrow> bytes \<Rightarrow> int \<Rightarrow> bytes \<Rightarrow> log_thread \<Rightarrow>
   (log_thread \<times> bytes option) result" where
  "log_statement g m errno strerror now func file line msg th =
     (if \<not> macro_prints g m then Inr (th, None)
      else rbind (logger_Impl (macro_level m) (macro_errno m errno) strerror now th) (\<lambda>(th1, b1).
           rbind (if macro_func m then rbind (put_cstr (Some func) b1) (put_char CHR '' '') else Inr b1) (\<lambda>b2.
           rbind (put_string msg b2) (\<lambda>b3.
           rbind (logger_finish (SourceFile file) line b3) (\<lambda>out.
             if macro_level m = FATAL then Inl Fatal_Log else Inr (th1, Some out))))))"

text \<open>Without a function's name the statement is \<^const>\<open>log_line\<close>.\<close>

lemma log_statement_line:
  assumes "macro_prints g m" and "\<not> macro_func m"
  shows "log_statement g m errno strerror now func file line msg th =
           rbind (log_line (macro_level m) (macro_errno m errno) strerror now file line msg th) (\<lambda>(th1, out). Inr (th1, Some out))"
  using assms
  by (auto simp: log_statement_def log_line_def rbind_def split: sum.splits prod.splits)

text \<open>
  \<^verbatim>\<open>LOG_FATAL\<close> and \<^verbatim>\<open>LOG_SYSFATAL\<close> never return to the code behind them, whatever the level, the message and the state of the
  thread, and no other statement ends the process unless printing itself fails.
\<close>

lemma fatal_statement_does_not_return:
  assumes "macro_level m = FATAL"
  shows "\<exists>e. log_statement g m errno strerror now func file line msg th = Inl e"
proof -
  have "macro_prints g m" using assms by (cases m) simp_all
  then show ?thesis using assms
    by (auto simp: log_statement_def rbind_def split: sum.splits)
qed

lemma statement_prints:
  assumes "log_statement g m errno strerror now func file line msg th = Inr (th', out)"
  shows "out \<noteq> None \<longleftrightarrow> macro_prints g m"
  using assms by (auto simp: log_statement_def rbind_def split: sum.splits if_splits prod.splits)

text \<open>No level suppresses warnings and errors, and a higher level prints no more than a lower one.\<close>

lemma macro_prints_mono: "level_value g \<le> level_value g' \<Longrightarrow> macro_prints g' m \<Longrightarrow> macro_prints g m"
  by (cases m) auto

section \<open>The life of the asynchronous log\<close>

text \<open>
  Where the writing thread is: not started, at the head of its loop, between the swap and the end of the writing, or done.  The
  wait for \<^verbatim>\<open>flushInterval_\<close> seconds is limited, so that the thread always gets to the swap.  \<open>al_logged\<close> and \<open>al_taken\<close> record
  what has been logged so far, and how much of it by the last swap.
\<close>

datatype back_pc = B_none | B_head | B_write | B_done

record async_system =
  al_state :: AsyncLogging
  al_running :: bool
  back_at :: back_pc
  al_joined :: bool
  al_logged :: bytes
  al_taken :: nat

definition mkAsyncSystem :: async_system where
  "mkAsyncSystem = \<lparr>al_state = mkAsyncLogging, al_running = False, back_at = B_none, al_joined = False, al_logged = [], al_taken = 0\<rparr>"

text \<open>\<^verbatim>\<open>start\<close> returns once the thread has passed its first assertion; \<^verbatim>\<open>stop\<close> asks for the end, and then joins.\<close>

definition async_start :: "async_system \<Rightarrow> async_system" where
  "async_start s = s\<lparr>al_running := True, back_at := B_head\<rparr>"

definition async_stop :: "async_system \<Rightarrow> async_system" where
  "async_stop s = s\<lparr>al_running := False\<rparr>"

inductive async_step :: "async_system \<Rightarrow> async_system \<Rightarrow> bool" where
  appends: "async_append l (al_state s) = Inr a \<Longrightarrow> length l < largeBufferLen \<Longrightarrow>
     async_step s (s\<lparr>al_state := a, al_logged := al_logged s @ l\<rparr>)"
| async_starts: "back_at s = B_none \<Longrightarrow> async_step s (async_start s)"
| async_swaps: "back_at s = B_head \<Longrightarrow> al_running s \<Longrightarrow> async_swap (al_state s) = Inr a \<Longrightarrow>
     async_step s (s\<lparr>al_state := a, back_at := B_write, al_taken := length (al_logged s)\<rparr>)"
| async_writes: "back_at s = B_write \<Longrightarrow> async_write msg (al_state s) = Inr a \<Longrightarrow>
     async_step s (s\<lparr>al_state := a, back_at := B_head\<rparr>)"
| async_ends: "back_at s = B_head \<Longrightarrow> \<not> al_running s \<Longrightarrow> async_step s (s\<lparr>back_at := B_done\<rparr>)"
| async_stops: "back_at s \<noteq> B_none \<Longrightarrow> \<not> al_joined s \<Longrightarrow> async_step s (async_stop s)"
| async_joins: "back_at s = B_done \<Longrightarrow> \<not> al_running s \<Longrightarrow> async_step s (s\<lparr>al_joined := True\<rparr>)"

definition life_inv :: "async_system \<Rightarrow> bool" where
  "life_inv s \<longleftrightarrow>
     async_inv (al_logged s) (al_state s) \<and>
     (buffersToWrite (al_state s) \<noteq> None \<longleftrightarrow> back_at s = B_write) \<and>
     (back_at s = B_none \<longrightarrow> al_taken s = 0) \<and> al_taken s \<le> length (al_logged s) \<and>
     (\<not> al_dropped (al_state s) \<longrightarrow>
        al_output (al_state s) @ concat (case buffersToWrite (al_state s) of None \<Rightarrow> [] | Some ws \<Rightarrow> ws) =
        take (al_taken s) (al_logged s))"

lemma async_append_keeps:
  "async_append l a = Inr a' \<Longrightarrow>
     buffersToWrite a' = buffersToWrite a \<and> al_output a' = al_output a \<and> al_dropped a' = al_dropped a"
  by (auto simp: async_append_def Let_def result_iff split: if_splits option.splits)

lemma async_swap_result:
  "async_swap a = Inr a' \<Longrightarrow> async_inv d a \<Longrightarrow>
     buffersToWrite a' = Some (al_buffers a @ [currentBuffer a]) \<and> al_output a' = al_output a \<and> al_dropped a' = al_dropped a"
  by (auto simp: async_swap_def Let_def result_iff split: if_splits)

lemma async_write_result:
  assumes "async_write msg a = Inr a'" and "buffersToWrite a = Some ws"
  shows "buffersToWrite a' = None \<and> (\<not> al_dropped a' \<longrightarrow> \<not> al_dropped a \<and> al_output a' = al_output a @ concat ws)"
  using assms by (auto simp: async_write_def Let_def result_iff split: if_splits prod.splits)

lemma async_step_inv:
  assumes "async_step s t" and "life_inv s"
  shows "life_inv t"
  using assms
proof (induction rule: async_step.induct)
  case (appends l s a)
  then obtain a1 where "async_append l (al_state s) = Inr a1" "async_inv (al_logged s @ l) a1"
    using async_append_inv [of "al_logged s" "al_state s" l] by (auto simp: life_inv_def)
  then show ?case using appends async_append_keeps [OF appends(1)] by (simp add: life_inv_def)
next
  case (async_swaps s a)
  let ?a = "al_state s"
  have none: "buffersToWrite ?a = None" and inv: "async_inv (al_logged s) ?a" using async_swaps by (simp_all add: life_inv_def)
  obtain a1 where "async_swap ?a = Inr a1" "async_inv (al_logged s) a1" using async_swap_inv [OF inv none] by blast
  moreover have "\<not> al_dropped ?a \<longrightarrow> al_output ?a @ concat (al_buffers ?a) @ currentBuffer ?a = al_logged s"
    using inv none by (simp add: async_inv_def al_pending_def)
  ultimately show ?case using async_swaps async_swap_result [OF async_swaps(3) inv] by (simp add: life_inv_def)
next
  case (async_writes s msg a)
  then obtain ws where ws: "buffersToWrite (al_state s) = Some ws" by (auto simp: life_inv_def)
  have inv: "async_inv (al_logged s) (al_state s)" using async_writes by (simp add: life_inv_def)
  obtain a1 where "async_write msg (al_state s) = Inr a1" "async_inv (al_logged s) a1"
    using async_write_inv [OF inv ws] by blast
  then show ?case using async_writes async_write_result [OF async_writes(2) ws] ws by (auto simp: life_inv_def)
qed (auto simp: life_inv_def async_start_def async_stop_def)

lemma life_inv_init: "life_inv mkAsyncSystem"
  by (simp add: life_inv_def mkAsyncSystem_def mkAsyncLogging_def async_inv_def al_pending_def largeBufferLen_def)

lemma async_steps_inv: "async_step\<^sup>*\<^sup>* mkAsyncSystem s \<Longrightarrow> life_inv s"
  by (induction rule: rtranclp_induct) (auto intro: life_inv_init async_step_inv)

text \<open>
  C25 (safety). In every history of the asynchronous log no step of it can fail: a line can always be appended, and the writing thread,
  until it has ended, can always go on.  Unless it fell behind and dropped buffers, the file has exactly what had been logged when
  the thread last took the buffers: when it has ended after \<^verbatim>\<open>stop()\<close>, lines logged after that are lost.
\<close>

theorem async_log_life:
  assumes "async_step\<^sup>*\<^sup>* mkAsyncSystem s"
  shows "(length l < largeBufferLen \<longrightarrow> (\<exists>a. async_append l (al_state s) = Inr a)) \<and>
         (back_at s = B_head \<longrightarrow> (\<exists>a. async_swap (al_state s) = Inr a)) \<and>
         (back_at s = B_write \<longrightarrow> (\<exists>a. async_write msg (al_state s) = Inr a)) \<and>
         (back_at s \<noteq> B_write \<and> \<not> al_dropped (al_state s) \<longrightarrow> al_output (al_state s) = take (al_taken s) (al_logged s))"
proof -
  have inv: "life_inv s" using assms by (rule async_steps_inv)
  have "\<exists>a. async_write msg (al_state s) = Inr a" if w: "back_at s = B_write"
  proof -
    obtain ws where "buffersToWrite (al_state s) = Some ws" using inv w by (auto simp: life_inv_def)
    then show ?thesis using async_write_inv [of "al_logged s" "al_state s" ws msg] inv by (auto simp: life_inv_def)
  qed
  moreover have "\<exists>a. async_swap (al_state s) = Inr a" if "back_at s = B_head"
    using async_swap_inv [of "al_logged s" "al_state s"] inv that by (auto simp: life_inv_def)
  moreover have "length l < largeBufferLen \<longrightarrow> (\<exists>a. async_append l (al_state s) = Inr a)"
    using async_append_inv [of "al_logged s" "al_state s" l] inv by (auto simp: life_inv_def)
  ultimately show ?thesis using inv by (auto simp: life_inv_def)
qed

text \<open>A line that is logged just before \<^verbatim>\<open>stop()\<close> does not get into the file.\<close>

definition stopped :: async_system where
  "stopped = mkAsyncSystem\<lparr>al_state := mkAsyncLogging\<lparr>currentBuffer := ''late''\<rparr>, al_logged := ''late'', back_at := B_done\<rparr>"

lemma stopped_reached: "async_step\<^sup>*\<^sup>* mkAsyncSystem stopped"
proof -
  let ?s1 = "async_start mkAsyncSystem"
  let ?s2 = "?s1\<lparr>al_state := mkAsyncLogging\<lparr>currentBuffer := ''late''\<rparr>, al_logged := al_logged ?s1 @ ''late''\<rparr>"
  let ?s3 = "async_stop ?s2"
  have "async_step mkAsyncSystem ?s1" by (rule async_starts) (simp add: mkAsyncSystem_def)
  moreover have "async_step ?s1 ?s2"
    by (rule appends) (simp_all add: async_start_def mkAsyncSystem_def mkAsyncLogging_def async_append_def fixed_avail_def append_fits largeBufferLen_def)
  moreover have "async_step ?s2 ?s3" by (rule async_stops) (simp_all add: async_start_def mkAsyncSystem_def)
  moreover have "async_step ?s3 stopped" using async_ends [of ?s3] by (simp add: stopped_def async_start_def async_stop_def mkAsyncSystem_def)
  ultimately show ?thesis by (meson converse_rtranclp_into_rtranclp rtranclp.rtrancl_refl)
qed

theorem async_log_life_witness:
  "al_output (al_state stopped) = [] \<and> al_logged stopped = ''late'' \<and> back_at stopped = B_done \<and>
   (\<exists>a. async_append ''later'' (al_state stopped) = Inr a)"
proof -
  have f: "\<not> al_dropped (al_state stopped)" "back_at stopped = B_done" "al_taken stopped = 0" "al_logged stopped = ''late''"
    by (simp_all add: stopped_def mkAsyncSystem_def mkAsyncLogging_def)
  moreover have "length ''later'' < largeBufferLen" by (simp add: largeBufferLen_def)
  ultimately show ?thesis using async_log_life [OF stopped_reached, of "''later''" "[]"] by simp
qed

end
