(* ===== verification/Download_Delivery.thy ===== *)
theory Download_Delivery
  imports App_Download
begin

text \<open>
  A download from its first write-complete callback to its end: the turns of the event loop for one connection, in which it runs the
  next queued functor or, without one, finds the socket writable, against a kernel that takes some bytes each time.  This puts
  together \<^verbatim>\<open>TcpConnection\<close> (\<open>Tcp_Connection\<close>), \<^verbatim>\<open>FileDownContext\<close> (\<open>File_Contexts\<close>) and the write callback of the application
  (\<open>App_Download\<close>).  Lemmas: what a turn does in each phase, a rank that decreases with every turn, and that the client gets the file.
\<close>

section \<open>Turns of the loop\<close>

text \<open>
  \<open>n\<close> is the room the kernel has for this connection during the turn, \<open>ev\<close> whether the poller reports the socket as writable
  before the loop gets to the next functor; it does so only while the channel is watched for writing.  When the connection writes
  a second time in the same turn the kernel has no more room.
\<close>

definition loop_turn :: "nat \<times> bool \<Rightarrow> 'd App \<times> Conn \<Rightarrow> ('d App \<times> Conn) result" where
  "loop_turn = (\<lambda>(n, ev) (a, c).
     let c0 = c\<lparr>sk_replies := [Write_Ok n]\<rparr> in
     if (ev \<or> tc_pending c = []) \<and> isWriting (tc_channel c)
     then rbind (handleWrite c0) (\<lambda>c'. Inr (a, c'))
     else case tc_pending c of
            [] \<Rightarrow> Inr (a, c)
          | T_writeComplete cb # fs \<Rightarrow> rbind (run_pending c0) (on_write_complete cb a)
          | _ \<Rightarrow> rbind (run_pending c0) (\<lambda>c'. Inr (a, c')))"

fun loop_turns :: "(nat \<times> bool) list \<Rightarrow> 'd App \<times> Conn \<Rightarrow> ('d App \<times> Conn) result" where
  "loop_turns [] s = Inr s"
| "loop_turns (t # ts) s = rbind (loop_turn t s) (loop_turns ts)"

section \<open>Sending and draining with a kernel that takes some bytes\<close>

definition on_way :: "'k \<Rightarrow> ('x, 'k) TcpConnection \<Rightarrow> bool" where
  "on_way cb c \<longleftrightarrow> conn_inv c \<and> tc_state c = kConnected \<and> tc_writeCompleteCallback c = Some cb \<and> \<not> tc_highWaterMarkCallback c"

lemma on_way_cong [simp]:
  "on_way cb (c\<lparr>sk_replies := rs\<rparr>) = on_way cb c" "on_way cb (c\<lparr>tc_pending := p\<rparr>) = on_way cb c"
  "on_way cb (emit evs c) = on_way cb c" "on_way cb (c\<lparr>sk_wire := w\<rparr>) = on_way cb c" "on_way cb (queueInLoop f c) = on_way cb c"
  by (simp_all add: on_way_def) (simp_all add: emit_def queueInLoop_def)

lemma on_way_idle:
  assumes "on_way cb c" and "contents (tc_output c) = []"
  shows "\<not> sk_shut c" "\<not> isWriting (tc_channel c)" "readableBytes (tc_output c) = 0" "buf_ok (tc_output c)"
proof -
  note k = inv_connected [of c]
  show "\<not> sk_shut c" "buf_ok (tc_output c)" using k assms(1) by (auto simp: on_way_def)
  then show "readableBytes (tc_output c) = 0" using assms(2) readable_contents [of "tc_output c"] by simp
  show "\<not> isWriting (tc_channel c)" using inv_writing [of c] assms by (auto simp: on_way_def)
qed

lemma sendInLoop_takes_all:
  assumes "on_way cb c" and "contents (tc_output c) = []" and "sk_replies c = [Write_Ok n]" and "length d \<le> n"
  shows "\<exists>c'. sendInLoop c d = Inr c' \<and> on_way cb c' \<and> stream c' = stream c @ d \<and> tc_output c' = tc_output c \<and>
           tc_pending c' = tc_pending c @ [T_writeComplete cb]"
proof -
  let ?c = "queueInLoop (T_writeComplete cb) (c\<lparr>sk_replies := [], sk_wire := sk_wire c @ d\<rparr>)"
  have "sendInLoop c d = Inr ?c"
    using on_way_idle [OF assms(1,2)] assms
    by (simp add: sendInLoop_def send_direct_def sys_write_def on_way_def min_absorb2 sz_sub_exact)
  moreover have "on_way cb ?c" "stream ?c = stream c @ d" using assms(1,2) by (simp_all, simp add: stream_def)
  ultimately show ?thesis by (simp add: queueInLoop_def)
qed

lemma sendInLoop_takes_some:
  assumes "on_way cb c" and "contents (tc_output c) = []" and "sk_replies c = [Write_Ok n]" and "n < length d"
    and "buf_used (tc_output c) + length d \<le> vec_max"
  shows "\<exists>c'. sendInLoop c d = Inr c' \<and> on_way cb c' \<and> stream c' = stream c @ d \<and>
           contents (tc_output c') = drop n d \<and> tc_pending c' = tc_pending c"
proof -
  note idle = on_way_idle [OF assms(1,2)]
  let ?c1 = "c\<lparr>sk_replies := [], sk_wire := sk_wire c @ take n d\<rparr>"
  have "buf_used (tc_output c) + length (drop n d) \<le> vec_max" using assms(5) by simp
  then obtain out where out: "append_buf (tc_output c) (drop n d) = Inr out" "buf_ok out" "contents out = drop n d"
    using append_buf_ok [OF idle(4), of "drop n d"] assms(2) by auto
  let ?c2 = "set_channel (enableWriting (tc_channel ?c1)) (?c1\<lparr>tc_output := out\<rparr>)"
  have inv1: "conn_inv ?c1" using assms(1) by (simp add: on_way_def)
  have inv2: "conn_inv ?c2"
    using buffered_ok [OF inv1 _ out(2)] assms(1,4) idle(2) out(3) by (simp add: on_way_def)
  have "handleWrite ?c2 = Inr (?c2\<lparr>sk_errno := EAGAIN\<rparr>)"
    using idle(1) by (simp add: handleWrite_def sys_write_def set_channel_def emit_def)
  moreover have "sendInLoop c d = handleWrite ?c2"
    using idle assms out(1)
    by (simp add: sendInLoop_def send_direct_def sys_write_def on_way_def sz_sub_exact note_high_water_def buffer_rest_def Let_def)
  ultimately show ?thesis
    using inv2 assms(1,2) out(3) by (simp add: on_way_def stream_def set_channel_def emit_def)
qed

lemma retrieve_all_used: "retrieve b (readableBytes b) = Inr b' \<Longrightarrow> buf_used b' = kCheapPrepend"
  by (auto simp: retrieve_def retrieveAll_def buf_used_def)

lemma handleWrite_takes_some:
  assumes "on_way cb c" and "contents (tc_output c) \<noteq> []" and "sk_replies c = [Write_Ok n]" and "0 < n"
  shows "\<exists>c'. handleWrite c = Inr c' \<and> on_way cb c' \<and> stream c' = stream c \<and>
           contents (tc_output c') = drop n (contents (tc_output c)) \<and>
           (if length (contents (tc_output c)) \<le> n
            then tc_pending c' = tc_pending c @ [T_writeComplete cb] \<and> buf_used (tc_output c') = kCheapPrepend
            else tc_pending c' = tc_pending c @ [T_handleWrite])"
proof -
  let ?out = "contents (tc_output c)"
  define m where "m = min n (length ?out)"
  have inv: "conn_inv c" using assms(1) by (simp add: on_way_def)
  have w: "isWriting (tc_channel c)" using inv_open [OF inv] assms(1,2) by (simp add: on_way_def is_open_def)
  have shut: "\<not> sk_shut c" and ok: "buf_ok (tc_output c)" using inv_connected [OF inv] assms(1) by (auto simp: on_way_def)
  define c1 where "c1 = c\<lparr>sk_replies := [], sk_wire := sk_wire c @ take m ?out\<rparr>"
  have m: "0 < m" "m \<le> length ?out" using assms(2,4) by (auto simp: m_def)
  obtain out where o: "retrieve (tc_output c1) m = Inr out" "contents out = drop m ?out" "readableBytes out = length (contents out)"
    "stream (c1\<lparr>tc_output := out\<rparr>) = stream c"
    "contents out = [] \<Longrightarrow> conn_inv (set_channel (disableWriting (tc_channel c1)) (c1\<lparr>tc_output := out\<rparr>))"
    "contents out \<noteq> [] \<Longrightarrow> conn_inv (c1\<lparr>tc_output := out\<rparr>)"
    using drained_ok [OF inv w m c1_def] by metis
  have "take n ?out = take m ?out" by (simp add: m_def min_def)
  then have sw: "sys_write c (out_bytes c) = (int m, c1)"
    using shut assms(3) by (simp add: sys_write_def out_bytes_contents [OF ok] m_def c1_def)
  have d: "drop m ?out = drop n ?out" by (simp add: m_def min_def)
  have st: "tc_state c1 = kConnected" "tc_writeCompleteCallback c1 = Some cb" "\<not> tc_highWaterMarkCallback c1"
    "tc_pending c1 = tc_pending c"
    using assms(1) by (simp_all add: c1_def on_way_def)
  show ?thesis
  proof (cases "length ?out \<le> n")
    case True
    then have e: "contents out = []" "m = length ?out" using o(2) d by (simp_all add: m_def)
    then have "buf_used out = kCheapPrepend"
      using o(1) ok by (intro retrieve_all_used [of "tc_output c"]) (simp add: c1_def readable_contents)
    then show ?thesis
      using True w sw m(1) o(1,3) o(4) o(5) [OF e(1)] e(1) st
      by (simp add: handleWrite_def on_way_def Let_def stream_def set_channel_def emit_def queueInLoop_def conn_inv_def is_open_def)
  next
    case False
    then have e: "contents out \<noteq> []" using o(2) d by simp
    then show ?thesis
      using False w sw m(1) o(1-3) o(4) o(6) [OF e] st d
      by (simp add: handleWrite_def on_way_def Let_def stream_def queueInLoop_def conn_inv_def is_open_def)
  qed
qed

section \<open>The phases of a download\<close>

text \<open>
  Either the callback is queued and nothing is in the buffer, or bytes are in the buffer and the socket is watched for writing; in both
  cases functors that write may be left in the queue from before.
\<close>

definition delivering :: "nat \<Rightarrow> bytes \<Rightarrow> 'd App \<Rightarrow> Conn \<Rightarrow> bool" where
  "delivering k whole a c \<longleftrightarrow>
     on_way (Cb_download k) c \<and> k < length (ap_downs a) \<and> down_ok (ap_downs a ! k) \<and>
     stream c @ drop (dc_currentPosition (ap_downs a ! k)) (dc_data (ap_downs a ! k)) = whole \<and>
     (\<exists>j. tc_pending c = replicate j T_handleWrite @ (if contents (tc_output c) = [] then [T_writeComplete (Cb_download k)] else [])) \<and>
     (contents (tc_output c) = [] \<longrightarrow> buf_used (tc_output c) + chunkSize \<le> vec_max)"

definition delivered :: "nat \<Rightarrow> bytes \<Rightarrow> 'd App \<Rightarrow> Conn \<Rightarrow> bool" where
  "delivered k whole a c \<longleftrightarrow>
     tc_state c = kDisconnecting \<and> sk_shut c \<and> sk_wire c = whole \<and> dc_isComplete (ap_downs a ! k)"

definition rank :: "nat \<Rightarrow> 'd App \<Rightarrow> Conn \<Rightarrow> nat" where
  "rank k a c =
     4 * (dc_fileSize (ap_downs a ! k) - dc_currentPosition (ap_downs a ! k)) + 2 * length (contents (tc_output c)) + length (tc_pending c)"

text \<open>A write with bytes in the buffer, by the poller or by a functor that has just been taken from the queue.\<close>

lemma write_drains:
  assumes "delivering k whole a c" and "contents (tc_output c) \<noteq> []" and "0 < n"
    and "js \<le> j" and "tc_pending c = replicate j T_handleWrite"
  shows "\<exists>c'. handleWrite (c\<lparr>sk_replies := [Write_Ok n], tc_pending := replicate js T_handleWrite\<rparr>) = Inr c' \<and>
           delivering k whole a c' \<and> rank k a c' < rank k a c"
proof -
  let ?c0 = "c\<lparr>sk_replies := [Write_Ok n], tc_pending := replicate js T_handleWrite\<rparr>"
  have "on_way (Cb_download k) ?c0" using assms(1) by (simp add: delivering_def)
  from handleWrite_takes_some [OF this _ _ assms(3)] obtain c' where c': "handleWrite ?c0 = Inr c'" "on_way (Cb_download k) c'"
    "stream c' = stream c" "contents (tc_output c') = drop n (contents (tc_output c))"
    "if length (contents (tc_output c)) \<le> n
     then tc_pending c' = replicate js T_handleWrite @ [T_writeComplete (Cb_download k)] \<and> buf_used (tc_output c') = kCheapPrepend
     else tc_pending c' = replicate js T_handleWrite @ [T_handleWrite]"
    using assms(2) by (auto simp: stream_def)
  have "replicate js (T_handleWrite :: write_cb task) @ [T_handleWrite] = replicate (Suc js) T_handleWrite"
    by (simp add: replicate_append_same)
  then have "\<exists>i. tc_pending c' = replicate i T_handleWrite @
      (if contents (tc_output c') = [] then [T_writeComplete (Cb_download k)] else [])"
    using c'(4,5) by (cases "length (contents (tc_output c)) \<le> n") (auto intro: exI [of _ "Suc js"])
  moreover have "contents (tc_output c') = [] \<longrightarrow> buf_used (tc_output c') + chunkSize \<le> vec_max"
    using c'(4,5) by (simp add: kCheapPrepend_def chunkSize_def vec_max_def)
  ultimately have "delivering k whole a c'" using assms(1) c'(2,3) by (simp add: delivering_def)
  moreover have "length (tc_pending c') \<le> Suc (length (tc_pending c))" using c'(5) assms(4,5) by (simp split: if_splits)
  moreover have "length (contents (tc_output c')) < length (contents (tc_output c))" using c'(4) assms(2,3) by simp
  ultimately show ?thesis using c'(1) by (simp add: rank_def)
qed

lemma turn_drains:
  assumes "delivering k whole a c" and "contents (tc_output c) \<noteq> []" and "0 < n"
  shows "\<exists>c'. loop_turn (n, ev) (a, c) = Inr (a, c') \<and> delivering k whole a c' \<and> rank k a c' < rank k a c"
proof -
  obtain j where j: "tc_pending c = replicate j T_handleWrite" using assms(1,2) by (auto simp: delivering_def)
  have w: "isWriting (tc_channel c)"
    using inv_open [of c] assms(1,2) by (simp add: delivering_def on_way_def is_open_def)
  show ?thesis
  proof (cases "ev \<or> j = 0")
    case True
    have "c\<lparr>sk_replies := [Write_Ok n], tc_pending := replicate j T_handleWrite\<rparr> = c\<lparr>sk_replies := [Write_Ok n]\<rparr>"
      using j by (cases c) simp
    with write_drains [OF assms order_refl j] True w j show ?thesis by (auto simp: loop_turn_def)
  next
    case False
    then obtain i where "j = Suc i" by (cases j) auto
    with write_drains [OF assms, of i j] False j show ?thesis
      by (auto simp: loop_turn_def run_pending_def run_task_def)
  qed
qed

text \<open>A functor that finds nothing to write.\<close>

lemma turn_skips:
  assumes "delivering k whole a c" and "contents (tc_output c) = []" and "tc_pending c = T_handleWrite # fs"
  shows "\<exists>c'. loop_turn (n, ev) (a, c) = Inr (a, c') \<and> delivering k whole a c' \<and> rank k a c' < rank k a c"
proof -
  let ?c = "c\<lparr>sk_replies := [Write_Ok n], tc_pending := fs\<rparr>"
  have "on_way (Cb_download k) c" using assms(1) by (simp add: delivering_def)
  from on_way_idle(2) [OF this assms(2)] have w: "\<not> isWriting (tc_channel c)" .
  obtain j where "T_handleWrite # fs = replicate j T_handleWrite @ [T_writeComplete (Cb_download k)]"
    using assms by (auto simp: delivering_def)
  then obtain i where "fs = replicate i T_handleWrite @ [T_writeComplete (Cb_download k)]" by (cases j) auto
  then have "delivering k whole a ?c" using assms(1,2) by (auto simp: delivering_def stream_def)
  moreover have "loop_turn (n, ev) (a, c) = Inr (a, ?c)"
    using w assms(3) by (simp add: loop_turn_def run_pending_def run_task_def handleWrite_def)
  ultimately show ?thesis using assms(3) by (simp add: rank_def)
qed

text \<open>A turn that runs the callback, with more of the file to send, and at its end.\<close>

lemma turn_sends:
  assumes "delivering k whole a c" and "contents (tc_output c) = []" and "tc_pending c = [T_writeComplete (Cb_download k)]"
    and "dc_currentPosition (ap_downs a ! k) < dc_fileSize (ap_downs a ! k)"
  shows "\<exists>a' c'. loop_turn (n, ev) (a, c) = Inr (a', c') \<and> delivering k whole a' c' \<and> rank k a' c' < rank k a c"
proof -
  let ?d = "ap_downs a ! k" and ?cb = "Cb_download k"
  define m where "m = min chunkSize (dc_fileSize ?d - dc_currentPosition ?d)"
  have dl: "on_way ?cb c" "k < length (ap_downs a)" "down_ok ?d" "tc_pending c = [T_writeComplete ?cb]" "\<not> isWriting (tc_channel c)"
    "buf_used (tc_output c) + chunkSize \<le> vec_max"
    "stream c @ drop (dc_currentPosition ?d) (dc_data ?d) = whole"
    using assms(1-3) on_way_idle(2) [OF _ assms(2)] by (auto simp: delivering_def)
  note r = readNextChunk_step [OF dl(3) assms(4), folded m_def]
  let ?data = "chunk (dc_currentPosition ?d) m (dc_data ?d)"
  let ?d' = "?d\<lparr>dc_currentPosition := dc_currentPosition ?d + m\<rparr>"
  let ?c0 = "emit [Ev_writeCompleteCallback ?cb] (c\<lparr>sk_replies := [Write_Ok n], tc_pending := []\<rparr>)"
  let ?a' = "a\<lparr>ap_downs := (ap_downs a)[k := ?d']\<rparr>"
  have len: "length ?data = m" using dl(3) r(4) by (simp add: length_chunk down_ok_def)
  have rest: "?data @ drop (dc_currentPosition ?d + m) (dc_data ?d) = drop (dc_currentPosition ?d) (dc_data ?d)"
    by (simp add: chunk_def add.commute flip: drop_drop)
  have c0: "on_way ?cb ?c0" "contents (tc_output ?c0) = []" "sk_replies ?c0 = [Write_Ok n]" "tc_pending ?c0 = []"
    "stream ?c0 = stream c" "tc_output ?c0 = tc_output c"
    using dl(1) assms(2) by (simp, simp_all add: emit_def stream_def)
  have "m \<le> chunkSize" by (simp add: m_def)
  then have room: "buf_used (tc_output ?c0) + length ?data \<le> vec_max" using dl(6) len c0(6) by simp
  have "\<exists>c'. sendInLoop ?c0 ?data = Inr c' \<and> on_way ?cb c' \<and> stream c' = stream c @ ?data \<and>
      contents (tc_output c') = drop n ?data \<and>
      (if m \<le> n then tc_pending c' = [T_writeComplete ?cb] \<and> tc_output c' = tc_output c else tc_pending c' = [])"
  proof (cases "m \<le> n")
    case True
    then show ?thesis using sendInLoop_takes_all [OF c0(1-3), of ?data] len c0(4-6) assms(2) by auto
  next
    case False
    then show ?thesis using sendInLoop_takes_some [OF c0(1-3) _ room] len c0(4,5) by auto
  qed
  then obtain c' where c': "sendInLoop ?c0 ?data = Inr c'" "on_way ?cb c'" "stream c' = stream c @ ?data"
    "contents (tc_output c') = drop n ?data"
    "if m \<le> n then tc_pending c' = [T_writeComplete ?cb] \<and> tc_output c' = tc_output c else tc_pending c' = []" by blast
  have "loop_turn (n, ev) (a, c) = Inr (?a', c')"
    using dl(2,4,5) r(1) c'(1) c0(1)
    by (simp add: loop_turn_def run_pending_def run_task_def on_write_complete_def send_conn_def on_way_def Let_def)
  moreover have "delivering k whole ?a' c'"
    using dl c'(2-5) r(2) rest len by (auto simp: delivering_def intro: exI [of _ 0] split: if_splits)
  moreover have "rank k ?a' c' < rank k a c"
    using c'(4,5) len r(3,4) dl(2,4) assms(2) by (simp add: rank_def split: if_splits)
  ultimately show ?thesis by blast
qed

lemma turn_ends:
  assumes "delivering k whole a c" and "contents (tc_output c) = []" and "tc_pending c = [T_writeComplete (Cb_download k)]"
    and "\<not> dc_currentPosition (ap_downs a ! k) < dc_fileSize (ap_downs a ! k)"
  shows "\<exists>a' c'. loop_turn (n, ev) (a, c) = Inr (a', c') \<and> delivered k whole a' c'"
proof -
  let ?d = "ap_downs a ! k"
  have dl: "on_way (Cb_download k) c" "k < length (ap_downs a)" "down_ok ?d" "tc_pending c = [T_writeComplete (Cb_download k)]"
    "stream c @ drop (dc_currentPosition ?d) (dc_data ?d) = whole"
    using assms(1-3) by (auto simp: delivering_def)
  have "dc_currentPosition ?d = dc_fileSize ?d" "dc_fileSize ?d = length (dc_data ?d)"
    using dl(3) assms(4) by (simp_all add: down_ok_def)
  then show ?thesis
    using readNextChunk_end [OF dl(3)] dl on_way_idle(2) [OF dl(1) assms(2)] assms(2)
    by (simp add: loop_turn_def run_pending_def run_task_def on_write_complete_def delivered_def shutdown_conn_def shutdownInLoop_def
        emit_def on_way_def stream_def Let_def)
qed

lemma turn_delivers:
  assumes "delivering k whole a c" and "0 < fst t"
  shows "\<exists>a' c'. loop_turn t (a, c) = Inr (a', c') \<and>
           (delivered k whole a' c' \<or> delivering k whole a' c' \<and> rank k a' c' < rank k a c)"
proof -
  obtain n ev where t: "t = (n, ev)" "0 < n" using assms(2) by (cases t) auto
  show ?thesis
  proof (cases "contents (tc_output c) = []")
    case False
    then show ?thesis using turn_drains [OF assms(1) False t(2)] t(1) by blast
  next
    case True
    then obtain j where "tc_pending c = replicate j T_handleWrite @ [T_writeComplete (Cb_download k)]"
      using assms(1) by (auto simp: delivering_def)
    then consider fs where "tc_pending c = T_handleWrite # fs" | "tc_pending c = [T_writeComplete (Cb_download k)]"
      by (cases j) auto
    then show ?thesis
      using turn_skips [OF assms(1) True] turn_sends [OF assms(1) True] turn_ends [OF assms(1) True] unfolding t(1)
      by cases blast+
  qed
qed

lemma turns_deliver:
  assumes "delivering k whole a c" and "\<forall>i. 0 < fst (room i)"
  shows "\<exists>N a' c'. loop_turns (map room [i..<i + N]) (a, c) = Inr (a', c') \<and> delivered k whole a' c'"
  using assms(1)
proof (induction "rank k a c" arbitrary: a c i rule: less_induct)
  case less
  obtain a1 c1 where t: "loop_turn (room i) (a, c) = Inr (a1, c1)"
    "delivered k whole a1 c1 \<or> delivering k whole a1 c1 \<and> rank k a1 c1 < rank k a c"
    using turn_delivers [OF less.prems] assms(2) by blast
  have "\<exists>N a' c'. loop_turns (map room [Suc i..<Suc i + N]) (a1, c1) = Inr (a', c') \<and> delivered k whole a' c'"
    using t(2)
  proof
    assume "delivered k whole a1 c1"
    then show ?thesis by (intro exI [of _ 0] exI [of _ a1] exI [of _ c1]) simp
  qed (use less.hyps in blast)
  then obtain N a' c' where "loop_turns (map room [Suc i..<Suc i + N]) (a1, c1) = Inr (a', c')" "delivered k whole a' c'" by blast
  then show ?case using t(1) by (intro exI [of _ "Suc N"] exI [of _ a'] exI [of _ c']) (simp add: upt_conv_Cons del: upt_Suc)
qed

text \<open>
  C7 (liveness). The client gets the file.  Once the write-complete callback of a download is queued on a connection without
  unsent bytes, the loop, whatever positive amounts of bytes the kernel takes in its turns and in whichever order functors and events come, gets to the end of the download without a
  fault: everything sent before and then the file from the position of the download to its end has been handed to the kernel, in
  this order and nothing else, and the write end of the socket is shut down.
\<close>

theorem download_is_delivered:
  assumes "conn_inv c" and "tc_state c = kConnected" and "contents (tc_output c) = []"
    and "tc_pending c = [T_writeComplete (Cb_download k)]" and "tc_writeCompleteCallback c = Some (Cb_download k)"
    and "\<not> tc_highWaterMarkCallback c" and "buf_used (tc_output c) + chunkSize \<le> vec_max"
    and "k < length (ap_downs a)" and "down_ok (ap_downs a ! k)" and "\<forall>i. 0 < fst (room i)"
  shows "\<exists>N a' c'. loop_turns (map room [0..<N]) (a, c) = Inr (a', c') \<and>
           sk_wire c' = sk_wire c @ drop (dc_currentPosition (ap_downs a ! k)) (dc_data (ap_downs a ! k)) \<and>
           sk_shut c' \<and> tc_state c' = kDisconnecting \<and> dc_isComplete (ap_downs a' ! k)"
proof -
  let ?whole = "sk_wire c @ drop (dc_currentPosition (ap_downs a ! k)) (dc_data (ap_downs a ! k))"
  have "delivering k ?whole a c" using assms by (auto simp: delivering_def on_way_def stream_def intro: exI [of _ 0])
  from turns_deliver [OF this assms(10), of 0] show ?thesis by (auto simp: delivered_def)
qed

definition waiting_client :: Conn where
  "waiting_client = (mkTcpConnection 5 (Some (Cb_download 0)) [])
     \<lparr>tc_state := kConnected, tc_channel := enableReading (mkChannel 5), tc_pending := [T_writeComplete (Cb_download 0)]\<rparr>"

theorem download_is_delivered_witness:
  "\<exists>N a' c'. loop_turns (map (\<lambda>i. (1, even i)) [0..<N])
      (h_app (simple_state (0 :: nat) Map.empty mkHttpRequest)\<lparr>ap_downs :=
         [\<lparr>dc_filepath = ''f'', dc_originalFilename = ''n'', dc_data = ''abc'', dc_fileSize = 3, dc_currentPosition = 1,
           dc_isComplete = False\<rparr>]\<rparr>, waiting_client) = Inr (a', c') \<and>
     sk_wire c' = ''bc'' \<and> sk_shut c'"
proof -
  let ?d = "\<lparr>dc_filepath = ''f'', dc_originalFilename = ''n'', dc_data = ''abc'', dc_fileSize = 3, dc_currentPosition = 1,
     dc_isComplete = False\<rparr>"
  let ?a = "h_app (simple_state (0 :: nat) Map.empty mkHttpRequest)\<lparr>ap_downs := [?d]\<rparr>"
  have c: "conn_inv waiting_client" unfolding conn_inv_def is_open_def by (simp add: waiting_client_def mkTcpConnection_def)
  have f: "tc_state waiting_client = kConnected" "tc_output waiting_client = emptyBuffer"
    "tc_pending waiting_client = [T_writeComplete (Cb_download 0)]" "tc_writeCompleteCallback waiting_client = Some (Cb_download 0)"
    "\<not> tc_highWaterMarkCallback waiting_client" "sk_wire waiting_client = []"
    by (simp_all add: waiting_client_def mkTcpConnection_def)
  have d: "0 < length (ap_downs ?a)" "down_ok (ap_downs ?a ! 0)" by (simp_all add: down_ok_def size_mod_def)
  have r: "contents (tc_output waiting_client) = []" "buf_used (tc_output waiting_client) + chunkSize \<le> vec_max"
    unfolding f(2) by (simp_all add: chunkSize_def vec_max_def)
  from download_is_delivered [OF c f(1) r(1) f(3-5) r(2) d, of "\<lambda>i. (1, even i)"] show ?thesis
    using f(6) by (auto simp: numeral_eq_Suc)
qed

end
