(* ===== verification/Upload_Download.thy ===== *)
theory Upload_Download
  imports Download_Delivery App_Upload
begin

text \<open>
  From an upload to a later download, across the components: the upload handler writes the parts to the file (\<open>App_Upload\<close>), a
  download handler opens it and sets the write-complete callback (\<open>App_Download\<close>), the server sends the headers (\<open>Http_Server\<close>),
  and the turns of the loop hand the file to the kernel (\<open>Download_Delivery\<close>).  Lemmas: each of these steps ends where the next begins.
\<close>

section \<open>A download begins\<close>

lemma range_start_le:
  assumes "parse_range hdr n = Inr rng" "rng \<noteq> Bad_Range"
  shows "range_start rng \<le> n"
  using assms by (auto simp: parse_range_def range_start_def Let_def split: if_splits option.splits sum.splits)

definition download_reply :: "bytes \<Rightarrow> range_result \<Rightarrow> nat \<Rightarrow> HttpResponse \<Rightarrow> HttpResponse" where
  "download_reply originalFilename rng fileSize r = download_headers originalFilename (range_headers rng fileSize r)"

lemma download_reply_keeps_open: "rs_closeConnection (download_reply name rng n r) = rs_closeConnection r"
  by (simp add: download_reply_def download_headers_def range_headers_def addRespHeader_def setContentType_def setStatusMessage_def
      setStatusCode_def split: range_result.split)

definition opened :: "bytes \<Rightarrow> bytes \<Rightarrow> bytes \<Rightarrow> range_result \<Rightarrow> FileDownContext" where
  "opened path orig d rng = \<lparr>dc_filepath = path, dc_originalFilename = orig, dc_data = d, dc_fileSize = length d,
     dc_currentPosition = range_start rng, dc_isComplete = False\<rparr>"

definition download_begun :: "bytes \<Rightarrow> bytes \<Rightarrow> bytes \<Rightarrow> range_result \<Rightarrow> app_context HttpContext \<Rightarrow> 'd HState \<Rightarrow> 'd HState" where
  "download_begun path orig d rng ctx t =
     (let k = length (ap_downs (h_app t)) in
      t\<lparr>h_app := (h_app t)\<lparr>ap_downs := ap_downs (h_app t) @ [opened path orig d rng]\<rparr>,
        h_conn := (h_conn t)\<lparr>tc_context := Some (setContext ctx (Some (Down_Ctx k))), tc_writeCompleteCallback := Some (Cb_download k)\<rparr>,
        h_resp := download_reply orig rng (length d) (h_resp t)\<rparr>)"

lemma send_file_begins:
  assumes "ap_files (h_app t) path = Some d" and "tc_context (h_conn t) = Some ctx" and "getContext ctx = None"
  shows "send_file env path orig rng (length d) t = (Inr True, download_begun path orig d rng ctx t)"
  using assms
  by (simp add: send_file_def start_download_def mkFileDownContext_def hlib_def hbind_def put_down_def seekTo_def
      download_begun_def download_reply_def setWriteCompleteCallback_def opened_def Let_def)

lemma serve_file_begins:
  assumes "ap_files (h_app t) (uploadDir @ ''/'' @ name) = Some d" and "rq_method (request_of t) \<noteq> kHead"
    and "parse_range (getHeader (request_of t) ''Range'') (length d) = Inr rng" and "rng \<noteq> Bad_Range"
    and "tc_context (h_conn t) = Some ctx" and "getContext ctx = None"
  shows "serve_file env name orig t = (Inr True, download_begun (uploadDir @ ''/'' @ name) orig d rng ctx t)"
  using assms(1-4) send_file_begins [OF assms(1,5,6)]
  by (simp add: serve_file_def hcatch_def header_def Let_def)

lemma send_response_on_way:
  assumes c: "on_way cb c" "contents (tc_output c) = []" "sk_replies c = [Write_Ok n]" and p: "tc_pending c = []"
    and room: "8 + length (response_bytes r) \<le> vec_max" "buf_used (tc_output c) + length (response_bytes r) \<le> vec_max"
      "buf_used (tc_output c) + chunkSize \<le> vec_max"
    and "\<not> rs_closeConnection r"
  shows "\<exists>c'. send_response r c = Inr c' \<and> on_way cb c' \<and> stream c' = stream c @ response_bytes r \<and>
           tc_pending c' = (if contents (tc_output c') = [] then [T_writeComplete cb] else []) \<and>
           (contents (tc_output c') = [] \<longrightarrow> buf_used (tc_output c') + chunkSize \<le> vec_max)"
proof -
  obtain b where b: "appendToBuffer r emptyBuffer = Inr b" "buf_ok b" "contents b = response_bytes r"
    using appends_response [of r, unfolded appends_def, rule_format, of emptyBuffer] room(1) by auto
  have "chunk (peek b) (readableBytes b) (buffer b) = response_bytes r"
    using contents_prefix [OF b(2), of "length (contents b)"] readable_contents [OF b(2)] b(3) by simp
  moreover have "tc_state c = kConnected" using c(1) by (simp add: on_way_def)
  ultimately have s: "send_response r c = sendInLoop c (response_bytes r)"
    using b(1) assms(8) by (cases "sendInLoop c (response_bytes r)") (simp_all add: send_response_def send_buffer_def)
  show ?thesis
  proof (cases "length (response_bytes r) \<le> n")
    case True
    then show ?thesis using sendInLoop_takes_all [OF c True] s p c(2) room(3) by auto
  next
    case False
    then show ?thesis using sendInLoop_takes_some [OF c _ room(2)] s p by auto
  qed
qed

section \<open>A download ends\<close>

text \<open>
  A client that is ready for the answer: its connection is open, with nothing left to send and nothing queued, the request is not \<^verbatim>\<open>HEAD\<close>, no
  download or upload is under way on it, and it asks for the part of the file of \<open>len\<close> bytes that begins with \<open>rng\<close>.
\<close>

definition asks_for :: "nat \<Rightarrow> range_result \<Rightarrow> bytes \<Rightarrow> nat \<Rightarrow> 'd HState \<Rightarrow> bool" where
  "asks_for len rng orig n t \<longleftrightarrow>
     conn_inv (h_conn t) \<and> tc_state (h_conn t) = kConnected \<and> contents (tc_output (h_conn t)) = [] \<and> tc_pending (h_conn t) = [] \<and>
     \<not> tc_highWaterMarkCallback (h_conn t) \<and> sk_replies (h_conn t) = [Write_Ok n] \<and> \<not> rs_closeConnection (h_resp t) \<and>
     rq_method (request_of t) \<noteq> kHead \<and> parse_range (getHeader (request_of t) ''Range'') len = Inr rng \<and> rng \<noteq> Bad_Range \<and>
     (case tc_context (h_conn t) of None \<Rightarrow> False | Some ctx \<Rightarrow> getContext ctx = None) \<and>
     buf_used (tc_output (h_conn t)) + chunkSize \<le> vec_max \<and>
     8 + length (response_bytes (download_reply orig rng len (h_resp t))) \<le> vec_max \<and>
     buf_used (tc_output (h_conn t)) + length (response_bytes (download_reply orig rng len (h_resp t))) \<le> vec_max"

lemma on_way_fields:
  "conn_inv c \<Longrightarrow> tc_state c = kConnected \<Longrightarrow> \<not> tc_highWaterMarkCallback c \<Longrightarrow>
     on_way cb (c\<lparr>tc_context := x, tc_writeCompleteCallback := Some cb\<rparr>)"
  using conn_inv_cong [of "c\<lparr>tc_context := x, tc_writeCompleteCallback := Some cb\<rparr>" c] by (simp add: on_way_def)

lemma file_is_served:
  assumes ask: "asks_for (length d) rng orig n t" and stored_file: "ap_files (h_app t) (uploadDir @ ''/'' @ name) = Some d"
    and "length d < size_mod" and "\<forall>i. 0 < fst (room i)"
  shows "\<exists>t' c N a' c'. serve_file env name orig t = (Inr True, t') \<and> send_response (h_resp t') (h_conn t') = Inr c \<and>
     loop_turns (map room [0..<N]) (h_app t', c) = Inr (a', c') \<and>
     sk_wire c' = sk_wire (h_conn t) @ response_bytes (h_resp t') @ drop (range_start rng) d \<and> sk_shut c'"
proof -
  obtain ctx where ctx: "tc_context (h_conn t) = Some ctx" "getContext ctx = None"
    using ask by (auto simp: asks_for_def split: option.splits)
  define t' where "t' = download_begun (uploadDir @ ''/'' @ name) orig d rng ctx t"
  define k where "k = length (ap_downs (h_app t))"
  have t': "serve_file env name orig t = (Inr True, t')"
    unfolding t'_def using ask by (intro serve_file_begins [OF stored_file _ _ _ ctx]) (simp_all add: asks_for_def)
  have r: "h_resp t' = download_reply orig rng (length d) (h_resp t)"
    and a: "ap_downs (h_app t') ! k = opened (uploadDir @ ''/'' @ name) orig d rng" "k < length (ap_downs (h_app t'))"
    and c: "h_conn t' = (h_conn t)\<lparr>tc_context := Some (setContext ctx (Some (Down_Ctx k))), tc_writeCompleteCallback := Some (Cb_download k)\<rparr>"
    by (simp_all add: t'_def download_begun_def k_def nth_append Let_def)
  have w: "on_way (Cb_download k) (h_conn t')" unfolding c using ask by (intro on_way_fields) (simp_all add: asks_for_def)
  obtain c1 where c1: "send_response (h_resp t') (h_conn t') = Inr c1" "on_way (Cb_download k) c1"
    "stream c1 = sk_wire (h_conn t) @ response_bytes (h_resp t')"
    "tc_pending c1 = (if contents (tc_output c1) = [] then [T_writeComplete (Cb_download k)] else [])"
    "contents (tc_output c1) = [] \<longrightarrow> buf_used (tc_output c1) + chunkSize \<le> vec_max"
    using send_response_on_way [OF w, of n "h_resp t'"] ask r download_reply_keeps_open
    by (auto simp: c asks_for_def stream_def)
  have "range_start rng \<le> length d" using ask range_start_le by (auto simp: asks_for_def)
  then have "down_ok (ap_downs (h_app t') ! k)" using assms(3) by (simp add: a(1) opened_def down_ok_def)
  then have "delivering k ((sk_wire (h_conn t) @ response_bytes (h_resp t')) @ drop (range_start rng) d) (h_app t') c1"
    using c1(2-5) a by (auto simp: delivering_def opened_def intro: exI [of _ 0])
  from turns_deliver [OF this assms(4), of 0] t' c1(1) show ?thesis by (auto simp: delivered_def)
qed

text \<open>
  C8 (roundtrip).  What is uploaded comes back, with one line end more.  Let a file arrive as the part of a multipart message, at once or in several parts
  none of which cuts a boundary: the part header, a blank line, the bytes of the file, and the line end and end boundary that close the part.  Then for every
  client that asks for the file later, whole or from a position on, while it is as the upload left it, the handler accepts the request, and
  the loop, whatever positive amounts of bytes the kernel takes, puts on the wire the headers and then exactly the bytes of the file from that position
  on, followed by the line end in front of the boundary, which the upload stored too.
\<close>

theorem uploaded_file_comes_back:
  assumes "env_can_write env (uc_filename u)" and "uc_filename u = uploadDir @ ''/'' @ name" and "uc_totalBytes u = 0"
    and "ap_files (h_app s) (uc_filename u) = Some []"
    and "upload_message (uc_boundary u) hdr (bs @ kCRLF) (body # rest)" and "length (bs @ kCRLF) < size_mod"
    and "\<forall>i. 0 < fst (room i)"
  shows "\<exists>u' s'. hbind (upload_first_part env u body) (\<lambda>u. upload_parts env u rest) s = (Inr u', s') \<and>
     (\<forall>t n rng orig. ap_files (h_app t) (uc_filename u) = ap_files (h_app s') (uc_filename u) \<longrightarrow>
        asks_for (length (bs @ kCRLF)) rng orig n t \<longrightarrow>
        (\<exists>t' c N a' c'. serve_file env name orig t = (Inr True, t') \<and> send_response (h_resp t') (h_conn t') = Inr c \<and>
           loop_turns (map room [0..<N]) (h_app t', c) = Inr (a', c') \<and>
           sk_wire c' = sk_wire (h_conn t) @ response_bytes (h_resp t') @ drop (range_start rng) (bs @ kCRLF) \<and> sk_shut c'))"
proof -
  obtain u' s' where s': "hbind (upload_first_part env u body) (\<lambda>u. upload_parts env u rest) s = (Inr u', s')"
    "stored s' (uc_filename u) = stored s (uc_filename u) @ bs @ kCRLF" "only_file (uc_filename u) s s'"
    using message_wrote [OF assms(1,3,5), of s] unfolding wrote_def by blast
  then have "ap_files (h_app s') (uc_filename u) = Some (bs @ kCRLF)" using assms(4) by (auto simp: stored_def only_file_def)
  then show ?thesis using s'(1) file_is_served [OF _ _ assms(6,7)] assms(2) by (intro exI conjI) auto
qed

text \<open>The upload of \<^verbatim>\<open>hello\<close> in three parts, and a client that asks for the file over a socket that takes one byte at a time.\<close>

definition asking_client :: "files \<Rightarrow> unit HState" where
  "asking_client fs = (simple_state () fs mkHttpRequest)\<lparr>h_conn := (mkTcpConnection 5 None [Write_Ok 5])
     \<lparr>tc_state := kConnected, tc_channel := enableReading (mkChannel 5), tc_context := Some mkHttpContext\<rparr>\<rparr>"

lemma asking_client_asks: "asks_for 7 (No_Range 0 6) ''n'' 5 (asking_client fs)"
proof -
  have inv: "conn_inv (h_conn (asking_client fs))"
    unfolding conn_inv_def is_open_def by (simp add: asking_client_def mkTcpConnection_def)
  have f: "tc_state (h_conn (asking_client fs)) = kConnected" "tc_output (h_conn (asking_client fs)) = emptyBuffer"
    "tc_pending (h_conn (asking_client fs)) = []" "\<not> tc_highWaterMarkCallback (h_conn (asking_client fs))"
    "sk_replies (h_conn (asking_client fs)) = [Write_Ok 5]" "h_resp (asking_client fs) = mkHttpResponse False"
    "tc_context (h_conn (asking_client fs)) = Some mkHttpContext" "request_of (asking_client fs) = mkHttpRequest"
    by (simp_all add: asking_client_def mkTcpConnection_def request_of_def conn_request_def mkHttpContext_def)
  have l: "length (response_bytes (download_reply ''n'' (No_Range 0 6) 7 (mkHttpResponse False))) \<le> 400"
    by (simp add: download_reply_def download_headers_def range_headers_def response_bytes_def mkHttpResponse_def addRespHeader_def
        setContentType_def setStatusMessage_def setStatusCode_def header_bytes_def kCRLF_def nat_to_string.simps)
  show ?thesis
    unfolding asks_for_def f using inv l f(4)
    by (simp add: getContext_def mkHttpContext_def mkHttpResponse_def mkHttpRequest_def getHeader_def parse_range_def
        chunkSize_def vec_max_def sz_sub_exact)
qed

theorem uploaded_file_comes_back_witness:
  "\<exists>u' s'. hbind (upload_first_part (simple_env (\<lambda>db q. (Db_error, db))) (hello_upload\<lparr>uc_filename := uploadDir @ ''/'' @ ''f''\<rparr>)
         (''--b'' @ blank_line @ ''he''))
       (\<lambda>u. upload_parts (simple_env (\<lambda>db q. (Db_error, db))) u [''ll'', ''o'' @ kCRLF @ ''--b--''])
       (simple_state () [uploadDir @ ''/'' @ ''f'' \<mapsto> []] mkHttpRequest) = (Inr u', s') \<and>
     (\<exists>t' c N a' c'. serve_file (simple_env (\<lambda>db q. (Db_error, db))) ''f'' ''n'' (asking_client (ap_files (h_app s'))) = (Inr True, t') \<and>
        send_response (h_resp t') (h_conn t') = Inr c \<and>
        loop_turns (map (\<lambda>i. (1, even i)) [0..<N]) (h_app t', c) = Inr (a', c') \<and>
        sk_wire c' = response_bytes (h_resp t') @ ''hello'' @ kCRLF \<and> sk_shut c')"
proof -
  let ?env = "simple_env (\<lambda>db q. (Db_error, db)) :: unit Env"
  let ?u = "hello_upload\<lparr>uc_filename := uploadDir @ ''/'' @ ''f''\<rparr>"
  let ?s = "simple_state () [uploadDir @ ''/'' @ ''f'' \<mapsto> []] mkHttpRequest"
  have b: "uc_boundary ?u = ''--b''" by (simp add: hello_upload_def)
  have m: "upload_message (uc_boundary ?u) ''--b'' (''hello'' @ kCRLF) [''--b'' @ blank_line @ ''he'', ''ll'', ''o'' @ kCRLF @ ''--b--'']"
    unfolding b by (rule hello_messages(2))
  have h: "env_can_write ?env (uc_filename ?u)" "uc_filename ?u = uploadDir @ ''/'' @ ''f''" "uc_totalBytes ?u = 0"
    "ap_files (h_app ?s) (uc_filename ?u) = Some []"
    and h': "length (''hello'' @ kCRLF) < size_mod" "\<forall>i. 0 < fst ((\<lambda>i. (1 :: nat, even (i :: nat))) i)"
    by (simp_all add: hello_upload_def kCRLF_def size_mod_def)
  have l: "length (''hello'' @ kCRLF) = 7" by (simp add: kCRLF_def)
  have w: "sk_wire (h_conn (asking_client fs)) = []" for fs by (simp add: asking_client_def mkTcpConnection_def)
  have f: "ap_files (h_app (asking_client fs)) = fs" for fs by (simp add: asking_client_def)
  from uploaded_file_comes_back [OF h m h'] show ?thesis
  proof (elim exE conjE, goal_cases)
    case (1 u' s')
    note served = 1(2) [rule_format, of "asking_client (ap_files (h_app s'))" "No_Range 0 6" "''n''" 5, unfolded l f w, OF refl asking_client_asks]
    show ?case by (rule exI, rule exI, rule conjI [OF 1(1)]) (use served in \<open>simp add: range_start_def\<close>)
  qed
qed

end
