(* ===== verification/Sockets.thy ===== *)
theory Sockets
  imports Inet_Address Tcp_Server
begin

unbundle bit_operations_syntax

text \<open>
  \<^verbatim>\<open>Socket\<close> and the calls of \<^verbatim>\<open>SocketsOps\<close> on a descriptor (\<^verbatim>\<open>src/network/Socket.cpp\<close>, \<^verbatim>\<open>src/network/SocketsOps.cpp\<close>), over the
  socket table of the process: for each open descriptor its status flags, its descriptor flags, its options, the addresses it is bound and
  connected to, and the bytes that wait to be read or were sent.  What the kernel decides is an argument: the descriptor it gives,
  the error it answers, how many bytes it takes.  \<open>sock_step\<close> is what the objects that have descriptors do with them; its
  invariant is that the objects and the table agree.
\<close>

section \<open>The socket table\<close>

datatype sockopt = TCP_NODELAY | SO_REUSEADDR | SO_REUSEPORT | SO_KEEPALIVE

record sock =
  fl :: "32 word"
  fdfl :: "32 word"
  sopt :: "sockopt \<Rightarrow> int"
  bound_to :: "InetAddress option"
  peer_of :: "InetAddress option"
  backlogged :: bool
  wr_shut :: bool
  to_read :: bytes
  was_sent :: bytes

text \<open>\<open>bad_calls\<close> counts the calls on a descriptor that is not open.\<close>

record world =
  table :: "int \<rightharpoonup> sock"
  werrno :: errno
  wlog :: "string list"
  bad_calls :: nat

definition bad_fd :: "world \<Rightarrow> world" where
  "bad_fd w = w\<lparr>werrno := EBADF, bad_calls := Suc (bad_calls w)\<rparr>"

definition O_RDWR :: "32 word" where "O_RDWR = 2"
definition O_NONBLOCK :: "32 word" where "O_NONBLOCK = 0x800"
definition FD_CLOEXEC :: "32 word" where "FD_CLOEXEC = 1"
definition SOCK_NONBLOCK :: "32 word" where "SOCK_NONBLOCK = 0x800"
definition SOCK_CLOEXEC :: "32 word" where "SOCK_CLOEXEC = 0x80000"

lemmas flag_defs = O_RDWR_def O_NONBLOCK_def FD_CLOEXEC_def SOCK_NONBLOCK_def SOCK_CLOEXEC_def

text \<open>The bits that \<^verbatim>\<open>F_SETFL\<close> can change: \<^verbatim>\<open>O_APPEND\<close>, \<^verbatim>\<open>O_NONBLOCK\<close>, \<^verbatim>\<open>O_ASYNC\<close>, \<^verbatim>\<open>O_DIRECT\<close>, \<^verbatim>\<open>O_NOATIME\<close>.\<close>

definition setfl_mask :: "32 word" where "setfl_mask = 0x46C00"

text \<open>A new socket, from the flags of \<^verbatim>\<open>socket\<close> or \<^verbatim>\<open>accept4\<close>.\<close>

definition new_sock :: "32 word \<Rightarrow> InetAddress option \<Rightarrow> sock" where
  "new_sock flags peer =
     \<lparr>fl = O_RDWR OR (flags AND SOCK_NONBLOCK), fdfl = (if flags AND SOCK_CLOEXEC = 0 then 0 else FD_CLOEXEC),
      sopt = (\<lambda>_. 0), bound_to = None, peer_of = peer, backlogged = False, wr_shut = False, to_read = [], was_sent = []\<rparr>"

text \<open>A call that applies \<open>f\<close> to the socket of an open descriptor: \<open>-1\<close> and \<^verbatim>\<open>EBADF\<close> when it is not open, \<open>-1\<close> and the kernel's
  error when there is one.\<close>

definition on_sock :: "errno option \<Rightarrow> int \<Rightarrow> (sock \<Rightarrow> sock) \<Rightarrow> world \<Rightarrow> int \<times> world" where
  "on_sock err fd f w =
     (case table w fd of
        None \<Rightarrow> (-1, bad_fd w)
      | Some s \<Rightarrow>
          (case err of
             Some e \<Rightarrow> (-1, w\<lparr>werrno := e\<rparr>)
           | None \<Rightarrow> (0, w\<lparr>table := (table w)(fd \<mapsto> f s)\<rparr>)))"

definition fcntl_get :: "(sock \<Rightarrow> 32 word) \<Rightarrow> int \<Rightarrow> world \<Rightarrow> 32 word \<times> world" where
  "fcntl_get sel fd w =
     (case table w fd of None \<Rightarrow> (-1, bad_fd w) | Some s \<Rightarrow> (sel s, w))"

definition fcntl_setfl :: "int \<Rightarrow> 32 word \<Rightarrow> world \<Rightarrow> int \<times> world" where
  "fcntl_setfl fd flags =
     on_sock None fd (\<lambda>s. s\<lparr>fl := (fl s AND NOT setfl_mask) OR (flags AND setfl_mask)\<rparr>)"

definition fcntl_setfd :: "int \<Rightarrow> 32 word \<Rightarrow> world \<Rightarrow> int \<times> world" where
  "fcntl_setfd fd flags = on_sock None fd (\<lambda>s. s\<lparr>fdfl := flags AND FD_CLOEXEC\<rparr>)"


definition log_msg :: "string \<Rightarrow> world \<Rightarrow> world" where
  "log_msg m w = w\<lparr>wlog := wlog w @ [m]\<rparr>"

text \<open>The pattern of the source: log when the call failed.\<close>

definition log_if :: "bool \<Rightarrow> string \<Rightarrow> world \<Rightarrow> world" where
  "log_if failed m w = (if failed then log_msg m w else w)"

section \<open>SocketsOps\<close>

definition setNonBlockAndCloseOnExec :: "int \<Rightarrow> world \<Rightarrow> world" where
  "setNonBlockAndCloseOnExec sockfd w =
     (let (flags, w1) = fcntl_get fl sockfd w;
          (_, w2) = fcntl_setfl sockfd (flags OR O_NONBLOCK) w1;
          (flags', w3) = fcntl_get fdfl sockfd w2;
          (_, w4) = fcntl_setfd sockfd (flags' OR FD_CLOEXEC) w3
      in w4)"

text \<open>\<open>valgrind\<close>: whether the code is built with \<^verbatim>\<open>VALGRIND\<close>; \<open>fd\<close>: the descriptor \<^verbatim>\<open>socket\<close> gives.\<close>

definition create_socket :: "bool \<Rightarrow> int option \<Rightarrow> world \<Rightarrow> (int \<times> world) result" where
  "create_socket valgrind fd w =
     rbind (createNonblockingOrDie fd) (\<lambda>sockfd.
       Inr (sockfd,
            if valgrind
            then setNonBlockAndCloseOnExec sockfd (w\<lparr>table := (table w)(sockfd \<mapsto> new_sock 0 None)\<rparr>)
            else w\<lparr>table := (table w)(sockfd \<mapsto> new_sock (SOCK_NONBLOCK OR SOCK_CLOEXEC) None)\<rparr>))"

text \<open>\<open>no_accept4\<close>: whether the code is built with \<^verbatim>\<open>VALGRIND\<close> or \<^verbatim>\<open>NO_ACCEPT4\<close>; \<open>r\<close>: what the kernel answers, an error or a
  descriptor and the peer's address.  A failure is classified by \<open>sockets_accept\<close>, on the value \<^verbatim>\<open>errno\<close> has then.\<close>

definition accept_fd :: "bool \<Rightarrow> errno + int \<times> InetAddress \<Rightarrow> world \<Rightarrow> ((errno + int) \<times> world) result" where
  "accept_fd no_accept4 r w =
     (let w1 = (case r of
                  Inl e \<Rightarrow> w\<lparr>werrno := e\<rparr>
                | Inr (fd, peer) \<Rightarrow>
                    w\<lparr>table := (table w)(fd \<mapsto> new_sock (if no_accept4 then 0 else SOCK_NONBLOCK OR SOCK_CLOEXEC) (Some peer))\<rparr>);
          connfd = (case r of Inl _ \<Rightarrow> -1 | Inr (fd, _) \<Rightarrow> fd);
          w2 = (if no_accept4 then setNonBlockAndCloseOnExec connfd w1 else w1)
      in if connfd < 0
         then rbind (sockets_accept (Inl (werrno w2))) (\<lambda>e. Inr (e, log_msg ''Socket::accept'' w2))
         else Inr (Inr connfd, w2))"


text \<open>\<open>n\<close>: how many bytes the kernel gives or takes, at most what is asked and, for a read, what is there.\<close>

definition sockets_read :: "nat \<Rightarrow> int \<Rightarrow> nat \<Rightarrow> world \<Rightarrow> (int \<times> bytes) \<times> world" where
  "sockets_read n sockfd count w =
     (case table w sockfd of
        None \<Rightarrow> ((-1, []), bad_fd w)
      | Some s \<Rightarrow>
          (let d = take (min n count) (to_read s)
           in ((int (length d), d), w\<lparr>table := (table w)(sockfd \<mapsto> s\<lparr>to_read := drop (length d) (to_read s)\<rparr>)\<rparr>)))"

text \<open>A scattered read fills the areas in turn.\<close>

fun scatter :: "bytes \<Rightarrow> nat list \<Rightarrow> bytes list" where
  "scatter d [] = []"
| "scatter d (m # ms) = take m d # scatter (drop m d) ms"

definition sockets_readv :: "nat \<Rightarrow> int \<Rightarrow> nat list \<Rightarrow> world \<Rightarrow> (int \<times> bytes list) \<times> world" where
  "sockets_readv n sockfd iov w =
     (let ((r, d), w1) = sockets_read n sockfd (sum_list iov) w in ((r, scatter d iov), w1))"

definition sockets_write :: "errno option \<Rightarrow> nat \<Rightarrow> int \<Rightarrow> bytes \<Rightarrow> world \<Rightarrow> int \<times> world" where
  "sockets_write err n sockfd buf w =
     (let (r, w1) = on_sock err sockfd (\<lambda>s. s\<lparr>was_sent := was_sent s @ take n buf\<rparr>) w
      in (if r < 0 then -1 else int (min n (length buf)), w1))"



section \<open>Socket\<close>

record Socket =
  sockfd :: int

definition mkSocket :: "int \<Rightarrow> world \<Rightarrow> Socket \<times> world" where
  "mkSocket fd w =
     (let (flags, w1) = fcntl_get fl fd w;
          (ret, w2) = fcntl_setfl fd (flags OR O_NONBLOCK) w1
      in (\<lparr>sockfd = fd\<rparr>, log_if (ret < 0) ''Socket::Socket set nonblocking failed'' w2))"


definition bindAddress :: "errno option \<Rightarrow> InetAddress \<Rightarrow> Socket \<Rightarrow> world \<Rightarrow> world result" where
  "bindAddress err addr s w =
     (let (ret, w1) = on_sock err (sockfd s) (\<lambda>k. k\<lparr>bound_to := Some addr\<rparr>) w
      in rbind (bindOrDie (0 \<le> ret)) (\<lambda>_. Inr w1))"



definition setsockopt :: "errno option \<Rightarrow> int \<Rightarrow> sockopt \<Rightarrow> int \<Rightarrow> world \<Rightarrow> int \<times> world" where
  "setsockopt err fd opt optval = on_sock err fd (\<lambda>k. k\<lparr>sopt := (sopt k)(opt := optval)\<rparr>)"


definition setReuseAddr :: "errno option \<Rightarrow> bool \<Rightarrow> Socket \<Rightarrow> world \<Rightarrow> world" where
  "setReuseAddr err on s w =
     (let optval = (if on then 1 else 0);
          (ret, w1) = setsockopt err (sockfd s) SO_REUSEADDR optval w
      in log_if (ret < 0 \<and> on) ''Socket::setReuseAddr'' w1)"

text \<open>\<open>has_reuseport\<close>: whether the system's headers define \<^verbatim>\<open>SO_REUSEPORT\<close>.\<close>

definition setReusePort :: "bool \<Rightarrow> errno option \<Rightarrow> bool \<Rightarrow> Socket \<Rightarrow> world \<Rightarrow> world" where
  "setReusePort has_reuseport err on s w =
     (if has_reuseport
      then let optval = (if on then 1 else 0);
               (ret, w1) = setsockopt err (sockfd s) SO_REUSEPORT optval w
           in log_if (ret < 0 \<and> on) ''Socket::setReusePort'' w1
      else log_if on ''SO_REUSEPORT is not supported.'' w)"


text \<open>What the constructors of \<^verbatim>\<open>Acceptor\<close> and \<^verbatim>\<open>TcpConnection\<close> do with their socket.\<close>

definition acceptor_socket ::
  "bool \<Rightarrow> bool \<Rightarrow> int option \<Rightarrow> errno option \<Rightarrow> errno option \<Rightarrow> errno option \<Rightarrow> bool \<Rightarrow> InetAddress \<Rightarrow> world \<Rightarrow> (Socket \<times> world) result"
where
  "acceptor_socket valgrind has_reuseport fd e1 e2 e3 reuseport listenAddr w =
     rbind (create_socket valgrind fd w) (\<lambda>(sockfd, w1).
       let (s, w2) = mkSocket sockfd w1;
           w3 = setReuseAddr e1 True s w2;
           w4 = setReusePort has_reuseport e2 reuseport s w3
       in rbind (bindAddress e3 listenAddr s w4) (\<lambda>w5. Inr (s, w5)))"


section \<open>The owners of descriptors\<close>

text \<open>
  The objects: \<open>live\<close>, the \<^verbatim>\<open>Socket\<close> objects (of the acceptor and of the connections); \<open>raw\<close>, the descriptors the connector holds
  before a connection is made of them; \<open>lost\<close>, the open descriptors that no object has any more; \<open>idle\<close>, the acceptor's spare descriptor, which is not a
  socket (\<open>None\<close>: \<open>-1\<close>).
\<close>

record sys =
  world :: world
  live :: "Socket list"
  raw :: "int list"
  lost :: "int list"
  idle :: "int option"







definition nonblocking :: "sock \<Rightarrow> bool" where
  "nonblocking k \<longleftrightarrow> fl k AND O_NONBLOCK \<noteq> 0"

definition close_on_exec :: "sock \<Rightarrow> bool" where
  "close_on_exec k \<longleftrightarrow> fdfl k AND FD_CLOEXEC \<noteq> 0"

definition world_good :: "int set \<Rightarrow> world \<Rightarrow> bool" where
  "world_good F w \<longleftrightarrow> dom (table w) = F \<and> (\<forall>k \<in> ran (table w). nonblocking k \<and> close_on_exec k) \<and>
     ''Socket::Socket set nonblocking failed'' \<notin> set (wlog w) \<and> bad_calls w = 0"


section \<open>Lemmas\<close>

lemma O_NONBLOCK_and: "w AND O_NONBLOCK \<noteq> 0 \<longleftrightarrow> bit w 11"
  using and_exp_eq_0_iff_not_bit [of w 11] by (simp add: O_NONBLOCK_def)

lemma FD_CLOEXEC_and: "w AND FD_CLOEXEC \<noteq> 0 \<longleftrightarrow> bit w 0"
  using and_exp_eq_0_iff_not_bit [of w 0] by (simp add: FD_CLOEXEC_def)

lemma flag_bits [simp]:
  "bit O_NONBLOCK 11" "bit FD_CLOEXEC 0" "bit setfl_mask 11" "bit SOCK_NONBLOCK 11"
  by (simp_all add: flag_defs setfl_mask_def bit_numeral_rec numeral_eq_Suc)

lemma both_flags [simp]: "(SOCK_NONBLOCK OR SOCK_CLOEXEC) AND SOCK_CLOEXEC \<noteq> 0" "(SOCK_NONBLOCK OR SOCK_CLOEXEC) AND SOCK_NONBLOCK = SOCK_NONBLOCK"
  by (simp_all add: flag_defs)

lemma nonblocking_bit: "nonblocking k \<longleftrightarrow> bit (fl k) 11"
  by (simp add: nonblocking_def O_NONBLOCK_and)

lemma close_on_exec_bit: "close_on_exec k \<longleftrightarrow> bit (fdfl k) 0"
  by (simp add: close_on_exec_def FD_CLOEXEC_and)

lemmas sock_bits = nonblocking_bit close_on_exec_bit bit_simps


lemma world_good_errno [simp]: "world_good F (w\<lparr>werrno := e\<rparr>) = world_good F w"
  by (simp add: world_good_def)

lemma world_good_line [simp]: "m \<noteq> ''Socket::Socket set nonblocking failed'' \<Longrightarrow> world_good F (log_msg m w) = world_good F w"
  by (simp add: world_good_def log_msg_def)

lemma world_good_log [simp]: "m \<noteq> ''Socket::Socket set nonblocking failed'' \<Longrightarrow> world_good F (log_if c m w) = world_good F w"
  by (simp add: world_good_def log_if_def log_msg_def)


lemma keeps_flags [simp]:
  "nonblocking (k\<lparr>sopt := o1\<rparr>) = nonblocking k" "close_on_exec (k\<lparr>sopt := o1\<rparr>) = close_on_exec k"
  "nonblocking (k\<lparr>bound_to := b\<rparr>) = nonblocking k" "close_on_exec (k\<lparr>bound_to := b\<rparr>) = close_on_exec k"
  "nonblocking (k\<lparr>peer_of := b\<rparr>) = nonblocking k" "close_on_exec (k\<lparr>peer_of := b\<rparr>) = close_on_exec k"
  "nonblocking (k\<lparr>backlogged := l\<rparr>) = nonblocking k" "close_on_exec (k\<lparr>backlogged := l\<rparr>) = close_on_exec k"
  "nonblocking (k\<lparr>wr_shut := l\<rparr>) = nonblocking k" "close_on_exec (k\<lparr>wr_shut := l\<rparr>) = close_on_exec k"
  "nonblocking (k\<lparr>to_read := d\<rparr>) = nonblocking k" "close_on_exec (k\<lparr>to_read := d\<rparr>) = close_on_exec k"
  "nonblocking (k\<lparr>was_sent := d\<rparr>) = nonblocking k" "close_on_exec (k\<lparr>was_sent := d\<rparr>) = close_on_exec k"
  by (simp_all add: nonblocking_def close_on_exec_def)






definition made_nonblocking :: "sock \<Rightarrow> sock" where
  "made_nonblocking k = k\<lparr>fl := (fl k AND NOT setfl_mask) OR ((fl k OR O_NONBLOCK) AND setfl_mask)\<rparr>"

lemma made_nonblocking_flags [simp]:
  "nonblocking (made_nonblocking k)" "close_on_exec (made_nonblocking k) = close_on_exec k"
  "nonblocking (made_nonblocking k\<lparr>fdfl := FD_CLOEXEC\<rparr>)" "close_on_exec (made_nonblocking k\<lparr>fdfl := FD_CLOEXEC\<rparr>)"
  by (simp_all add: made_nonblocking_def sock_bits)


lemma setNonBlock_open:
  "table w fd = Some k \<Longrightarrow>
     setNonBlockAndCloseOnExec fd w = w\<lparr>table := (table w)(fd \<mapsto> made_nonblocking k\<lparr>fdfl := FD_CLOEXEC\<rparr>)\<rparr>"
  by (simp add: setNonBlockAndCloseOnExec_def fcntl_get_def fcntl_setfl_def fcntl_setfd_def on_sock_def made_nonblocking_def)

lemma bad_fd_fields [simp]: "table (bad_fd w) = table w" "werrno (bad_fd w) = EBADF"
  by (simp_all add: bad_fd_def)

lemma setNonBlock_bad: "table w fd = None \<Longrightarrow> setNonBlockAndCloseOnExec fd w = bad_fd (bad_fd (bad_fd (bad_fd w)))"
  by (simp add: setNonBlockAndCloseOnExec_def fcntl_get_def fcntl_setfl_def fcntl_setfd_def on_sock_def)

text \<open>The two ways to build the code make the same socket: the flags of a new socket are the flags that are set afterwards.\<close>

lemma new_sock_either_way:
  "made_nonblocking (new_sock 0 p)\<lparr>fdfl := FD_CLOEXEC\<rparr> = new_sock (SOCK_NONBLOCK OR SOCK_CLOEXEC) p"
  by (simp add: made_nonblocking_def new_sock_def) (simp add: flag_defs setfl_mask_def)

lemma SOCK_CLOEXEC_nonzero [simp]: "SOCK_CLOEXEC \<noteq> 0"
  by (simp add: flag_defs)

lemma new_sock_flags [simp]:
  "nonblocking (new_sock (SOCK_NONBLOCK OR SOCK_CLOEXEC) p)" "close_on_exec (new_sock (SOCK_NONBLOCK OR SOCK_CLOEXEC) p)"
  by (simp_all add: new_sock_def sock_bits)

lemma create_socket_Some:
  "create_socket vg (Some fd) w = Inr (fd, w\<lparr>table := (table w)(fd \<mapsto> new_sock (SOCK_NONBLOCK OR SOCK_CLOEXEC) None)\<rparr>)"
  by (simp add: create_socket_def createNonblockingOrDie_def setNonBlock_open new_sock_either_way)





lemma accept_fd_Inl:
  "table w (-1) = None \<Longrightarrow> accept_fd True (Inl e) w = Inl Fatal_Log"
  "accept_fd False (Inl e) w = rbind (sockets_accept (Inl e)) (\<lambda>r. Inr (r, log_msg ''Socket::accept'' (w\<lparr>werrno := e\<rparr>)))"
  by (simp_all add: accept_fd_def Let_def setNonBlock_bad sockets_accept_def)



lemma acceptor_socket_bind_fails:
  "acceptor_socket vg rp (Some fd) e1 e2 (Some e3) reuse addr w = Inl Fatal_Log"
  by (simp add: acceptor_socket_def create_socket_Some bindAddress_def on_sock_def bindOrDie_def Let_def case_prod_beta
      split: option.split)

lemma failed_option_is_logged:
  assumes "table w (sockfd s) \<noteq> None"
  shows "setReuseAddr (Some e) True s w = log_msg ''Socket::setReuseAddr'' (w\<lparr>werrno := e\<rparr>)"
    "setReuseAddr (Some e) False s w = w\<lparr>werrno := e\<rparr>"
  using assms by (auto simp: setReuseAddr_def setsockopt_def on_sock_def log_if_def)

section \<open>Descriptors and objects agree\<close>













text \<open>
  In a build without \<^verbatim>\<open>accept4\<close> the flags are set before the result is looked at: on a failure the calls on descriptor \<open>-1\<close>
  overwrite \<^verbatim>\<open>errno\<close> with \<^verbatim>\<open>EBADF\<close>, and every failure, also one that is to be ignored, ends the process.  In the other build the
  errors to be ignored are ignored.
\<close>

lemma accept_without_accept4:
  assumes "table w (-1) = None"
  shows "accept_fd True (Inl e) w = Inl Fatal_Log"
    "e \<in> {EAGAIN, ECONNABORTED, EINTR, EPROTO, EPERM, EMFILE} \<Longrightarrow>
       accept_fd False (Inl e) w = Inr (Inl e, log_msg ''Socket::accept'' (w\<lparr>werrno := e\<rparr>))"
  using accept_fd_Inl(1) [OF assms] by (auto simp: accept_fd_Inl(2) sockets_accept_def)

text \<open>What several writes put on the wire is what they took, in order; a scattered read gives the bytes in the order they came.\<close>

lemma concat_scatter: "concat (scatter d iov) = take (sum_list iov) d"
  by (induction d iov rule: scatter.induct) (simp_all add: take_add)

lemma readv_in_order:
  assumes "table w fd = Some k" "sockets_readv n fd iov w = ((r, ds), w1)"
  shows "\<exists>k1. table w1 fd = Some k1 \<and> to_read k = concat ds @ to_read k1 \<and> r = int (length (concat ds))"
  using assms by (auto simp: sockets_readv_def sockets_read_def concat_scatter Let_def min_def)

lemma writes_in_order:
  assumes "table w fd = Some k" "sockets_write None n fd a w = (r, w1)" "sockets_write None m fd (drop (nat r) a) w1 = (r', w2)"
  shows "\<exists>k2. table w2 fd = Some k2 \<and> was_sent k2 = was_sent k @ take (nat (r + r')) a"
  using assms by (auto simp: sockets_write_def on_sock_def take_add min_def nat_add_distrib split: if_splits)

end
