(* ===== verification/Server_Main.thy ===== *)
theory Server_Main
  imports App_Routes Event_Loop Tcp_Server Inet_Address
begin

text \<open>
  The life of the event loop objects (\<^verbatim>\<open>src/network/EventLoop.cpp\<close>), the constructor and the setters of \<^verbatim>\<open>HttpServer\<close>, and \<^verbatim>\<open>main\<close>
  (\<^verbatim>\<open>app/main.cpp\<close>), which puts the parts together: which callbacks a connection gets and in which loop it is served.  Lemmas: a thread has at
  most one loop and its thread-local pointer is exact; the server of \<^verbatim>\<open>main\<close> serves every connection in the main loop, with the handler's callbacks.
\<close>

section \<open>Loops and threads\<close>

text \<open>\<open>t_loopInThisThread\<close>: the thread-local pointer, for each thread; loops are named by numbers.\<close>

record loop_object =
  lo_threadId :: int
  lo_wakeupFd :: int
  lo_wakeupChannel :: Channel

record loop_world =
  t_loopInThisThread :: "int \<rightharpoonup> nat"
  loop_objects :: "nat \<rightharpoonup> loop_object"
  eventfds :: "int set"

definition no_loops :: loop_world where
  "no_loops = \<lparr>t_loopInThisThread = Map.empty, loop_objects = Map.empty, eventfds = {}\<rparr>"

text \<open>\<open>fd\<close>: what \<^verbatim>\<open>eventfd\<close> gives; on a failure the process is aborted.\<close>

definition createEventfd :: "int option \<Rightarrow> int result" where
  "createEventfd fd = (case fd of None \<Rightarrow> Inl Fatal_Log | Some evtfd \<Rightarrow> Inr evtfd)"

definition createTimerfd :: "int option \<Rightarrow> int result" where
  "createTimerfd fd = (case fd of None \<Rightarrow> Inl Fatal_Log | Some timerfd \<Rightarrow> Inr timerfd)"

text \<open>The timer queue is made before the eventfd; \<open>Timers\<close> has its state.\<close>

definition create_loop :: "int \<Rightarrow> nat \<Rightarrow> int option \<Rightarrow> int option \<Rightarrow> loop_world \<Rightarrow> loop_world result" where
  "create_loop tid l timer_fd fd w =
     rbind (createTimerfd timer_fd) (\<lambda>timerfd. rbind (createEventfd fd) (\<lambda>evtfd.
       case t_loopInThisThread w tid of
         Some _ \<Rightarrow> Inl Fatal_Log
       | None \<Rightarrow>
           Inr \<lparr>t_loopInThisThread = (t_loopInThisThread w)(tid \<mapsto> l),
                loop_objects = (loop_objects w)
                  (l \<mapsto> \<lparr>lo_threadId = tid, lo_wakeupFd = evtfd, lo_wakeupChannel = enableReading (mkChannel evtfd)\<rparr>),
                eventfds = insert evtfd (eventfds w)\<rparr>))"

definition isInLoopThread :: "int \<Rightarrow> loop_object \<Rightarrow> bool" where
  "isInLoopThread tid lo \<longleftrightarrow> lo_threadId lo = tid"

definition abortNotInLoopThread :: "'a result" where
  "abortNotInLoopThread = Inl Fatal_Log"

definition getEventLoopOfCurrentThread :: "int \<Rightarrow> loop_world \<Rightarrow> nat option" where
  "getEventLoopOfCurrentThread tid w = t_loopInThisThread w tid"

text \<open>
  The destructor, called by thread \<open>tid\<close>: to disable the channel and to remove it the loop is asked to update its poller, and that asserts
  that it is called by the loop's own thread.
\<close>

definition destroy_loop :: "int \<Rightarrow> nat \<Rightarrow> loop_world \<Rightarrow> loop_world result" where
  "destroy_loop tid l w =
     (case loop_objects w l of
        None \<Rightarrow> Inl Out_Of_Bounds
      | Some lo \<Rightarrow>
          if \<not> isInLoopThread tid lo then abortNotInLoopThread
          else rbind (channel_remove (disableAll (lo_wakeupChannel lo))) (\<lambda>_.
                 Inr \<lparr>t_loopInThisThread = (t_loopInThisThread w)(tid := None), loop_objects = (loop_objects w)(l := None),
                      eventfds = eventfds w - {lo_wakeupFd lo}\<rparr>))"

text \<open>A new object is not one of those that live, and the kernel gives a descriptor that is not open.\<close>

inductive loops_step :: "loop_world \<Rightarrow> loop_world \<Rightarrow> bool" where
  created: "loop_objects w l = None \<Longrightarrow> evtfd \<notin> eventfds w \<Longrightarrow> create_loop tid l (Some timerfd) (Some evtfd) w = Inr w' \<Longrightarrow> loops_step w w'"
| destroyed: "destroy_loop tid l w = Inr w' \<Longrightarrow> loops_step w w'"

text \<open>The thread-local pointers are exact; each loop has an eventfd of its own, and no other eventfd is open.\<close>

definition pointers_exact :: "loop_world \<Rightarrow> bool" where
  "pointers_exact w \<longleftrightarrow>
     (\<forall>l lo. loop_objects w l = Some lo \<longrightarrow> t_loopInThisThread w (lo_threadId lo) = Some l) \<and>
     (\<forall>tid l. t_loopInThisThread w tid = Some l \<longrightarrow> (\<exists>lo. loop_objects w l = Some lo \<and> lo_threadId lo = tid))"

definition wakeups_own :: "loop_world \<Rightarrow> bool" where
  "wakeups_own w \<longleftrightarrow>
     (\<forall>l lo. loop_objects w l = Some lo \<longrightarrow> lo_wakeupFd lo \<in> eventfds w \<and>
        (\<forall>l' lo'. loop_objects w l' = Some lo' \<longrightarrow> lo_wakeupFd lo = lo_wakeupFd lo' \<longrightarrow> l = l')) \<and>
     (\<forall>fd \<in> eventfds w. \<exists>l lo. loop_objects w l = Some lo \<and> lo_wakeupFd lo = fd)"

lemma created_eq:
  "create_loop tid l (Some timerfd) (Some evtfd) w = Inr w' \<longleftrightarrow> t_loopInThisThread w tid = None \<and>
     w' = \<lparr>t_loopInThisThread = (t_loopInThisThread w)(tid \<mapsto> l),
           loop_objects = (loop_objects w)
             (l \<mapsto> \<lparr>lo_threadId = tid, lo_wakeupFd = evtfd, lo_wakeupChannel = enableReading (mkChannel evtfd)\<rparr>),
           eventfds = insert evtfd (eventfds w)\<rparr>"
  by (auto simp: create_loop_def createTimerfd_def createEventfd_def split: option.splits)

lemma destroyed_eq:
  "destroy_loop tid l w = Inr w' \<longleftrightarrow>
     (\<exists>lo. loop_objects w l = Some lo \<and> lo_threadId lo = tid \<and>
        w' = \<lparr>t_loopInThisThread = (t_loopInThisThread w)(tid := None), loop_objects = (loop_objects w)(l := None),
              eventfds = eventfds w - {lo_wakeupFd lo}\<rparr>)"
  by (auto simp: destroy_loop_def isInLoopThread_def abortNotInLoopThread_def channel_remove_def passert_def isNoneEvent_def
      disableAll_def channel_update_def split: option.splits)

inductive_cases loops_stepE: "loops_step w w'"

lemma pointers_exact_step:
  assumes "loops_step w w'" "pointers_exact w"
  shows "pointers_exact w'"
  using assms(1)
proof (cases rule: loops_step.cases)
  case (created l evtfd tid timerfd)
  then show ?thesis using assms(2) unfolding created_eq pointers_exact_def
    by (elim conjE) (auto split: if_splits, metis option.distinct(1))
next
  case (destroyed tid l)
  then obtain lo where lo: "loop_objects w l = Some lo" "lo_threadId lo = tid" and
    w': "t_loopInThisThread w' = (t_loopInThisThread w)(tid := None)" "loop_objects w' = (loop_objects w)(l := None)"
    by (auto simp: destroyed_eq)
  have "t_loopInThisThread w t \<noteq> Some l" if "t \<noteq> tid" for t using assms(2) lo that unfolding pointers_exact_def by fastforce
  then show ?thesis using assms(2) lo unfolding pointers_exact_def w' by (auto split: if_splits, metis option.inject)
qed

lemma wakeups_own_step:
  assumes "loops_step w w'" "wakeups_own w"
  shows "wakeups_own w'"
  using assms(1)
proof (cases rule: loops_step.cases)
  case (created l evtfd tid timerfd)
  then show ?thesis using assms(2) unfolding created_eq wakeups_own_def
    by (elim conjE) (auto split: if_splits, metis option.distinct(1))
next
  case (destroyed tid l)
  then obtain lo where lo: "loop_objects w l = Some lo" and
    w': "\<And>k k'. loop_objects w' k = Some k' \<longleftrightarrow> k \<noteq> l \<and> loop_objects w k = Some k'" "eventfds w' = eventfds w - {lo_wakeupFd lo}"
    by (auto simp: destroyed_eq)
  have own: "lo_wakeupFd k' \<in> eventfds w" "lo_wakeupFd k' = lo_wakeupFd j' \<Longrightarrow> k = j"
    if "loop_objects w k = Some k'" "loop_objects w j = Some j'" for k k' j j'
    using assms(2) that unfolding wakeups_own_def by blast+
  have fds: "\<exists>k k'. loop_objects w k = Some k' \<and> lo_wakeupFd k' = fd" if "fd \<in> eventfds w" for fd
    using assms(2) that unfolding wakeups_own_def by blast
  show ?thesis unfolding wakeups_own_def w'
  proof (intro conjI allI impI ballI; (elim conjE)?)
    fix fd assume fd: "fd \<in> eventfds w - {lo_wakeupFd lo}"
    then obtain k k' where k: "loop_objects w k = Some k'" "lo_wakeupFd k' = fd" using fds by blast
    moreover have "k \<noteq> l" using k lo fd by auto
    ultimately show "\<exists>k k'. (k \<noteq> l \<and> loop_objects w k = Some k') \<and> lo_wakeupFd k' = fd" by blast
  qed (use own lo in \<open>auto dest: own(2)\<close>)
qed

lemma loops_steps_ok:
  assumes "loops_step\<^sup>*\<^sup>* no_loops w"
  shows "pointers_exact w \<and> wakeups_own w"
  using assms
proof (induction rule: rtranclp_induct)
  case base
  show ?case by (simp add: pointers_exact_def wakeups_own_def no_loops_def)
qed (blast intro: pointers_exact_step wakeups_own_step)

text \<open>So a thread has at most one loop, a second one ends the process, and only the thread itself can destroy it.\<close>

lemma one_loop_per_thread:
  assumes "loops_step\<^sup>*\<^sup>* no_loops w" "loop_objects w l = Some lo"
  shows "loop_objects w l' = Some lo' \<Longrightarrow> lo_threadId lo' = lo_threadId lo \<Longrightarrow> l' = l"
    "create_loop (lo_threadId lo) k tfd fd w = Inl Fatal_Log"
    "getEventLoopOfCurrentThread (lo_threadId lo) w = Some l"
    "tid \<noteq> lo_threadId lo \<Longrightarrow> destroy_loop tid l w = Inl Fatal_Log"
    "\<exists>w'. destroy_loop (lo_threadId lo) l w = Inr w' \<and> loop_objects w' l = None \<and> getEventLoopOfCurrentThread (lo_threadId lo) w' = None"
proof -
  have p: "t_loopInThisThread w (lo_threadId k') = Some k" if "loop_objects w k = Some k'" for k k'
    using loops_steps_ok [OF assms(1)] that by (simp add: pointers_exact_def)
  show "l' = l" if "loop_objects w l' = Some lo'" "lo_threadId lo' = lo_threadId lo" using p [OF assms(2)] p [OF that(1)] that(2) by simp
  show "create_loop (lo_threadId lo) k tfd fd w = Inl Fatal_Log" using p [OF assms(2)] by (cases tfd; cases fd) (simp_all add: create_loop_def createTimerfd_def createEventfd_def)
  show "getEventLoopOfCurrentThread (lo_threadId lo) w = Some l" using p [OF assms(2)] by (simp add: getEventLoopOfCurrentThread_def)
  show "destroy_loop tid l w = Inl Fatal_Log" if "tid \<noteq> lo_threadId lo"
    using assms(2) that by (auto simp: destroy_loop_def isInLoopThread_def abortNotInLoopThread_def)
  show "\<exists>w'. destroy_loop (lo_threadId lo) l w = Inr w' \<and> loop_objects w' l = None \<and> getEventLoopOfCurrentThread (lo_threadId lo) w' = None"
    using assms(2) by (simp add: destroyed_eq getEventLoopOfCurrentThread_def)
qed

section \<open>HttpServer\<close>

text \<open>The callbacks of a server, by what they are bound to.\<close>

datatype connection_cb = No_connection_cb | HttpServer_onConnection | Handler_onConnection
datatype message_cb = No_message_cb | HttpServer_onMessage
datatype http_cb = Default_http_cb | Handler_onRequest

record HttpServer =
  hs_server :: TcpServer
  hs_connectionCallback :: connection_cb
  hs_messageCallback :: message_cb
  hs_httpCallback :: http_cb

text \<open>\<open>ntop6\<close>: \<^verbatim>\<open>inet_ntop\<close> for IPv6.\<close>

definition mkHttpServer :: "(bytes \<Rightarrow> bytes) \<Rightarrow> nat option \<Rightarrow> InetAddress \<Rightarrow> bytes \<Rightarrow> HttpServer result" where
  "mkHttpServer ntop6 loop listenAddr name =
     rbind (mkTcpServer loop (toIpPort ntop6 listenAddr) name) (\<lambda>server.
       Inr \<lparr>hs_server = server, hs_connectionCallback = HttpServer_onConnection, hs_messageCallback = HttpServer_onMessage,
            hs_httpCallback = Default_http_cb\<rparr>)"

definition setHttpCallback :: "http_cb \<Rightarrow> HttpServer \<Rightarrow> HttpServer" where
  "setHttpCallback cb s = s\<lparr>hs_httpCallback := cb\<rparr>"

definition setConnectionCallback :: "connection_cb \<Rightarrow> HttpServer \<Rightarrow> HttpServer" where
  "setConnectionCallback cb s = s\<lparr>hs_connectionCallback := cb\<rparr>"

definition http_setThreadNum :: "int \<Rightarrow> HttpServer \<Rightarrow> HttpServer" where
  "http_setThreadNum n s = s\<lparr>hs_server := server_setThreadNum n (hs_server s)\<rparr>"

definition http_start :: "(nat \<Rightarrow> nat) \<Rightarrow> HttpServer \<Rightarrow> HttpServer result" where
  "http_start started_loop s = rbind (server_start started_loop False (hs_server s)) (\<lambda>t. Inr (s\<lparr>hs_server := t\<rparr>))"

section \<open>main\<close>

text \<open>
  \<open>tid\<close>: the main thread; \<open>timerfd\<close>, \<open>evtfd\<close>: the descriptors of its loop, number 0; \<open>junk\<close>: the memory of the address before its constructor runs;
  \<open>handler\<close>: what the constructor of the handler gives, \<open>None\<close> when it throws.  The result is the server when \<^verbatim>\<open>loop.loop()\<close> is entered.  The log level, the lines printed to the console and
  the socket of the acceptor (\<open>Sockets\<close>) are left out.
\<close>

definition server_main ::
  "(bytes \<Rightarrow> bytes) \<Rightarrow> int \<Rightarrow> int option \<Rightarrow> int option \<Rightarrow> bytes \<Rightarrow> (nat \<Rightarrow> nat) \<Rightarrow> 'h option \<Rightarrow> loop_world \<Rightarrow> (HttpServer \<times> 'h \<times> loop_world) result" where
  "server_main ntop6 tid timerfd evtfd junk started_loop handler w =
     rbind (create_loop tid 0 timerfd evtfd w) (\<lambda>w1.
     rbind (mkHttpServer ntop6 (Some 0) (mkInetAddress_any junk 8080 False) ''http-upload-test'') (\<lambda>server.
     case handler of
       None \<Rightarrow> Inl Assertion_Failed
     | Some h \<Rightarrow>
         rbind (http_start started_loop
                  (http_setThreadNum 0 (setHttpCallback Handler_onRequest (setConnectionCallback Handler_onConnection server))))
           (\<lambda>s. Inr (s, h, w1))))"

lemma server_main_starts:
  "\<exists>s w. server_main ntop6 tid (Some timerfd) (Some evtfd) junk sl (Some h) no_loops = Inr (s, h, w) \<and>
     hs_connectionCallback s = Handler_onConnection \<and> hs_messageCallback s = HttpServer_onMessage \<and>
     hs_httpCallback s = Handler_onRequest \<and> posted (hs_server s) = [(0, Listen)] \<and> pool_loops (srv_pool (hs_server s)) = [] \<and>
     baseLoop (srv_pool (hs_server s)) = 0 \<and> server_inv (hs_server s) [] (\<lambda>k. 0) [] (hs_server s) \<and> getEventLoopOfCurrentThread tid w = Some 0"
  by (simp add: server_main_def create_loop_def createTimerfd_def createEventfd_def no_loops_def mkHttpServer_def mkTcpServer_def CheckLoopNotNull_def
      http_start_def http_setThreadNum_def setHttpCallback_def setConnectionCallback_def server_start_def server_setThreadNum_def
      mkEventLoopThreadPool_def setThreadNum_def pool_start_def server_inv_def table_ok_def posted_ok_def pool_at_def getEventLoopOfCurrentThread_def Let_def)

text \<open>
  The server of \<^verbatim>\<open>main\<close> has no loops of its own: whatever connections come and go, each of them is served in the main loop, so that the
  handlers of the application never run at the same time.
\<close>

lemma main_serves_in_main_loop:
  assumes "server_main ntop6 tid (Some timerfd) (Some evtfd) junk sl (Some h) no_loops = Inr (s, h, w)"
    and "int (length (accepted_fds es)) < 2 ^ 31 - 1" and "closes_made 0 es"
  shows "\<exists>made t. server_trace es [] (hs_server s) = Inr (made, t) \<and>
           (\<forall>nm c. connections t nm = Some c \<longrightarrow> getEventLoopOfCurrentThread tid w = Some (conn_loop c))"
proof -
  obtain s1 w1 where r: "server_main ntop6 tid (Some timerfd) (Some evtfd) junk sl (Some h) no_loops = Inr (s1, h, w1)"
    "pool_loops (srv_pool (hs_server s1)) = []" "baseLoop (srv_pool (hs_server s1)) = 0" "server_inv (hs_server s1) [] (\<lambda>k. 0) [] (hs_server s1)"
    "getEventLoopOfCurrentThread tid w1 = Some 0"
    using server_main_starts [of ntop6 tid timerfd evtfd junk sl h] by (elim exE conjE) (rule that)
  then have e: "s1 = s" "w1 = w" using assms(1) by simp_all
  obtain m t where t: "server_trace es [] (hs_server s) = Inr (m, t)"
    "table_ok (hs_server s) (accepted_fds es) (\<lambda>k. count_list es (Closed k)) (connections t)"
    using server_trace_inv [OF r(4) [unfolded e], of es] assms(2,3) by (auto simp: server_inv_def)
  have "conn_loop c = 0" if "connections t nm = Some c" for nm c
  proof -
    obtain k where "k < length (accepted_fds es)" "nm = connName (hs_server s) (int k + 1)" using t(2) \<open>connections t nm = Some c\<close> unfolding table_ok_def by blast
    then have "c = conn_at (hs_server s) (accepted_fds es) k" using t(2) that unfolding table_ok_def by (auto split: if_splits)
    then show ?thesis using r(2,3) unfolding e by (simp add: loop_for_def)
  qed
  then show ?thesis using t(1) r(5) unfolding e by auto
qed

end
