(* ===== verification/Log_Stream.thy ===== *)
theory Log_Stream
  imports Log_Pipeline Fk_String
begin

text \<open>
  \<^verbatim>\<open>FixedBuffer\<close>, \<^verbatim>\<open>LogStream\<close> and \<^verbatim>\<open>Fmt\<close> (\<^verbatim>\<open>inc/utils/log/LogStream.hpp\<close>, \<^verbatim>\<open>src/utils/log/LogStream.cpp\<close>) on the memory of
  the object: an array of bytes and the position \<^verbatim>\<open>cur_\<close>.  All the operators \<^verbatim>\<open><<\<close> are here, with the terminating zero bytes they leave
  behind \<^verbatim>\<open>cur_\<close>.  \<open>Log_Pipeline\<close> describes a buffer by the bytes in front of \<^verbatim>\<open>cur_\<close>; the lemmas show that the memory implements this
  description, so that its bounds are those of the array.
\<close>

section \<open>FixedBuffer\<close>

record FixedBuffer =
  fb_data :: bytes
  fb_cur :: nat

definition mkFixedBuffer :: "nat \<Rightarrow> FixedBuffer" where
  "mkFixedBuffer SIZE = \<lparr>fb_data = replicate SIZE NUL, fb_cur = 0\<rparr>"

definition fb_avail :: "FixedBuffer \<Rightarrow> int" where
  "fb_avail fb = to_signed 32 (int (length (fb_data fb)) - int (fb_cur fb))"

definition fb_length :: "FixedBuffer \<Rightarrow> int" where
  "fb_length fb = to_signed 32 (int (fb_cur fb))"

definition fb_reset :: "FixedBuffer \<Rightarrow> FixedBuffer" where
  "fb_reset fb = fb\<lparr>fb_cur := 0\<rparr>"

definition fb_bzero :: "FixedBuffer \<Rightarrow> FixedBuffer" where
  "fb_bzero fb = fb\<lparr>fb_data := replicate (length (fb_data fb)) NUL\<rparr>"

definition fb_add :: "nat \<Rightarrow> FixedBuffer \<Rightarrow> FixedBuffer" where
  "fb_add len fb = fb\<lparr>fb_cur := fb_cur fb + len\<rparr>"

text \<open>\<^verbatim>\<open>memcpy\<close> or \<^verbatim>\<open>snprintf\<close> to \<^verbatim>\<open>current()\<close>.\<close>

definition fb_store :: "bytes \<Rightarrow> FixedBuffer \<Rightarrow> FixedBuffer result" where
  "fb_store d fb = rbind (write_at (fb_cur fb) d (fb_data fb)) (\<lambda>data. Inr (fb\<lparr>fb_data := data\<rparr>))"

definition fb_append :: "bytes \<Rightarrow> FixedBuffer \<Rightarrow> FixedBuffer result" where
  "fb_append buf fb =
     (if to_signed 32 (int (length buf)) < fb_avail fb
      then rbind (fb_store buf fb) (\<lambda>fb1. Inr (fb_add (length buf) fb1))
      else Inr fb)"

definition fb_toString :: "FixedBuffer \<Rightarrow> bytes" where
  "fb_toString fb = take (nat (fb_length fb)) (fb_data fb)"

section \<open>The operators\<close>

definition ls_formatInteger :: "int \<Rightarrow> FixedBuffer \<Rightarrow> FixedBuffer result" where
  "ls_formatInteger v fb =
     (if kMaxNumericSize \<le> fb_avail fb
      then rbind (fb_store (convert v @ [NUL]) fb) (\<lambda>fb1. Inr (fb_add (length (convert v)) fb1))
      else Inr fb)"

datatype int_kind = C_short | C_ushort | C_int | C_uint | C_long | C_ulong | C_llong | C_ullong

fun int_kind_range :: "int_kind \<Rightarrow> int set" where
  "int_kind_range C_short = {- (2 ^ 15)..<2 ^ 15}"
| "int_kind_range C_ushort = {0..<2 ^ 16}"
| "int_kind_range C_int = {- (2 ^ 31)..<2 ^ 31}"
| "int_kind_range C_uint = {0..<2 ^ 32}"
| "int_kind_range C_long = {- (2 ^ 63)..<2 ^ 63}"
| "int_kind_range C_ulong = {0..<2 ^ 64}"
| "int_kind_range C_llong = {- (2 ^ 63)..<2 ^ 63}"
| "int_kind_range C_ullong = {0..<2 ^ 64}"

text \<open>One template for all types; the two short ones go through the operators of \<^verbatim>\<open>int\<close> and \<^verbatim>\<open>unsigned int\<close>, which keeps the value.\<close>

definition ls_integer :: "int_kind \<Rightarrow> int \<Rightarrow> FixedBuffer \<Rightarrow> FixedBuffer result" where
  "ls_integer k v fb = ls_formatInteger v fb"

definition ls_pointer :: "nat \<Rightarrow> FixedBuffer \<Rightarrow> FixedBuffer result" where
  "ls_pointer p fb =
     (if kMaxNumericSize \<le> fb_avail fb
      then rbind (fb_store (''0x'' @ convertHex p @ [NUL]) fb) (\<lambda>fb1. Inr (fb_add (length (convertHex p) + 2) fb1))
      else Inr fb)"

text \<open>\<open>txt\<close>: what \<^verbatim>\<open>snprintf\<close> gives for the value and \<^verbatim>\<open>%.12g\<close>, of which it stores at most 47 bytes.\<close>

definition ls_double :: "bytes \<Rightarrow> FixedBuffer \<Rightarrow> FixedBuffer result" where
  "ls_double txt fb =
     (if kMaxNumericSize \<le> fb_avail fb
      then rbind (fb_store (take 47 txt @ [NUL]) fb) (\<lambda>fb1. Inr (fb_add (length txt) fb1))
      else Inr fb)"

definition ls_float :: "bytes \<Rightarrow> FixedBuffer \<Rightarrow> FixedBuffer result" where
  "ls_float txt fb = ls_double txt fb"

definition ls_cstr :: "bytes option \<Rightarrow> FixedBuffer \<Rightarrow> FixedBuffer result" where
  "ls_cstr str fb = fb_append (case str of None \<Rightarrow> ''(null)'' | Some s \<Rightarrow> c_str s) fb"

definition ls_fkstring :: "memory \<Rightarrow> FKString \<Rightarrow> FixedBuffer \<Rightarrow> FixedBuffer result" where
  "ls_fkstring m v fb =
     (if to_signed 32 (int (size_of_int (fk_size v))) < fb_avail fb
      then rbind (load_bytes m (fk_data v) (size_of_int (fk_size v))) (\<lambda>d.
           rbind (fb_store d fb) (\<lambda>fb1. Inr (fb_add (length d) fb1)))
      else Inr fb)"

definition ls_buffer :: "FixedBuffer \<Rightarrow> FixedBuffer \<Rightarrow> FixedBuffer result" where
  "ls_buffer v fb = fb_append (fb_toString v) fb"

text \<open>\<open>txt\<close>: what \<^verbatim>\<open>snprintf\<close> gives for the format and the value; it has to fit in the 32 bytes of the object.\<close>

definition mkFmt :: "bytes \<Rightarrow> bytes result" where
  "mkFmt txt = rbind (passert (length txt < 32)) (\<lambda>_. Inr txt)"

definition ls_fmt :: "bytes \<Rightarrow> FixedBuffer \<Rightarrow> FixedBuffer result" where
  "ls_fmt txt fb = rbind (mkFmt txt) (\<lambda>t. fb_append t fb)"

datatype stream_arg = A_bool bool | A_integer int_kind int | A_pointer nat | A_float bytes | A_double bytes | A_char char
  | A_cstr "bytes option" | A_string bytes | A_fkstring FKString | A_buffer FixedBuffer | A_fmt bytes

fun ls_put :: "memory \<Rightarrow> stream_arg \<Rightarrow> FixedBuffer \<Rightarrow> FixedBuffer result" where
  "ls_put m (A_bool v) fb = fb_append (if v then ''1'' else ''0'') fb"
| "ls_put m (A_integer k v) fb = ls_integer k v fb"
| "ls_put m (A_pointer p) fb = ls_pointer p fb"
| "ls_put m (A_float t) fb = ls_float t fb"
| "ls_put m (A_double t) fb = ls_double t fb"
| "ls_put m (A_char v) fb = fb_append [v] fb"
| "ls_put m (A_cstr v) fb = ls_cstr v fb"
| "ls_put m (A_string v) fb = fb_append v fb"
| "ls_put m (A_fkstring v) fb = ls_fkstring m v fb"
| "ls_put m (A_buffer v) fb = ls_buffer v fb"
| "ls_put m (A_fmt t) fb = ls_fmt t fb"

fun ls_puts :: "memory \<Rightarrow> stream_arg list \<Rightarrow> FixedBuffer \<Rightarrow> FixedBuffer result" where
  "ls_puts m [] fb = Inr fb"
| "ls_puts m (x # xs) fb = rbind (ls_put m x fb) (ls_puts m xs)"

section \<open>The memory implements the sequence of bytes\<close>

text \<open>The item of \<open>Log_Pipeline\<close> for an argument, and the values that the types allow.\<close>

fun arg_item :: "memory \<Rightarrow> stream_arg \<Rightarrow> log_item" where
  "arg_item m (A_bool v) = Log_bool v"
| "arg_item m (A_integer k v) = Log_int v"
| "arg_item m (A_pointer p) = Log_pointer p"
| "arg_item m (A_float t) = Log_double t"
| "arg_item m (A_double t) = Log_double t"
| "arg_item m (A_char v) = Log_char v"
| "arg_item m (A_cstr v) = Log_cstr v"
| "arg_item m (A_string v) = Log_string v"
| "arg_item m (A_fkstring v) = Log_string (view m v)"
| "arg_item m (A_buffer v) = Log_string (fb_toString v)"
| "arg_item m (A_fmt t) = Log_string t"

definition fb_ok :: "FixedBuffer \<Rightarrow> bool" where
  "fb_ok fb \<longleftrightarrow> length (fb_data fb) = smallBufferLen \<and> fb_cur fb \<le> smallBufferLen"

fun arg_ok :: "memory \<Rightarrow> stream_arg \<Rightarrow> bool" where
  "arg_ok m (A_integer k v) \<longleftrightarrow> v \<in> int_kind_range k"
| "arg_ok m (A_fkstring v) \<longleftrightarrow> view_ok m v"
| "arg_ok m (A_buffer v) \<longleftrightarrow> fb_ok v"
| "arg_ok m (A_fmt t) \<longleftrightarrow> length t < 32"
| "arg_ok m a \<longleftrightarrow> item_ok (arg_item m a)"

lemma int_kind_range_item: "v \<in> int_kind_range k \<Longrightarrow> item_ok (Log_int v)"
  by (cases k) auto

lemma fb_ok_avail: "fb_ok fb \<Longrightarrow> fb_avail fb = int (smallBufferLen - fb_cur fb)"
  by (auto simp: fb_ok_def fb_avail_def smallBufferLen_def of_nat_diff intro!: to_signed_id)

lemma fb_ok_toString: "fb_ok fb \<Longrightarrow> fb_toString fb = take (fb_cur fb) (fb_data fb) \<and> length (fb_toString fb) = fb_cur fb"
proof -
  assume a: "fb_ok fb"
  then have "fb_length fb = int (fb_cur fb)" unfolding fb_length_def by (intro to_signed_id) (auto simp: fb_ok_def smallBufferLen_def)
  then show ?thesis using a by (simp add: fb_toString_def fb_ok_def)
qed

lemma avail_agree: "fb_ok fb \<Longrightarrow> fixed_avail smallBufferLen (fb_toString fb) = fb_avail fb"
  using fb_ok_toString [of fb] by (simp add: fixed_avail_def fb_ok_avail fb_ok_def of_nat_diff)

text \<open>\<open>implements r b\<close>: the outcome \<open>r\<close> on the memory is the outcome \<open>b\<close> on the bytes.\<close>

definition implements :: "FixedBuffer result \<Rightarrow> bytes result \<Rightarrow> bool" where
  "implements r b \<longleftrightarrow>
     (case b of Inl e \<Rightarrow> r = Inl e | Inr bs \<Rightarrow> (\<exists>fb. r = Inr fb \<and> fb_ok fb \<and> fb_toString fb = bs))"

lemma store_add_implements:
  assumes "fb_ok fb" and "length e \<le> 1"
  shows "implements (rbind (fb_store (d @ e) fb) (\<lambda>fb1. Inr (fb_add (length d) fb1)))
           (fixed_write smallBufferLen d (length e) (fb_toString fb))"
proof (cases "fb_cur fb + length d + length e \<le> smallBufferLen")
  case True
  let ?fb = "\<lparr>fb_data = take (fb_cur fb) (fb_data fb) @ (d @ e) @ drop (fb_cur fb + length (d @ e)) (fb_data fb),
     fb_cur = fb_cur fb + length d\<rparr>"
  have ok: "fb_ok ?fb" using True assms(1) by (simp add: fb_ok_def)
  have "rbind (fb_store (d @ e) fb) (\<lambda>fb1. Inr (fb_add (length d) fb1)) = Inr ?fb"
    using True assms(1) by (cases fb) (simp add: fb_store_def write_at_def fb_add_def fb_ok_def)
  moreover have "fb_toString ?fb = fb_toString fb @ d"
    using fb_ok_toString [OF ok] fb_ok_toString [OF assms(1)] assms(1) by (simp add: fb_ok_def)
  moreover have "fixed_write smallBufferLen d (length e) (fb_toString fb) = Inr (fb_toString fb @ d)"
    using True fb_ok_toString [OF assms(1)] by (simp add: fixed_write_def fixed_avail_def)
  ultimately show ?thesis using ok by (simp add: implements_def)
next
  case False
  then show ?thesis using assms(1) fb_ok_toString [OF assms(1)]
    by (simp add: implements_def fb_store_def write_at_def fb_ok_def fixed_write_def fixed_avail_def)
qed

lemma implements_refl: "fb_ok fb \<Longrightarrow> implements (Inr fb) (Inr (fb_toString fb))"
  by (simp add: implements_def)

lemma append_implements: "fb_ok fb \<Longrightarrow> implements (fb_append d fb) (fixed_append smallBufferLen d (fb_toString fb))"
  using store_add_implements [of fb "[]" d] by (simp add: fb_append_def fixed_append_def avail_agree implements_refl)

lemma number_implements:
  "fb_ok fb \<Longrightarrow>
     implements (if kMaxNumericSize \<le> fb_avail fb then rbind (fb_store (d @ [NUL]) fb) (\<lambda>fb1. Inr (fb_add (length d) fb1)) else Inr fb)
       (if kMaxNumericSize \<le> fixed_avail smallBufferLen (fb_toString fb) then fixed_write smallBufferLen d 1 (fb_toString fb)
        else Inr (fb_toString fb))"
  using store_add_implements [of fb "[NUL]" d] by (simp add: avail_agree implements_refl)

lemma put_implements:
  assumes "fb_ok fb" "arg_ok m a"
  shows "implements (ls_put m a fb) (stream_put (arg_item m a) (fb_toString fb))"
proof (cases a)
  case (A_fkstring v)
  note v = view_ok_size [of m v] load_view [of m v "nat (fk_length v)"]
  have "view_ok m v" using assms(2) A_fkstring by simp
  then have "ls_fkstring m v fb = fb_append (view m v) fb"
    using v by (simp add: ls_fkstring_def fb_append_def fk_data_def)
  then show ?thesis using A_fkstring append_implements [OF assms(1)] by (simp add: put_string_def)
next
  case (A_integer k v)
  then show ?thesis
    using number_implements [OF assms(1), of "convert v"]
    by (simp add: ls_integer_def ls_formatInteger_def formatInteger_def)
next
  case (A_pointer p)
  then show ?thesis using number_implements [OF assms(1), of "''0x'' @ convertHex p"] 
    by (auto simp: ls_pointer_def put_pointer_def avail_agree [OF assms(1)] split: if_splits)
next
  case (A_double t)
  then show ?thesis using assms(2) number_implements [OF assms(1), of t] 
    by (auto simp: ls_double_def put_double_def avail_agree [OF assms(1)] split: if_splits)
next
  case (A_float t)
  then show ?thesis using assms(2) number_implements [OF assms(1), of t] 
    by (auto simp: ls_float_def ls_double_def put_double_def avail_agree [OF assms(1)] split: if_splits)
qed (use append_implements [OF assms(1)] assms(2) in
  \<open>simp_all add: put_bool_def put_char_def put_cstr_def put_string_def ls_cstr_def ls_buffer_def ls_fmt_def mkFmt_def passert_def\<close>)

lemma implements_bind:
  assumes "implements r b" "\<And>fb. fb_ok fb \<Longrightarrow> implements (f fb) (g (fb_toString fb))"
  shows "implements (rbind r f) (rbind b g)"
proof (cases b)
  case (Inr bs)
  then obtain fb where fb: "r = Inr fb" "fb_ok fb" "fb_toString fb = bs" using assms(1) by (auto simp: implements_def)
  then show ?thesis using assms(2) [OF fb(2)] Inr by simp
qed (use assms(1) in \<open>simp add: implements_def\<close>)

lemma puts_implement:
  assumes "fb_ok fb" "list_all (arg_ok m) xs"
  shows "implements (ls_puts m xs fb) (stream_puts (map (arg_item m) xs) (fb_toString fb))"
  using assms
proof (induction xs arbitrary: fb)
  case (Cons x xs)
  from Cons.prems have "implements (ls_put m x fb) (stream_put (arg_item m x) (fb_toString fb))" by (intro put_implements) simp_all
  then show ?case using Cons.IH Cons.prems(2) by (simp add: implements_bind)
qed (simp add: implements_refl)

lemma arg_ok_item: "arg_ok m a \<Longrightarrow> item_ok (arg_item m a)"
proof (cases a)
  case (A_fkstring v)
  moreover assume "arg_ok m a"
  ultimately show ?thesis using view_ok_size(3) [of m v] by (auto simp: view_ok_def)
next
  case (A_buffer v)
  moreover assume "arg_ok m a"
  ultimately show ?thesis using fb_ok_toString [of v] by (simp add: fb_ok_def smallBufferLen_def)
next
  case (A_integer k v)
  moreover assume "arg_ok m a"
  ultimately show ?thesis using int_kind_range_item [of v k] by simp
qed simp_all

text \<open>The texts that are kept of a list of texts: a text is there as a whole, or not at all.\<close>

definition kept_text :: "bool list \<Rightarrow> bytes list \<Rightarrow> bytes" where
  "kept_text ks ts = concat (map snd (filter fst (zip ks ts)))"

lemma kept_text_simps [simp]:
  "kept_text [] ts = []"
  "kept_text (k # ks) (t # ts) = (if k then t else []) @ kept_text ks ts"
  by (simp_all add: kept_text_def)

lemma stream_puts_keeps:
  assumes "list_all item_ok xs" "length b < smallBufferLen"
  shows "\<exists>ks. length ks = length xs \<and> stream_puts xs b = Inr (b @ kept_text ks (map item_text xs)) \<and>
           length (b @ kept_text ks (map item_text xs)) < smallBufferLen \<and>
           (\<forall>j < length xs. length b + length (kept_text (take j ks) (map item_text xs)) + length (item_text (xs ! j)) + 48 \<le> smallBufferLen \<longrightarrow> ks ! j)"
  using assms
proof (induction xs arbitrary: b)
  case (Cons i xs)
  have "prints i b" using stream_put_ok [of i b] Cons.prems by simp
  then obtain c where "stream_put i b = Inr (if c then b @ item_text i else b)" and c: "c \<longrightarrow> length b + length (item_text i) < smallBufferLen"
    "length b + length (item_text i) + 48 \<le> smallBufferLen \<longrightarrow> c"
    unfolding prints_def by blast
  then have put: "stream_put i b = Inr (b @ (if c then item_text i else []))" by simp
  let ?b = "b @ (if c then item_text i else [])"
  have "length ?b < smallBufferLen" using c(1) Cons.prems(2) by simp
  from Cons.IH [OF _ this] Cons.prems(1) obtain ks where ks: "length ks = length xs"
    "stream_puts xs ?b = Inr (?b @ kept_text ks (map item_text xs))" "length (?b @ kept_text ks (map item_text xs)) < smallBufferLen"
    "\<forall>j < length xs. length ?b + length (kept_text (take j ks) (map item_text xs)) + length (item_text (xs ! j)) + 48 \<le> smallBufferLen \<longrightarrow> ks ! j"
    by auto
  have "\<forall>j < length (i # xs). length b + length (kept_text (take j (c # ks)) (map item_text (i # xs))) + length (item_text ((i # xs) ! j)) + 48
      \<le> smallBufferLen \<longrightarrow> (c # ks) ! j"
  proof (intro allI impI)
    fix j assume "j < length (i # xs)" "length b + length (kept_text (take j (c # ks)) (map item_text (i # xs))) + length (item_text ((i # xs) ! j)) + 48
      \<le> smallBufferLen"
    then show "(c # ks) ! j" using c(2) ks(4) by (cases j) (auto simp: add.assoc)
  qed
  then show ?case using put ks(1-3) by (intro exI [of _ "c # ks"]) simp
qed simp

text \<open>If there is room for all, all are kept.\<close>

lemma kept_text_all:
  assumes "length ks = length xs" "n + length (concat (map f xs)) + 48 \<le> smallBufferLen"
    "\<forall>j < length xs. n + length (kept_text (take j ks) (map f xs)) + length (f (xs ! j)) + 48 \<le> smallBufferLen \<longrightarrow> ks ! j"
  shows "kept_text ks (map f xs) = concat (map f xs)"
  using assms
proof (induction xs arbitrary: ks n)
  case (Cons x xs)
  from Cons.prems(1) obtain k ks' where ks: "ks = k # ks'" "length ks' = length xs" by (cases ks) auto
  have k: "k" using Cons.prems(2) Cons.prems(3) [rule_format, of 0] ks by simp
  have "kept_text ks' (map f xs) = concat (map f xs)"
  proof (rule Cons.IH [OF ks(2), of "n + length (f x)"])
    show "n + length (f x) + length (concat (map f xs)) + 48 \<le> smallBufferLen" using Cons.prems(2) by simp
    show "\<forall>j < length xs. n + length (f x) + length (kept_text (take j ks') (map f xs)) + length (f (xs ! j)) + 48 \<le> smallBufferLen \<longrightarrow> ks' ! j"
    proof (intro allI impI)
      fix j assume "j < length xs" "n + length (f x) + length (kept_text (take j ks') (map f xs)) + length (f (xs ! j)) + 48 \<le> smallBufferLen"
      then show "ks' ! j" using Cons.prems(3) [rule_format, of "Suc j"] ks k by (simp add: add.assoc)
    qed
  qed
  then show ?case using ks k by simp
qed simp

text \<open>
  C35 (bounds).  No sequence of \<^verbatim>\<open><<\<close> on a log stream, on a new buffer or one that was reset, stores a byte outside its array of 4096 bytes, the
  terminating zero bytes included, or moves \<^verbatim>\<open>cur_\<close> to its end, whatever the numbers, pointers and strings under two gigabytes are (the
  length of a longer one is cast to a negative 32 bit integer).  What the buffer shows are the texts of items, each as a whole or not at all: \<open>ks\<close> says
  of which.  An item is there if its text leaves 48 bytes free, so all are when they all do.
\<close>

theorem log_stream_memory_safe:
  assumes "length (fb_data fb) = smallBufferLen" and "list_all (arg_ok m) xs"
  shows "\<exists>fb' ks. ls_puts m xs (fb_reset fb) = Inr fb' \<and> length (fb_data fb') = smallBufferLen \<and> fb_cur fb' < smallBufferLen \<and>
           length ks = length xs \<and> fb_toString fb' = kept_text ks (map (item_text \<circ> arg_item m) xs) \<and>
           (\<forall>j < length xs. length (kept_text (take j ks) (map (item_text \<circ> arg_item m) xs)) + length ((item_text \<circ> arg_item m) (xs ! j)) + 48
              \<le> smallBufferLen \<longrightarrow> ks ! j) \<and>
           (length (concat (map (item_text \<circ> arg_item m) xs)) + 48 \<le> smallBufferLen \<longrightarrow>
              fb_toString fb' = concat (map (item_text \<circ> arg_item m) xs))"
proof -
  let ?t = "item_text \<circ> arg_item m"
  have ok: "fb_ok (fb_reset fb)" using assms(1) by (simp add: fb_ok_def fb_reset_def)
  have e: "fb_toString (fb_reset fb) = []" using fb_ok_toString [OF ok] by (simp add: fb_reset_def)
  have "list_all item_ok (map (arg_item m) xs)" using assms(2) arg_ok_item by (auto simp: list_all_iff)
  from stream_puts_keeps [OF this, of "[]"] obtain ks where ks: "length ks = length xs"
    "stream_puts (map (arg_item m) xs) [] = Inr (kept_text ks (map ?t xs))"
    "\<forall>j < length xs. length (kept_text (take j ks) (map ?t xs)) + length (?t (xs ! j)) + 48 \<le> smallBufferLen \<longrightarrow> ks ! j"
    "length (kept_text ks (map ?t xs)) < smallBufferLen"
    by (auto simp: smallBufferLen_def comp_def)
  moreover obtain fb' where fb': "ls_puts m xs (fb_reset fb) = Inr fb'" "fb_ok fb'" "fb_toString fb' = kept_text ks (map ?t xs)"
    using puts_implement [OF ok assms(2)] e ks(2) by (auto simp: implements_def)
  moreover have "length (concat (map ?t xs)) + 48 \<le> smallBufferLen \<longrightarrow> kept_text ks (map ?t xs) = concat (map ?t xs)"
    using kept_text_all [OF ks(1), of 0 ?t] ks(3) by simp
  moreover have "length (fb_data fb') = smallBufferLen" "fb_cur fb' < smallBufferLen"
    using fb'(2,3) ks(4) fb_ok_toString [OF fb'(2)] by (auto simp: fb_ok_def)
  ultimately show ?thesis by metis
qed

theorem log_stream_memory_safe_witness:
  "\<exists>fb. ls_puts Map.empty [A_integer C_short (- 7), A_char CHR '' '', A_bool True, A_cstr None, A_fmt ''%'']
      (fb_reset \<lparr>fb_data = replicate 4096 CHR ''x'', fb_cur = 4000\<rparr>) = Inr fb \<and>
     length (fb_data fb) = 4096 \<and> fb_toString fb = ''-7 1(null)%''"
proof -
  let ?xs = "[A_integer C_short (- 7), A_char CHR '' '', A_bool True, A_cstr None, A_fmt ''%'']"
  have "concat (map (item_text \<circ> arg_item Map.empty) ?xs) = ''-7 1(null)%''"
    by (simp add: int_to_string_def nat_to_string.simps)
  then show ?thesis
    using log_stream_memory_safe [of "\<lparr>fb_data = replicate 4096 CHR ''x'', fb_cur = 4000\<rparr>" Map.empty ?xs]
    by (auto simp: smallBufferLen_def)
qed

text \<open>A \<^verbatim>\<open>double\<close> whose text were longer than the 47 bytes that \<^verbatim>\<open>snprintf\<close> stores would move \<^verbatim>\<open>cur_\<close> over bytes it did not write.\<close>

lemma ls_double_too_long:
  assumes "fb_ok fb" "kMaxNumericSize \<le> fb_avail fb" "47 < length txt"
  shows "\<exists>fb'. ls_double txt fb = Inr fb' \<and> fb_cur fb' = fb_cur fb + length txt"
proof -
  have "fb_cur fb + 48 \<le> length (fb_data fb)"
    using assms(1,2) fb_ok_avail [OF assms(1)] by (auto simp: fb_ok_def kMaxNumericSize_def)
  then show ?thesis using assms(2,3) by (simp add: ls_double_def fb_store_def write_at_def fb_add_def)
qed

end
