(* ===== verification/Spec2Isabelle.thy ===== *)
theory Spec2Isabelle
  imports Linked_Buffer App_Routes Timers Tcp_Client Monitors Log_Pipeline Process_Info Inet_Address Loop_Threads Remote_Send Conditions Log_Life Upload_Download Sockets Server_Main Log_Stream
begin

text \<open>
  A verification of the file keeper, a personal cloud storage server in C++: a reactor network library after the model of muduo
  (\<^verbatim>\<open>inc/network\<close>, \<^verbatim>\<open>src/network\<close>), its utilities (\<^verbatim>\<open>inc/utils\<close>, \<^verbatim>\<open>src/utils\<close>), an HTTP server on top of it
  (\<^verbatim>\<open>network/http\<close>) and the application, one class with its handlers (\<^verbatim>\<open>app/HttpUploader.hpp\<close>, installed by \<^verbatim>\<open>app/main.cpp\<close>).

  \<^bold>\<open>The program.\<close>  An \<^verbatim>\<open>EventLoop\<close> per thread asks a \<^verbatim>\<open>Poller\<close> which descriptors are ready and lets their \<^verbatim>\<open>Channel\<close>s call
  back; other threads hand it functors and wake it through a descriptor; a \<^verbatim>\<open>TimerQueue\<close> hangs on another descriptor.  \<^verbatim>\<open>Acceptor\<close> and
  \<^verbatim>\<open>TcpServer\<close> turn accepted sockets into \<^verbatim>\<open>TcpConnection\<close>s on the loops of an \<^verbatim>\<open>EventLoopThreadPool\<close>; \<^verbatim>\<open>Connector\<close> and \<^verbatim>\<open>TcpClient\<close>
  do so for outgoing ones.  A connection reads into a \<^verbatim>\<open>Buffer\<close> and writes what the kernel does not take at once from another.
  \<^verbatim>\<open>HttpServer\<close> feeds the input to the \<^verbatim>\<open>HttpContext\<close> of the connection, an incremental parser; a complete request, or a large
  piece of an upload, goes to the callback of the application, which dispatches it over a table of patterns to a handler; the
  handler queries the database, changes files and fills in an \<^verbatim>\<open>HttpResponse\<close>, which is rendered into the output of the connection.
  A download goes on in the write-complete callback of its connection.

  \<^bold>\<open>Conventions.\<close>  A class is a \<^theory_text>\<open>record\<close>, a member function a definition that takes the object and returns it; names are those of
  the source, with a prefix where they would clash.  The result type has an error for each way in which a call may not return:
  failed assertions (the project is built in debug mode), accesses outside of memory, growth past \<^verbatim>\<open>max_size()\<close>, exhausted
  memory and fatal log statements.  Bytes are characters and byte strings lists of them; \<^verbatim>\<open>size_t\<close> is a natural number whose
  additions and subtractions wrap around explicitly; other integers are \<^typ>\<open>int\<close> with the conversion to their width written out, event
  masks, addresses and ports are words.  What the operating system, the database, the JSON library and the clock answer are arguments.
  What runs in several threads is an inductive step relation whose steps are the parts of the code between two points where
  another thread may come in; what holds is proved by rule induction over all its interleavings.

  \<^bold>\<open>Foundations.\<close>  \<open>Prelude\<close> has the result type, size arithmetic, the string functions of the C and C++ libraries and the
  collections of rewrite rules.  \<open>Std_Map\<close> and \<open>Std_Set\<close> are the ordered containers, each with its contract as a locale.
  \<open>Byte_Buffer\<close> has the locale of a byte queue: append, read, and any sequence of them; \<open>Net_Buffer\<close> (\<^verbatim>\<open>Buffer\<close>) and
  \<open>Linked_Buffer\<close> (\<^verbatim>\<open>LinkedBuffer\<close>) interpret it, so that both behave as the abstract queue and hence alike.  \<open>Fk_String\<close>
  (\<^verbatim>\<open>FKString\<close>) is a view into a memory of blocks; \<open>Calendar\<close> is \<^verbatim>\<open>Date\<close> and \<^verbatim>\<open>TimeStamp\<close>; \<open>File_Util\<close> and \<open>Process_Info\<close> are
  the files of these names.

  \<^bold>\<open>Network.\<close>  \<open>Channel\<close>: registration and dispatch of events.  \<open>Pollers\<close>: the registry of channels as a locale, implemented by
  \<^verbatim>\<open>EPollPoller\<close>, for any kernel with the laws of \<^verbatim>\<open>epoll_ctl\<close> (a second locale, with a sublocale between them), and by
  \<^verbatim>\<open>PollPoller\<close>.  \<open>Timers\<close>: the queue over a heap of timers, with what callbacks do to it while it runs them.  \<open>Event_Loop\<close>: the
  loop between the steps of other threads; no wake-up is lost but for a functor that the loop's own thread queues before it runs the loop, and in
  fair runs every functor is run.  \<open>Loop_Threads\<close>: atomic integers,
  \<^verbatim>\<open>Thread\<close> and \<^verbatim>\<open>EventLoopThread\<close>.  \<open>Inet_Address\<close>: byte order, addresses and the address functions of \<^verbatim>\<open>SocketsOps\<close>.
  \<open>Sockets\<close>: \<^verbatim>\<open>Socket\<close> and the other functions of \<^verbatim>\<open>SocketsOps\<close> over the socket table of the process, and a step relation for what
  acceptor, connector, client and connections do with their descriptors; they and the few ways to lose one account for exactly the open ones, each of
  which has its flags.
  \<open>Tcp_Connection\<close>: the life of a connection on its loop; in every reachable state what the kernel took and what waits in
  the buffer are the sends in order, and each operation returns exactly in the states that are said.  \<open>Remote_Send\<close>: the sends from other threads.  \<open>Tcp_Server\<close>: \<^verbatim>\<open>Acceptor\<close>, the thread pool of
  the server and its table of connections, which follows what is accepted and closed.  \<open>Tcp_Client\<close>: \<^verbatim>\<open>Connector\<close> and \<^verbatim>\<open>TcpClient\<close>, and what becomes of
  the sockets.

  \<^bold>\<open>Threads and logs.\<close>  \<open>Monitors\<close>: the blocking queues, the latch, \<^verbatim>\<open>ThreadPool\<close> and the mutex.  \<open>Conditions\<close>: condition
  variables, thread-local values and the corners of the thread pool.  \<open>Log_Pipeline\<close>: streams, lines, the buffers of the asynchronous
  log and rolling files.  \<open>Log_Stream\<close>: the stream and its buffer as memory, which implements the sequence of bytes of
  \<open>Log_Pipeline\<close>.  \<open>Log_Life\<close>: log statements with their levels, and the asynchronous log from start to stop.

  \<^bold>\<open>HTTP.\<close>  \<open>Http_Request\<close>, \<open>Http_Response\<close>: the records, percent decoding, rendering.  \<open>Http_Context\<close>: the parser accepts what
  is rendered, however its body is cut into pieces, and does not end on an incomplete header block.  \<open>Http_Server\<close>: what arrives on
  a connection and is answered.

  \<^bold>\<open>Application.\<close>  \<open>App_Base\<close>: the handler monad over connection, response and application, sessions, names, database access;
  \<open>Messages\<close> has its texts.  \<open>File_Contexts\<close>: the files of an upload and of a download.  \<open>App_Account\<close>, \<open>App_Upload\<close>,
  \<open>App_Download\<close>, \<open>App_Sharing\<close>: the handlers; who may do what, and which statements are sent to the database.  \<open>App_Routes\<close>: the
  table of routes as a specification, and the dispatch over compiled patterns that implements it.  Four theories compose the layers:
  \<open>Download_Delivery\<close>, application, connection and loop until the client has the file; \<open>Upload_Download\<close>, from the parts of an upload
  to what a later download puts on the wire; \<open>Server_Main\<close>, the life of the loop objects, the wiring of \<^verbatim>\<open>HttpServer\<close> and \<^verbatim>\<open>main\<close>, and that its
  connections are all served in the main loop; and this one, from the bytes of a request to the bytes of its response.

  \<^bold>\<open>Loops and bounds.\<close>  Every loop is a recursion that is proved to end, except those that may not: the two of the parser and that of \<^verbatim>\<open>AppendFile\<close> are
  partial functions with \<open>None\<close> for a call that does not return, and theorems say when they return; the event loop and the writer
  of the log are step relations.  No fuel is used.  Sizes are bounded by \<^const>\<open>vec_max\<close>, the limit of \<^verbatim>\<open>std::vector<char>\<close>, and theorems
  about growth have it as a hypothesis.

  \<^bold>\<open>Not modelled.\<close>  The kernel itself: which descriptor a call gives, its error, how many bytes it takes and what it reports of the
  process are arguments, and a theorem holds for all of them or names what it needs.  Floating point: the text of a number, the number of
  microseconds in a number of seconds and the quotients of \<^verbatim>\<open>cpuTime\<close> are arguments, and \<^verbatim>\<open>timeDiff\<close>, which is nothing else, is left out.
  The arguments of log statements are not evaluated, also not in \<^verbatim>\<open>HttpContext::parseRequest\<close>, which logs the buffer as a C string that need not end.
  Member functions that only return a field, log a line (\<^verbatim>\<open>TcpConnection::handleError\<close>) or run another one under a lock have no
  definition of their own.  MySQL, the JSON library, \<^verbatim>\<open>std::hash\<close>, \<^verbatim>\<open>std::regex\<close>
  outside of the patterns in use, and the text of IPv6 addresses are parameters or restricted as said in their theories.  The
  type names and base classes of \<^verbatim>\<open>Types.hpp\<close>, \<^verbatim>\<open>Callback.hpp\<close>, \<^verbatim>\<open>Copyable.hpp\<close> and \<^verbatim>\<open>NonCopyable.hpp\<close> have no behaviour.
\<close>

section \<open>From the bytes of a request to the bytes of a response\<close>

lemma onMessage_request:
  assumes inv: "conn_inv conn" "tc_context conn = Some ctx"
    and req: "fresh_context ctx" "wf_line m target v" "list_all wf_header hs"
      "contents (tc_input conn) = render_line m target v @ render_headers hs @ kCRLF @ rest"
      "\<not> isChunked (after_headers ctx t m target v hs)"
      "contentLength (after_headers ctx t m target v hs) \<le> length rest"
  shows "\<exists>c1. onMessage cb a conn t =
      (case onRequest cb a c1 of
         None \<Rightarrow> None
       | Some (Inl e) \<Rightarrow> Some (Inl e)
       | Some (Inr (syncProcessed, s', c2)) \<Rightarrow> Some (Inr (s', if syncProcessed then reset_conn c2 else c2))) \<and>
     conn_inv c1 \<and> stream c1 = stream conn \<and> tc_state c1 = tc_state conn \<and> tc_output c1 = tc_output conn \<and>
     conn_request c1 = hc_request (body_fed rest (after_headers ctx t m target v hs)) \<and>
     (\<forall>d. gives_up c1 d = gives_up conn d)"
proof -
  have ok: "buf_ok (tc_input conn)" using inv(1) by (simp add: conn_inv_def)
  let ?ctx = "body_fed rest (after_headers ctx t m target v hs)"
  obtain b where p: "parseRequest ctx (tc_input conn) t = Some (Inr (kGotRequest, ?ctx, b))" "buf_ok b"
    using parseRequest_complete [OF ok req] by blast
  show ?thesis
    using inv(2) p parsed_inv [OF inv(1) p(2), of "Some ?ctx"]
    by (intro exI [of _ "conn\<lparr>tc_input := b, tc_context := Some ?ctx\<rparr>"])
      (simp add: onMessage_def Let_def conn_request_def gives_up_parsed)
qed

lemma gives_up_cong:
  "tc_channel c' = tc_channel c \<Longrightarrow> tc_output c' = tc_output c \<Longrightarrow> sk_shut c' = sk_shut c \<Longrightarrow>
     sk_replies c' = sk_replies c \<Longrightarrow> gives_up c' d = gives_up c d"
  by (auto simp: gives_up_def send_direct_def sys_write_def Let_def queueInLoop_def
      split: prod.splits list.splits write_reply.splits)

lemma session_handler_rejects:
  assumes h: "h \<in> set session_handlers"
    and route: "find_route routes (rq_method (conn_request c)) (rq_path (conn_request c)) = Some (h, ps)"
    and sid: "getHeader (conn_request c) ''X-Session-ID'' = []"
    and dump: "env_dump env (error_json k401Unauthorized msg_not_logged_in) = Inr body"
  shows "\<exists>x. app_callback routes env a c r =
      Some (Inr (True, a, c\<lparr>tc_context := x, tc_writeCompleteCallback := Some Cb_shutdown\<rparr>, setBody body (respond k401Unauthorized msg_not_logged_in ''application/json'' r)))"
proof -
  let ?s = "\<lparr>h_app = a, h_conn = c, h_resp = r\<rparr>"
  obtain k where k: "run_handler env h = with_session env k" using session_handlers_with_session [OF h] by blast
  obtain r0 s0 where p: "set_path_params ps ?s = (r0, s0)" by (cases "set_path_params ps ?s")
  have req: "request_of ?s = conn_request c" by (simp add: request_of_def)
  have "with_session env k s0 = fail env msg_not_logged_in k401Unauthorized s0"
    using set_path_params_keeps(3) [OF p] sid req
    by (simp add: with_session_def header_def hbind_def validateSession_def)
  then have "app_onRequest routes env ?s = fail env msg_not_logged_in k401Unauthorized s0"
    using route p set_path_params_keeps(1) [OF p] k req fail_eq [OF dump]
    by (simp add: app_onRequest_def app_dispatch_def hcatch_def hbind_def)
  moreover have "h_app s0 = a" "h_resp s0 = r" "h_conn s0 = c\<lparr>tc_context := tc_context (h_conn s0)\<rparr>"
    using p by (auto simp: set_path_params_def)
  then obtain x where "h_app s0 = a" "h_resp s0 = r" "h_conn s0 = c\<lparr>tc_context := x\<rparr>" by blast
  ultimately show ?thesis
    using fail_eq [OF dump, of s0] by (auto simp: app_callback_def setWriteCompleteCallback_def)
qed

text \<open>
  C1 (safety). End to end, from bytes to bytes: when a complete well-formed request without a session
  header for one of the routes that need a session is in the input buffer of a connected client, the
  server appends exactly the 401 response to what it has sent on that connection, and the state of the
  application (database, files, mapping, downloads) is what it was: no statement is sent at all.
\<close>

theorem unauthenticated_request_end_to_end:
  assumes resp_def: "resp = (\<lambda>req. setBody body (respond k401Unauthorized msg_not_logged_in ''application/json''
                               (mkHttpResponse (wants_close req))))
                               (hc_request (body_fed rest (after_headers ctx t m target v hs)))"
    and req_def: "req = hc_request (body_fed rest (after_headers ctx t m target v hs))"
    and inv: "conn_inv conn" "tc_state conn = StateE.kConnected" "tc_context conn = Some ctx"
    and bytes: "fresh_context ctx" "wf_line m target v" "list_all wf_header hs"
      "contents (tc_input conn) = render_line m target v @ render_headers hs @ kCRLF @ rest"
      "\<not> isChunked (after_headers ctx t m target v hs)"
      "contentLength (after_headers ctx t m target v hs) \<le> length rest"
    and route: "find_route routes (rq_method req) (rq_path req) = Some (h, ps)" "h \<in> set session_handlers"
      "getHeader req ''X-Session-ID'' = []"
    and dump: "env_dump env (error_json k401Unauthorized msg_not_logged_in) = Inr body"
    and room: "8 + length (response_bytes resp) \<le> vec_max"
      "buf_used (tc_output conn) + length (response_bytes resp) \<le> vec_max"
    and up: "\<not> gives_up conn (response_bytes resp)"
  shows "\<exists>conn'. onMessage (app_callback routes env) a conn t = Some (Inr (a, conn')) \<and> conn_inv conn' \<and>
           stream conn' = stream conn @ response_bytes resp"
proof -
  obtain c1 where c1: "onMessage (app_callback routes env) a conn t =
      (case onRequest (app_callback routes env) a c1 of
         None \<Rightarrow> None
       | Some (Inl e) \<Rightarrow> Some (Inl e)
       | Some (Inr (syncProcessed, s', c2)) \<Rightarrow> Some (Inr (s', if syncProcessed then reset_conn c2 else c2)))"
    "conn_inv c1" "stream c1 = stream conn" "tc_state c1 = StateE.kConnected" "tc_output c1 = tc_output conn"
    "conn_request c1 = req" "\<And>d. gives_up c1 d = gives_up conn d"
    using onMessage_request [OF inv(1,3) bytes, of "app_callback routes env" a] inv(2) unfolding req_def [symmetric]
    by (elim exE conjE) simp
  obtain x c' where c': "app_callback routes env a c1 (mkHttpResponse (wants_close req)) = Some (Inr (True, a, c', resp))"
    "c' = c1\<lparr>tc_context := x, tc_writeCompleteCallback := Some Cb_shutdown\<rparr>"
    using session_handler_rejects [OF route(2) _ _ dump, of routes c1 ps a] route(1,3) c1(6)
    by (simp add: resp_def flip: req_def) blast
  have cc: "conn_inv c'" "stream c' = stream conn" "tc_state c' = StateE.kConnected" "tc_output c' = tc_output conn"
    using c1 conn_inv_cong [of c' c1] by (simp_all add: c'(2) stream_def)
  have g: "\<not> gives_up c' (response_bytes resp)"
    using up c1(7) gives_up_cong [of c' c1] by (simp add: c'(2))
  obtain c2 where c2: "send_response resp c' = Inr c2" "conn_inv c2" "stream c2 = stream conn @ response_bytes resp"
    using send_response_ok [OF cc(1,3) room(1) _ g] room(2) cc(2,4) by auto
  have "onMessage (app_callback routes env) a conn t = Some (Inr (a, reset_conn c2))"
    using c1(1,6) c'(1) c2(1) by (simp add: onRequest_def)
  moreover have "conn_inv (reset_conn c2)" "stream (reset_conn c2) = stream c2"
    using c2(2) conn_inv_cong [of "reset_conn c2" c2] by (simp_all add: reset_conn_def stream_def)
  ultimately show ?thesis using c2 by auto
qed

text \<open>A client that asks for its files without a session.\<close>

definition files_request :: bytes where
  "files_request = render_line ''GET'' ''/files'' kHttp11 @ render_headers [] @ kCRLF @ []"

definition files_client :: Conn where
  "files_client = (mkTcpConnection 5 None [])
     \<lparr>tc_state := StateE.kConnected, tc_channel := enableReading (mkChannel 5), tc_input := buffer_of files_request,
      tc_context := Some mkHttpContext\<rparr>"

lemma files_client_ok:
  "conn_inv files_client" "tc_state files_client = StateE.kConnected" "tc_context files_client = Some mkHttpContext"
  "contents (tc_input files_client) = render_line ''GET'' ''/files'' kHttp11 @ render_headers [] @ kCRLF @ []"
  "tc_output files_client = emptyBuffer" "\<not> gives_up files_client d"
proof -
  have "length files_request = 23"
    by (simp add: files_request_def render_line_def version_string_def render_headers_def kCRLF_def)
  then show "conn_inv files_client"
    unfolding conn_inv_def is_open_def
    by (simp add: files_client_def mkTcpConnection_def buffer_of_ok kCheapPrepend_def vec_max_def)
  show "tc_state files_client = StateE.kConnected" "tc_context files_client = Some mkHttpContext"
    "tc_output files_client = emptyBuffer"
    by (simp_all add: files_client_def mkTcpConnection_def)
  show "contents (tc_input files_client) = render_line ''GET'' ''/files'' kHttp11 @ render_headers [] @ kCRLF @ []"
    by (simp add: files_client_def contents_buffer_of files_request_def)
  show "\<not> gives_up files_client d"
    by (simp add: gives_up_def send_direct_def files_client_def mkTcpConnection_def sys_write_def Let_def
        EAGAIN_def EWOULDBLOCK_def EPIPE_def ECONNRESET_def)
qed

lemma response_401_length:
  "length (response_bytes (setBody ''{}'' (respond k401Unauthorized msg_not_logged_in ''application/json''
     (mkHttpResponse w)))) \<le> 400"
  by (simp add: response_bytes_def header_bytes_def respond_def setBody_def addRespHeader_def setContentType_def
      setStatusMessage_def setStatusCode_def mkHttpResponse_def nat_to_string.simps msg_not_logged_in_def utf8_def
      kCRLF_def)

theorem unauthenticated_request_end_to_end_witness:
  "\<exists>conn' resp. onMessage (app_callback (map entry_route route_table) (simple_env (\<lambda>db q. (Db_error, db))))
       (h_app (simple_state (0 :: nat) Map.empty mkHttpRequest)) files_client 3 =
         Some (Inr (h_app (simple_state 0 Map.empty mkHttpRequest), conn')) \<and>
     stream conn' = stream files_client @ response_bytes resp \<and> rs_statusCode resp = k401Unauthorized"
proof -
  let ?ctx = "mkHttpContext :: app_context HttpContext"
  let ?e = "simple_env (\<lambda>db q. (Db_error, db)) :: nat Env"
  let ?r = "mkHttpRequest\<lparr>rq_method := kGet, rq_version := kHttp11, rq_path := ''/files'', rq_receiveTime := 3\<rparr>"
  have ah: "after_headers ?ctx 3 ''GET'' ''/files'' kHttp11 [] =
      mkHttpContext\<lparr>hc_request := ?r, hc_state := kExpectBody\<rparr>"
    by (simp add: after_headers_def with_line_def Let_def parse_method_def std_find_def mkHttpContext_def
        mkHttpRequest_def)
  have req: "hc_request (body_fed [] (after_headers ?ctx 3 ''GET'' ''/files'' kHttp11 [])) = ?r"
    unfolding ah by (simp add: body_fed_def mkHttpContext_def mkHttpRequest_def)
  let ?resp = "setBody ''{}'' (respond k401Unauthorized msg_not_logged_in ''application/json'' (mkHttpResponse (wants_close ?r)))"
  have wf: "fresh_context ?ctx" "wf_line ''GET'' ''/files'' kHttp11" "list_all wf_header []"
    "\<not> isChunked (after_headers ?ctx 3 ''GET'' ''/files'' kHttp11 [])"
    "contentLength (after_headers ?ctx 3 ''GET'' ''/files'' kHttp11 []) \<le> length []"
    unfolding ah
    by (simp_all add: fresh_context_def mkHttpContext_def mkHttpRequest_def wf_line_def parse_method_def CR_def)
  have "entry_matches (Exact ''/files'') ''/files'' Map.empty" "(kGet, Exact ''/files'', H_handleListFiles) \<in> set route_table"
    by (simp_all add: entry_matches_def route_table_def)
  then have route: "find_route (map entry_route route_table) (rq_method ?r) (rq_path ?r) = Some (H_handleListFiles, Map.empty)"
    using find_route_complete [OF table_no_clash] by simp
  have h: "H_handleListFiles \<in> set session_handlers" "getHeader ?r ''X-Session-ID'' = []"
    "env_dump ?e (error_json k401Unauthorized msg_not_logged_in) = Inr ''{}''"
    by (simp_all add: session_handlers_def getHeader_def mkHttpRequest_def)
  have room: "8 + length (response_bytes ?resp) \<le> vec_max"
    "buf_used (tc_output files_client) + length (response_bytes ?resp) \<le> vec_max"
    using response_401_length [of "wants_close ?r"] by (simp_all add: files_client_ok(5) vec_max_def)
  have "?resp = (\<lambda>req. setBody ''{}'' (respond k401Unauthorized msg_not_logged_in ''application/json''
        (mkHttpResponse (wants_close req)))) (hc_request (body_fed [] (after_headers ?ctx 3 ''GET'' ''/files'' kHttp11 [])))"
    by (simp add: req)
  from unauthenticated_request_end_to_end [OF this req [symmetric] files_client_ok(1-3) wf(1-3) files_client_ok(4) wf(4,5)
      route h room files_client_ok(6)]
  obtain conn' where "onMessage (app_callback (map entry_route route_table) ?e)
      (h_app (simple_state 0 Map.empty mkHttpRequest)) files_client 3 =
        Some (Inr (h_app (simple_state 0 Map.empty mkHttpRequest), conn'))"
    "stream conn' = stream files_client @ response_bytes ?resp" by blast
  moreover have "rs_statusCode ?resp = k401Unauthorized" by simp
  ultimately show ?thesis by blast
qed

end
